(* ===== verification/Prelude.thy ===== *)
theory Prelude
  imports Main "HOL-Library.Word"
begin

text \<open>
  Shared vocabulary of the development: the C integer types as words, the two memory
  operations every component uses (a bounded copy into a buffer, a zero-filled buffer),
  the error codes of ESP-IDF that the firmware inspects, and the generic facts on lists
  and words the component proofs share.

  Conventions. A C object reached through a pointer becomes a value that is passed in and
  returned updated. A NULL guard is modelled where NULL is a value some caller can pass
  (it is then an \<open>option\<close>); a guard against a NULL that no caller passes has no
  counterpart, because a HOL value is always an object. Indexes, lengths and offsets are
  \<open>nat\<close> where a bound of the development shows that they stay below the width of the
  C type; every value that can wrap, every byte and every bit field is a word.
\<close>

unbundle bit_operations_syntax

type_synonym u8 = "8 word"
type_synonym u16 = "16 word"
type_synonym u32 = "32 word"
type_synonym u64 = "64 word"

text \<open>Collections: \<open>wire\<close> holds the facts that evaluate byte encodings,
  \<open>frame_cond\<close> the facts that say which fields an operation leaves alone.\<close>

named_theorems wire \<open>evaluation of byte encodings\<close>
named_theorems frame_cond \<open>fields an operation leaves unchanged\<close>

text \<open>The ESP-IDF error codes. Those the firmware tests or returns by name have a constructor; any
  other code is \<open>ESP_ERR\<close> with its number.\<close>

datatype esp_err =
    ESP_OK | ESP_ERR_INVALID_ARG | ESP_ERR_INVALID_STATE | ESP_ERR_NOT_SUPPORTED | ESP_ERR_TIMEOUT
  | ESP_ERR int

subsection \<open>Buffers\<close>

text \<open>\<open>memcpy_at xs off ys\<close> is the buffer \<open>xs\<close> after \<open>memcpy(&xs[off], ys, length ys)\<close>.\<close>

definition memcpy_at :: "'a list \<Rightarrow> nat \<Rightarrow> 'a list \<Rightarrow> 'a list" where
  "memcpy_at xs off ys = take off xs @ ys @ drop (off + length ys) xs"

lemma length_memcpy_at [simp]:
  "off + length ys \<le> length xs \<Longrightarrow> length (memcpy_at xs off ys) = length xs"
  by (simp add: memcpy_at_def)

lemma memcpy_at_Nil [simp]: "memcpy_at xs off [] = xs"
  by (simp add: memcpy_at_def)

lemma take_memcpy_at_before [simp]:
  "n \<le> off \<Longrightarrow> off \<le> length xs \<Longrightarrow> take n (memcpy_at xs off ys) = take n xs"
  by (simp add: memcpy_at_def min_def)

lemma take_memcpy_at [simp]:
  "off \<le> length xs \<Longrightarrow> n = off + length ys \<Longrightarrow> take n (memcpy_at xs off ys) = take off xs @ ys"
  by (simp add: memcpy_at_def)

lemma drop_memcpy_at [simp]:
  "off + length ys \<le> length xs \<Longrightarrow> n = off + length ys \<Longrightarrow>
   drop n (memcpy_at xs off ys) = drop n xs"
  by (simp add: memcpy_at_def)

lemma nth_memcpy_at:
  "off + length ys \<le> length xs \<Longrightarrow> i < length xs \<Longrightarrow>
   memcpy_at xs off ys ! i = (if off \<le> i \<and> i < off + length ys then ys ! (i - off) else xs ! i)"
  by (auto simp: memcpy_at_def nth_append min_def)

lemma take_list_update_below [simp]:
  "i < n \<Longrightarrow> take n (xs[i := v]) = (take n xs)[i := v]"
  by (simp add: take_update_swap)

subsection \<open>Bits of words\<close>

text \<open>
  A C flag test \<open>w & FLAG\<close> reads one bit. The instances below are the single-bit masks of
  the wire format and of the device-internal flag bytes.
\<close>

lemma and_flag_8 [simp]:
  fixes w :: u8
  shows "w AND 1 = 0 \<longleftrightarrow> \<not> bit w 0" "w AND 2 = 0 \<longleftrightarrow> \<not> bit w 1"
    "w AND 4 = 0 \<longleftrightarrow> \<not> bit w 2" "w AND 8 = 0 \<longleftrightarrow> \<not> bit w 3"
    "w AND 16 = 0 \<longleftrightarrow> \<not> bit w 4" "w AND 32 = 0 \<longleftrightarrow> \<not> bit w 5"
    "w AND 64 = 0 \<longleftrightarrow> \<not> bit w 6" "w AND 128 = 0 \<longleftrightarrow> \<not> bit w 7"
  using and_exp_eq_0_iff_not_bit [of w 0] and_exp_eq_0_iff_not_bit [of w 1]
    and_exp_eq_0_iff_not_bit [of w 2] and_exp_eq_0_iff_not_bit [of w 3]
    and_exp_eq_0_iff_not_bit [of w 4] and_exp_eq_0_iff_not_bit [of w 5]
    and_exp_eq_0_iff_not_bit [of w 6] and_exp_eq_0_iff_not_bit [of w 7]
  by simp_all

lemma low_nibble_id:
  fixes w :: u8
  assumes "w \<le> 15"
  shows "w AND 15 = w"
proof -
  have "unat w < 2 ^ 4" using assms by (simp add: word_le_nat_alt)
  then have "take_bit 4 w = w"
    by (intro word_unat_eq_iff [THEN iffD2]) (simp add: unsigned_take_bit_eq take_bit_nat_eq_self)
  then show ?thesis by (simp add: take_bit_eq_mask mask_eq_exp_minus_1)
qed

lemma unat_u8_less: "unat (w :: u8) < 256"
  using unsigned_less [of w, where ?'a = nat] by simp

lemma unat_u16_less: "unat (w :: u16) < 65536"
  using unsigned_less [of w, where ?'a = nat] by simp

lemma unat_u32_less: "unat (w :: u32) < 4294967296"
  using unsigned_less [of w, where ?'a = nat] by simp

lemma unat_ucast_up:
  fixes w :: "'a::len word"
  assumes "LENGTH('a) \<le> LENGTH('b::len)"
  shows "unat (ucast w :: 'b word) = unat w"
proof -
  have "unat w < 2 ^ LENGTH('a)" by (rule unsigned_less)
  also have "(2 :: nat) ^ LENGTH('a) \<le> 2 ^ LENGTH('b)" using assms by (rule power_increasing) simp
  finally have "unat w < 2 ^ LENGTH('b)" .
  then show ?thesis by (simp add: unsigned_ucast_eq take_bit_nat_eq_self)
qed

lemma low_nibble_le: "(w :: u8) AND 15 \<le> 15"
  by (rule word_and_le1)

lemma unat_low_nibble [simp]: "unat ((w :: u8) AND 15) \<le> 15"
  using low_nibble_le [of w] by (simp add: word_le_nat_alt)

end
