(* ===== verification/Pcan_Proto.thy ===== *)
theory Pcan_Proto
  imports Prelude
begin

text \<open>
  The wire contract of \<open>main/pcan_proto.h\<close>: the constants the other components use, the
  canonical CAN frame and the little-endian access helpers with their round trips.
\<close>

subsection \<open>Constants\<close>

text \<open>Command channel (\<open>pcan_proto.h\<close> section 2).\<close>

definition PCAN_USB_CMD_LEN :: nat where [simp]: "PCAN_USB_CMD_LEN = 16"
definition PCAN_USB_CMD_FUNC :: nat where [simp]: "PCAN_USB_CMD_FUNC = 0"
definition PCAN_USB_CMD_NUM :: nat where [simp]: "PCAN_USB_CMD_NUM = 1"
definition PCAN_USB_CMD_ARGS :: nat where [simp]: "PCAN_USB_CMD_ARGS = 2"

definition PCAN_USB_CMD_BITRATE :: u8 where [simp]: "PCAN_USB_CMD_BITRATE = 1"
definition PCAN_USB_CMD_SET_BUS :: u8 where [simp]: "PCAN_USB_CMD_SET_BUS = 3"
definition PCAN_USB_CMD_DEVID :: u8 where [simp]: "PCAN_USB_CMD_DEVID = 4"
definition PCAN_USB_CMD_SN :: u8 where [simp]: "PCAN_USB_CMD_SN = 6"
definition PCAN_USB_CMD_REGISTER :: u8 where [simp]: "PCAN_USB_CMD_REGISTER = 9"
definition PCAN_USB_CMD_EXT_VCC :: u8 where [simp]: "PCAN_USB_CMD_EXT_VCC = 10"
definition PCAN_USB_CMD_ERR_FR :: u8 where [simp]: "PCAN_USB_CMD_ERR_FR = 11"
definition PCAN_USB_CMD_LED :: u8 where [simp]: "PCAN_USB_CMD_LED = 12"

definition PCAN_USB_GET :: u8 where [simp]: "PCAN_USB_GET = 1"
definition PCAN_USB_SET :: u8 where [simp]: "PCAN_USB_SET = 2"
definition PCAN_USB_BUS_XCVER :: u8 where [simp]: "PCAN_USB_BUS_XCVER = 2"
definition PCAN_USB_BUS_SILENT_MODE :: u8 where [simp]: "PCAN_USB_BUS_SILENT_MODE = 3"

definition PCAN_USB_DEFAULT_SERIAL :: u32 where [simp]: "PCAN_USB_DEFAULT_SERIAL = 0x00C0FFEE"
definition PCAN_USB_DEFAULT_DEVID :: u8 where [simp]: "PCAN_USB_DEFAULT_DEVID = 0"
definition PCAN_USB_BERR_MASK :: u8 where [simp]: "PCAN_USB_BERR_MASK = 0x06"
definition PCAN_USB_STATE_CONNECTED :: u32 where [simp]: "PCAN_USB_STATE_CONNECTED = 1"
definition PCAN_USB_STATE_STARTED :: u32 where [simp]: "PCAN_USB_STATE_STARTED = 2"

text \<open>Message records (sections 1 and 3).\<close>

definition PCAN_USB_TX_BUFFER_SIZE :: nat where [simp]: "PCAN_USB_TX_BUFFER_SIZE = 64"
definition PCAN_USB_MSG_HEADER_LEN :: nat where [simp]: "PCAN_USB_MSG_HEADER_LEN = 2"
definition PCAN_USB_MSG_TX_CAN :: u8 where [simp]: "PCAN_USB_MSG_TX_CAN = 2"

definition PCAN_USB_STATUSLEN_TIMESTAMP :: u8 where [simp]: "PCAN_USB_STATUSLEN_TIMESTAMP = 0x80"
definition PCAN_USB_STATUSLEN_INTERNAL :: u8 where [simp]: "PCAN_USB_STATUSLEN_INTERNAL = 0x40"
definition PCAN_USB_STATUSLEN_EXT_ID :: u8 where [simp]: "PCAN_USB_STATUSLEN_EXT_ID = 0x20"
definition PCAN_USB_STATUSLEN_RTR :: u8 where [simp]: "PCAN_USB_STATUSLEN_RTR = 0x10"
definition PCAN_USB_STATUSLEN_DLC :: u8 where [simp]: "PCAN_USB_STATUSLEN_DLC = 0x0F"

definition PCAN_USB_STD_ID_SHIFT :: nat where [simp]: "PCAN_USB_STD_ID_SHIFT = 5"
definition PCAN_USB_EXT_ID_SHIFT :: nat where [simp]: "PCAN_USB_EXT_ID_SHIFT = 3"
definition PCAN_USB_TX_SRR :: u8 where [simp]: "PCAN_USB_TX_SRR = 1"
definition PCAN_USB_TX_AT :: u8 where [simp]: "PCAN_USB_TX_AT = 2"

text \<open>Timestamps and status records (sections 4 and 5).\<close>

definition PCAN_USB_TS_US_PER_TICK :: u64 where [simp]: "PCAN_USB_TS_US_PER_TICK = 44739243"
definition PCAN_USB_TS_DIV_SHIFTER :: nat where [simp]: "PCAN_USB_TS_DIV_SHIFTER = 20"
definition PCAN_USB_TS_TICK_NS :: u64 where [simp]: "PCAN_USB_TS_TICK_NS = 42667"
definition PCAN_USB_TS_CALIB_PERIOD_MS :: u64 where [simp]: "PCAN_USB_TS_CALIB_PERIOD_MS = 1000"

definition PCAN_USB_REC_ERROR :: u8 where [simp]: "PCAN_USB_REC_ERROR = 1"
definition PCAN_USB_REC_ANALOG :: u8 where [simp]: "PCAN_USB_REC_ANALOG = 2"
definition PCAN_USB_REC_BUSLOAD :: u8 where [simp]: "PCAN_USB_REC_BUSLOAD = 3"
definition PCAN_USB_REC_TS :: u8 where [simp]: "PCAN_USB_REC_TS = 4"

definition PCAN_USB_ERROR_RXQOVR :: u8 where [simp]: "PCAN_USB_ERROR_RXQOVR = 0x02"
definition PCAN_USB_ERROR_BUS_LIGHT :: u8 where [simp]: "PCAN_USB_ERROR_BUS_LIGHT = 0x04"
definition PCAN_USB_ERROR_BUS_HEAVY :: u8 where [simp]: "PCAN_USB_ERROR_BUS_HEAVY = 0x08"
definition PCAN_USB_ERROR_BUS_OFF :: u8 where [simp]: "PCAN_USB_ERROR_BUS_OFF = 0x10"

definition PCAN_USB_DEFAULT_BITRATE :: u32 where [simp]: "PCAN_USB_DEFAULT_BITRATE = 500000"

text \<open>The BTR table (section 6), as rows \<open>(bitrate, btr0, btr1)\<close>.\<close>

definition PCAN_BTR_TABLE_INIT :: "(u32 \<times> u8 \<times> u8) list" where
  "PCAN_BTR_TABLE_INIT =
     [(1000000, 0x00, 0x14), (800000, 0x00, 0x16), (500000, 0x00, 0x1C), (250000, 0x01, 0x1C),
      (125000, 0x03, 0x1C), (100000, 0x43, 0x2F), (50000, 0x47, 0x2F), (20000, 0x53, 0x2F),
      (10000, 0x67, 0x2F), (5000, 0x7F, 0x7F)]"

subsection \<open>The canonical frame (section 7)\<close>

definition PCAN_FRAME_MAX_DLC :: u8 where [simp]: "PCAN_FRAME_MAX_DLC = 8"
definition PCAN_FRAME_FLAG_EXT :: u8 where [simp]: "PCAN_FRAME_FLAG_EXT = 0x01"
definition PCAN_FRAME_FLAG_RTR :: u8 where [simp]: "PCAN_FRAME_FLAG_RTR = 0x02"
definition PCAN_FRAME_FLAG_SS :: u8 where [simp]: "PCAN_FRAME_FLAG_SS = 0x04"
definition PCAN_FRAME_FLAG_SRR :: u8 where [simp]: "PCAN_FRAME_FLAG_SRR = 0x08"

record pcan_frame =
  fr_id :: u32
  fr_ts16 :: u16
  fr_dlc :: u8
  fr_flags :: u8
  fr_data :: "u8 list"
  fr_writer_id :: u8

text \<open>\<open>data\<close> is a C array of eight bytes; the other fields take every value of their type.\<close>

definition frame_ok :: "pcan_frame \<Rightarrow> bool" where
  "frame_ok f \<longleftrightarrow> length (fr_data f) = 8"

definition zero_frame :: pcan_frame where
  "zero_frame = \<lparr>fr_id = 0, fr_ts16 = 0, fr_dlc = 0, fr_flags = 0, fr_data = replicate 8 0,
     fr_writer_id = 0\<rparr>"

lemma frame_ok_zero [simp]: "frame_ok zero_frame"
  by (simp add: frame_ok_def zero_frame_def)

subsection \<open>Little-endian access helpers (section 8)\<close>

definition pcan_get_le16 :: "u8 list \<Rightarrow> nat \<Rightarrow> u16" where
  "pcan_get_le16 p i = ucast (p ! i) OR push_bit 8 (ucast (p ! (i + 1)))"

definition pcan_get_le32 :: "u8 list \<Rightarrow> nat \<Rightarrow> u32" where
  "pcan_get_le32 p i = ucast (p ! i) OR push_bit 8 (ucast (p ! (i + 1))) OR
     push_bit 16 (ucast (p ! (i + 2))) OR push_bit 24 (ucast (p ! (i + 3)))"

definition pcan_put_le16 :: "u16 \<Rightarrow> u8 list" where
  "pcan_put_le16 v = [ucast (v AND 0xFF), ucast (drop_bit 8 v AND 0xFF)]"

definition pcan_put_le32 :: "u32 \<Rightarrow> u8 list" where
  "pcan_put_le32 v = [ucast (v AND 0xFF), ucast (drop_bit 8 v AND 0xFF),
     ucast (drop_bit 16 v AND 0xFF), ucast (drop_bit 24 v AND 0xFF)]"

lemma length_put_le16 [simp]: "length (pcan_put_le16 v) = 2"
  by (simp add: pcan_put_le16_def)

lemma length_put_le32 [simp]: "length (pcan_put_le32 v) = 4"
  by (simp add: pcan_put_le32_def)

lemma bit_255: "bit (0xFF :: int) n \<longleftrightarrow> n < 8"
proof -
  have "bit (mask 8 :: int) n \<longleftrightarrow> n < 8" by (simp add: bit_mask_iff)
  moreover have "(mask 8 :: int) = 0xFF" by (simp add: mask_eq_exp_minus_1)
  ultimately show ?thesis by (simp only:)
qed

lemma byte_mask_redundant [simp]:
  "ucast ((v :: 'a::len word) AND 0xFF) = (ucast v :: u8)"
  by (rule bit_word_eqI) (auto simp: bit_simps bit_255 dest: bit_imp_le_length)

lemma put_le16_bytes [wire]: "pcan_put_le16 v = [ucast v, ucast (drop_bit 8 v)]"
  by (simp add: pcan_put_le16_def)

lemma put_le32_bytes [wire]:
  "pcan_put_le32 v = [ucast v, ucast (drop_bit 8 v), ucast (drop_bit 16 v), ucast (drop_bit 24 v)]"
  by (simp add: pcan_put_le32_def)

lemma le16_join:
  "ucast (ucast v :: u8) OR push_bit 8 (ucast (ucast (drop_bit 8 v) :: u8)) = (v :: u16)"
  by (rule bit_word_eqI) (auto simp: bit_simps not_less)

lemma le32_join:
  "ucast (ucast v :: u8) OR push_bit 8 (ucast (ucast (drop_bit 8 v) :: u8)) OR
   push_bit 16 (ucast (ucast (drop_bit 16 v) :: u8)) OR
   push_bit 24 (ucast (ucast (drop_bit 24 v) :: u8)) = (v :: u32)"
  (is "?a OR ?b OR ?c OR ?d = v")
proof (rule bit_word_eqI)
  fix n assume "n < LENGTH(32)"
  then have n: "n < 32" by simp
  have a: "bit ?a n \<longleftrightarrow> n < 8 \<and> bit v n" using n by (auto simp: bit_simps)
  have b: "bit ?b n \<longleftrightarrow> 8 \<le> n \<and> n < 16 \<and> bit v n" using n by (auto simp: bit_simps)
  have c: "bit ?c n \<longleftrightarrow> 16 \<le> n \<and> n < 24 \<and> bit v n" using n by (auto simp: bit_simps)
  have d: "bit ?d n \<longleftrightarrow> 24 \<le> n \<and> n < 32 \<and> bit v n" using n by (auto simp: bit_simps)
  show "bit (?a OR ?b OR ?c OR ?d) n \<longleftrightarrow> bit v n"
    unfolding bit_or_iff a b c d using n by (auto simp: not_less)
qed

lemma get_put_le16 [simp]:
  assumes "i = length pre"
  shows "pcan_get_le16 (pre @ pcan_put_le16 v @ post) i = v"
  by (simp add: assms pcan_get_le16_def put_le16_bytes nth_append le16_join)

lemma get_put_le32 [simp]:
  assumes "i = length pre"
  shows "pcan_get_le32 (pre @ pcan_put_le32 v @ post) i = v"
  by (simp add: assms pcan_get_le32_def put_le32_bytes nth_append le32_join)

end
