(* ===== verification/Pcan_Time.thy ===== *)
theory Pcan_Time
  imports Pcan_Proto
begin

text \<open>
  The timestamp engine, \<open>main/pcan_time.c\<close> and \<open>main/pcan_time.h\<close>. The monotonic clock
  \<open>esp_timer_get_time\<close> is an argument (\<open>now\<close>, its value cast to 64 bits); the captured epoch
  \<open>s_epoch_us\<close> is the other argument. The lemmas show that no 64-bit product overflows for
  584 years of uptime, that the 16-bit tick is the exact tick count modulo \<open>2 ^ 16\<close>, and how far
  the host's microsecond conversion is from the true elapsed time.
\<close>

subsection \<open>The engine\<close>

definition pcan_time_init :: "u64 \<Rightarrow> u64" where
  "pcan_time_init now = now"

definition pcan_time_elapsed_us :: "u64 \<Rightarrow> u64 \<Rightarrow> u64" where
  "pcan_time_elapsed_us s_epoch_us now = (if now < s_epoch_us then 0 else now - s_epoch_us)"

definition pcan_time_now_ticks64 :: "u64 \<Rightarrow> u64 \<Rightarrow> u64" where
  "pcan_time_now_ticks64 s_epoch_us now =
     (let us = pcan_time_elapsed_us s_epoch_us now; ns = us * 1000
      in ns div PCAN_USB_TS_TICK_NS)"

definition pcan_time_now16 :: "u64 \<Rightarrow> u64 \<Rightarrow> u16" where
  "pcan_time_now16 s_epoch_us now = ucast (pcan_time_now_ticks64 s_epoch_us now AND 0xFFFF)"

definition pcan_time_now_us :: "u64 \<Rightarrow> u64 \<Rightarrow> u64" where
  "pcan_time_now_us s_epoch_us now = pcan_time_elapsed_us s_epoch_us now"

definition pcan_time_ticks_to_us :: "u16 \<Rightarrow> u32" where
  "pcan_time_ticks_to_us ticks =
     ucast (drop_bit PCAN_USB_TS_DIV_SHIFTER ((ucast ticks :: u64) * PCAN_USB_TS_US_PER_TICK))"

subsection \<open>The timestamp-width tracker of one batch\<close>

record pcan_ts_batch =
  have_first :: bool
  last_ts16 :: u16

definition pcan_ts_batch_reset :: "pcan_ts_batch \<Rightarrow> pcan_ts_batch" where
  "pcan_ts_batch_reset b = b\<lparr>have_first := False, last_ts16 := 0\<rparr>"

text \<open>\<open>pcan_ts_append\<close> returns the updated tracker and the bytes it writes at \<open>dst\<close>.\<close>

definition pcan_ts_append :: "pcan_ts_batch \<Rightarrow> u16 \<Rightarrow> pcan_ts_batch \<times> u8 list" where
  "pcan_ts_append b ts =
     (let (b1, out) = (if \<not> have_first b then (b\<lparr>have_first := True\<rparr>, pcan_put_le16 ts)
                       else (b, [ucast (ts AND 0xFF)]))
      in (b1\<lparr>last_ts16 := ts\<rparr>, out))"

lemma pcan_ts_append_simps [wire]:
  "pcan_ts_append b ts =
     (b\<lparr>have_first := True, last_ts16 := ts\<rparr>,
      if have_first b then [ucast ts] else pcan_put_le16 ts)"
  by (cases b) (simp add: pcan_ts_append_def)

lemma length_ts_append:
  "length (snd (pcan_ts_append b ts)) = (if have_first b then 1 else 2)"
  by (simp add: pcan_ts_append_simps)

subsection \<open>Ticks without overflow\<close>

text \<open>Uptime, in microseconds, below which the nanosecond product fits 64 bits.\<close>

definition uptime_bound :: nat where
  "uptime_bound = 2 ^ 64 div 1000"

lemma unat_elapsed:
  "unat (pcan_time_elapsed_us e n) = unat n - unat e"
  by (auto simp: pcan_time_elapsed_us_def unat_sub word_less_nat_alt word_le_nat_alt not_less)

lemma unat_ticks64:
  assumes "unat n - unat e < uptime_bound"
  shows "unat (pcan_time_now_ticks64 e n) = (unat n - unat e) * 1000 div 42667"
proof -
  have "(unat n - unat e) * 1000 < 2 ^ 64"
    using assms by (simp add: uptime_bound_def)
  then have "unat (pcan_time_elapsed_us e n * 1000) = (unat n - unat e) * 1000"
    by (simp add: unat_mult_lem [THEN iffD1] unat_elapsed)
  then show ?thesis
    by (simp add: pcan_time_now_ticks64_def unat_div)
qed

lemma now16_ucast: "pcan_time_now16 e n = ucast (pcan_time_now_ticks64 e n)"
proof -
  have m: "(0xFFFF :: u64) = mask 16" by (simp add: mask_eq_exp_minus_1)
  show ?thesis
    unfolding pcan_time_now16_def m
    by (rule bit_word_eqI) (auto simp: bit_simps simp del: mask_numeral)
qed

lemma now16_exact:
  assumes "unat n - unat e < uptime_bound"
  shows "pcan_time_now16 e n = word_of_nat ((unat n - unat e) * 1000 div 42667)"
  unfolding now16_ucast unat_ticks64 [OF assms, symmetric] by simp

lemma ticks_to_us_nat:
  "unat (pcan_time_ticks_to_us t) = unat t * 44739243 div 2 ^ 20"
proof -
  have t: "unat t < 65536" by (rule unat_u16_less)
  then have p: "unat t * 44739243 < 2 ^ 42" by simp
  have "unat (ucast t :: u64) = unat t" by (simp add: unat_ucast_up)
  then have "unat ((ucast t :: u64) * 44739243) = unat t * 44739243"
    using p by (simp add: unat_word_ariths)
  then have d: "unat (drop_bit 20 ((ucast t :: u64) * 44739243)) = unat t * 44739243 div 2 ^ 20"
    unfolding unat_drop_bit_eq by (simp add: drop_bit_eq_div)
  have "unat t * 44739243 div 2 ^ 20 < 2 ^ 32" using p by (simp add: less_mult_imp_div_less)
  then show ?thesis
    using d by (simp add: pcan_time_ticks_to_us_def unsigned_ucast_eq take_bit_nat_eq_self)
qed

text \<open>The linear core of the host's fixed-point conversion: \<open>t\<close> ticks, \<open>u\<close> microseconds, result \<open>q\<close>.\<close>

lemma fixed_point_bound:
  fixes t u q :: nat
  assumes "t * 42667 \<le> u * 1000" "u * 1000 < (t + 1) * 42667"
    and "2 ^ 20 * q \<le> t * 44739243" "t * 44739243 < 2 ^ 20 * q + 2 ^ 20" and "t < 65536"
  shows "q \<le> u \<and> u < q + 66"
  using assms by (intro conjI) simp_all

subsection \<open>Properties\<close>

text \<open>C39. For every uptime below 584 years the 16-bit tick is the exact number of elapsed
  42667 ns periods modulo \<open>2 ^ 16\<close>, so two samples differ, modulo \<open>2 ^ 16\<close>, by exactly the
  ticks that elapsed between them, whatever number of wraps lies in between.\<close>

theorem tick_delta_modular:
  assumes "e \<le> n1" "n1 \<le> n2" "unat n2 - unat e < uptime_bound"
  shows "pcan_time_now16 e n2 - pcan_time_now16 e n1 =
    word_of_nat ((unat n2 - unat e) * 1000 div 42667 - (unat n1 - unat e) * 1000 div 42667)"
proof -
  have le: "unat n1 \<le> unat n2" using assms(2) by (simp add: word_le_nat_alt)
  then have "unat n1 - unat e < uptime_bound" using assms(3) by simp
  moreover have "(unat n1 - unat e) * 1000 div 42667 \<le> (unat n2 - unat e) * 1000 div 42667"
    using le by (intro div_le_mono mult_le_mono1 diff_le_mono)
  ultimately show ?thesis
    using assms(3) by (simp add: now16_exact of_nat_diff)
qed

theorem tick_delta_modular_witness:
  "pcan_time_now16 0 6000000 - pcan_time_now16 0 1000000 = word_of_nat (140623 - 23437)"
  using tick_delta_modular [of 0 1000000 6000000] by (simp add: uptime_bound_def)

text \<open>C40. Within one wrap of the 16-bit counter (2.796 s) the host's fixed-point conversion of the
  device tick never runs ahead of the true elapsed time and lags it by less than 66 us: one tick
  of quantisation plus the 0.33 ns per tick by which the device period exceeds the host's scale.\<close>

theorem host_time_error_bound:
  assumes "(unat n - unat e) * 1000 < 65536 * 42667"
  shows "unat (pcan_time_ticks_to_us (pcan_time_now16 e n)) \<le> unat (pcan_time_now_us e n) \<and>
    unat (pcan_time_now_us e n) < unat (pcan_time_ticks_to_us (pcan_time_now16 e n)) + 66"
proof -
  let ?us = "unat n - unat e" and ?t = "(unat n - unat e) * 1000 div 42667"
  have "?us < uptime_bound" using assms by (simp add: uptime_bound_def)
  then have n16: "pcan_time_now16 e n = word_of_nat ?t" by (rule now16_exact)
  have t: "?t < 65536" using assms by (simp add: less_mult_imp_div_less)
  have "unat (word_of_nat ?t :: u16) = ?t"
    using t by (simp add: unat_of_nat)
  then have conv: "unat (pcan_time_ticks_to_us (pcan_time_now16 e n)) = ?t * 44739243 div 2 ^ 20"
    by (simp add: n16 ticks_to_us_nat)
  have us: "unat (pcan_time_now_us e n) = ?us"
    by (simp add: pcan_time_now_us_def unat_elapsed)
  have lo: "?t * 42667 \<le> ?us * 1000" and hi: "?us * 1000 < (?t + 1) * 42667"
    by (simp_all add: div_times_less_eq_dividend dividend_less_div_times)
  have q: "2 ^ 20 * (?t * 44739243 div 2 ^ 20) \<le> ?t * 44739243"
    and r: "?t * 44739243 < 2 ^ 20 * (?t * 44739243 div 2 ^ 20) + 2 ^ 20"
    by (simp_all add: times_div_less_eq_dividend mult.commute dividend_less_div_times)
  show ?thesis
    unfolding conv us using lo hi q r t by (rule fixed_point_bound)
qed

theorem host_time_error_bound_witness:
  "unat (pcan_time_ticks_to_us (pcan_time_now16 0 2000000)) \<le> 2000000 \<and>
   2000000 < unat (pcan_time_ticks_to_us (pcan_time_now16 0 2000000)) + 66"
  using host_time_error_bound [of 2000000 0]
  by (simp add: pcan_time_now_us_def unat_elapsed)

end
