(* ===== verification/Pcan_Msg.thy ===== *)
theory Pcan_Msg
  imports Pcan_Time
begin

text \<open>
  The EP2 record codec, \<open>main/pcan_msg.c\<close>: the batch encoder state \<open>pcan_batch_t\<close>, the
  encoders for CAN frames and status records, and the decoder of host transmit batches. A
  pointer \<open>p\<close> that walks over the batch becomes the byte list the walk writes, copied at
  \<open>b_len\<close>. Lengths and positions are \<open>nat\<close>: the invariant \<open>batch_ok\<close> keeps \<open>b_len\<close> at most
  64, and the decoder never leaves its transfer, so no \<open>uint16_t\<close> cast of the code truncates.
\<close>

subsection \<open>Batch encoder\<close>

record pcan_batch =
  b_buf :: "u8 list"
  b_len :: nat
  b_rec_cnt :: u8
  b_ts :: pcan_ts_batch

definition pcan_msg_ts_width :: "pcan_batch \<Rightarrow> nat" where
  "pcan_msg_ts_width b = (if have_first (b_ts b) then 1 else 2)"

definition pcan_msg_batch_reset :: "pcan_batch \<Rightarrow> pcan_batch" where
  "pcan_msg_batch_reset b =
     b\<lparr>b_buf := (b_buf b)[0 := PCAN_USB_MSG_TX_CAN, 1 := 0], b_len := PCAN_USB_MSG_HEADER_LEN,
       b_rec_cnt := 0, b_ts := pcan_ts_batch_reset (b_ts b)\<rparr>"

definition pcan_msg_batch_len :: "pcan_batch \<Rightarrow> nat" where
  "pcan_msg_batch_len b = b_len b"

definition pcan_msg_batch_count :: "pcan_batch \<Rightarrow> u8" where
  "pcan_msg_batch_count b = b_rec_cnt b"

text \<open>The three header tests and the saturated DLC of a frame.\<close>

definition fr_ext :: "pcan_frame \<Rightarrow> bool" where
  "fr_ext f \<longleftrightarrow> fr_flags f AND PCAN_FRAME_FLAG_EXT \<noteq> 0"

definition fr_rtr :: "pcan_frame \<Rightarrow> bool" where
  "fr_rtr f \<longleftrightarrow> fr_flags f AND PCAN_FRAME_FLAG_RTR \<noteq> 0"

definition fr_srr :: "pcan_frame \<Rightarrow> bool" where
  "fr_srr f \<longleftrightarrow> fr_flags f AND PCAN_FRAME_FLAG_SRR \<noteq> 0"

definition fr_ss :: "pcan_frame \<Rightarrow> bool" where
  "fr_ss f \<longleftrightarrow> fr_flags f AND PCAN_FRAME_FLAG_SS \<noteq> 0"

definition sat_dlc :: "u8 \<Rightarrow> u8" where
  "sat_dlc d = (if d > PCAN_FRAME_MAX_DLC then PCAN_FRAME_MAX_DLC else d)"

definition frame_data_bytes :: "pcan_frame \<Rightarrow> nat" where
  "frame_data_bytes f = (if fr_rtr f then 0 else unat (sat_dlc (fr_dlc f)))"

text \<open>Size of a frame record: SL, id, timestamp, data and the optional SRR trailer.\<close>

definition frame_record_size :: "pcan_batch \<Rightarrow> pcan_frame \<Rightarrow> nat" where
  "frame_record_size b f =
     (let id_bytes = (if fr_ext f then 4 else 2);
          ts_bytes = pcan_msg_ts_width b;
          srr_bytes = (if fr_srr f \<and> \<not> fr_rtr f then 1 else 0)
      in 1 + id_bytes + ts_bytes + frame_data_bytes f + srr_bytes)"

definition frame_txflags :: "pcan_frame \<Rightarrow> u8" where
  "frame_txflags f =
     (if fr_srr f then PCAN_USB_TX_SRR else 0) OR (if fr_ss f then PCAN_USB_TX_AT else 0)"

definition frame_sl :: "pcan_frame \<Rightarrow> u8" where
  "frame_sl f = (sat_dlc (fr_dlc f) AND PCAN_USB_STATUSLEN_DLC) OR PCAN_USB_STATUSLEN_TIMESTAMP OR
     (if fr_ext f then PCAN_USB_STATUSLEN_EXT_ID else 0) OR
     (if fr_rtr f then PCAN_USB_STATUSLEN_RTR else 0)"

definition frame_id_bytes :: "pcan_frame \<Rightarrow> u8 list" where
  "frame_id_bytes f =
     (if fr_ext f
      then pcan_put_le32 (push_bit PCAN_USB_EXT_ID_SHIFT (fr_id f AND 0x1FFFFFFF) OR
             ucast (frame_txflags f))
      else pcan_put_le16 (ucast (push_bit PCAN_USB_STD_ID_SHIFT (fr_id f AND 0x7FF) OR
             ucast (frame_txflags f) :: u32)))"

text \<open>The common tail of both encoders: the record bytes are in place, the count and the header
  byte that mirrors it go up by one, the length moves to the end of the record.\<close>

definition batch_commit :: "pcan_batch \<Rightarrow> pcan_ts_batch \<Rightarrow> u8 list \<Rightarrow> pcan_batch" where
  "batch_commit b ts' out =
     (let cnt = b_rec_cnt b + 1
      in b\<lparr>b_buf := (memcpy_at (b_buf b) (b_len b) out)[1 := cnt], b_len := b_len b + length out,
           b_rec_cnt := cnt, b_ts := ts'\<rparr>)"

definition pcan_msg_batch_add_frame :: "pcan_batch \<Rightarrow> pcan_frame \<Rightarrow> bool \<times> pcan_batch" where
  "pcan_msg_batch_add_frame b f =
     (if b_len b + frame_record_size b f > PCAN_USB_TX_BUFFER_SIZE then (False, b)
      else
        let (ts', ts_out) = pcan_ts_append (b_ts b) (fr_ts16 f);
            data_out = take (frame_data_bytes f) (fr_data f);
            trailer = (if fr_srr f \<and> \<not> fr_rtr f then [fr_writer_id f] else []);
            out = [frame_sl f] @ frame_id_bytes f @ ts_out @ data_out @ trailer
        in (True, batch_commit b ts' out))"

text \<open>\<open>payload = None\<close> is the NULL payload pointer; \<open>payload_len\<close> is the C argument beside it.\<close>

definition pcan_msg_batch_add_status ::
    "pcan_batch \<Rightarrow> u8 \<Rightarrow> u8 \<Rightarrow> u8 list option \<Rightarrow> u8 \<Rightarrow> bool \<Rightarrow> u16 \<Rightarrow> bool \<times> pcan_batch" where
  "pcan_msg_batch_add_status b func num payload payload_len with_ts ts =
     (if payload_len > PCAN_USB_STATUSLEN_DLC then (False, b)
      else if payload_len > 0 \<and> payload = None then (False, b)
      else if b_len b + (1 + 2 + (if with_ts then pcan_msg_ts_width b else 0) + unat payload_len)
              > PCAN_USB_TX_BUFFER_SIZE then (False, b)
      else
        let sl = (payload_len AND PCAN_USB_STATUSLEN_DLC) OR PCAN_USB_STATUSLEN_INTERNAL OR
                   (if with_ts then PCAN_USB_STATUSLEN_TIMESTAMP else 0);
            (ts', ts_out) = (if with_ts then pcan_ts_append (b_ts b) ts else (b_ts b, []));
            pay_out = (if payload_len > 0 then take (unat payload_len) (the payload) else []);
            out = [sl, func, num] @ ts_out @ pay_out
        in (True, batch_commit b ts' out))"

definition pcan_msg_batch_add_calib_ts :: "pcan_batch \<Rightarrow> u16 \<Rightarrow> bool \<times> pcan_batch" where
  "pcan_msg_batch_add_calib_ts b ts =
     pcan_msg_batch_add_status b PCAN_USB_REC_TS 0 (Some (pcan_put_le16 ts)) 2 False 0"

definition pcan_msg_batch_add_error :: "pcan_batch \<Rightarrow> u8 \<Rightarrow> u16 \<Rightarrow> bool \<times> pcan_batch" where
  "pcan_msg_batch_add_error b err_mask ts =
     pcan_msg_batch_add_status b PCAN_USB_REC_ERROR err_mask None 0 True ts"

subsection \<open>Decoder of host transmit batches\<close>

text \<open>
  One record of an EP2-OUT batch. \<open>DecSkip\<close> is a skipped status record with the next position,
  \<open>DecFrame\<close> a decoded frame with the next position, \<open>DecBad\<close> the return of \<open>-1\<close>.
\<close>

datatype dec_result = DecBad | DecSkip nat | DecFrame pcan_frame nat

definition tx_frame_flags :: "bool \<Rightarrow> bool \<Rightarrow> bool \<Rightarrow> bool \<Rightarrow> u8" where
  "tx_frame_flags ext rtr ss srr =
     (if ext then PCAN_FRAME_FLAG_EXT else 0) OR (if rtr then PCAN_FRAME_FLAG_RTR else 0) OR
     (if ss then PCAN_FRAME_FLAG_SS else 0) OR (if srr then PCAN_FRAME_FLAG_SRR else 0)"

definition decode_tx_data :: "u8 list \<Rightarrow> nat \<Rightarrow> u8 \<Rightarrow> u8 \<Rightarrow> nat \<Rightarrow> dec_result" where
  "decode_tx_data buf len writer_id sl pos =
     (let ext = (sl AND PCAN_USB_STATUSLEN_EXT_ID \<noteq> 0);
          rtr = (sl AND PCAN_USB_STATUSLEN_RTR \<noteq> 0);
          id_bytes = (if ext then 4 else 2)
      in if pos + id_bytes > len then DecBad
      else
        let (fid, txflags) =
              (if ext then let w = pcan_get_le32 buf pos
                           in (drop_bit PCAN_USB_EXT_ID_SHIFT w, ucast (w AND 7) :: u8)
               else let w = pcan_get_le16 buf pos
                    in (ucast (drop_bit PCAN_USB_STD_ID_SHIFT w), ucast (w AND 31) :: u8));
            pos = pos + id_bytes;
            srr = (txflags AND PCAN_USB_TX_SRR \<noteq> 0);
            ss = (txflags AND PCAN_USB_TX_AT \<noteq> 0);
            d = sat_dlc (sl AND PCAN_USB_STATUSLEN_DLC);
            data_bytes = (if rtr then 0 else unat d)
        in if pos + data_bytes > len then DecBad
        else
          let fl = tx_frame_flags ext rtr ss srr;
              dat = memcpy_at (replicate 8 0) 0 (take data_bytes (drop pos buf));
              pos = pos + data_bytes
          in if srr \<and> pos + 1 > len then DecBad
             else DecFrame \<lparr>fr_id = fid, fr_ts16 = 0, fr_dlc = d, fr_flags = fl, fr_data = dat,
                             fr_writer_id = writer_id\<rparr> (if srr then pos + 1 else pos))"

definition decode_tx_record :: "u8 list \<Rightarrow> nat \<Rightarrow> u8 \<Rightarrow> nat \<Rightarrow> dec_result" where
  "decode_tx_record buf len writer_id pos =
     (if pos \<ge> len then DecBad
      else let sl = buf ! pos; pos = pos + 1
           in if sl AND PCAN_USB_STATUSLEN_INTERNAL \<noteq> 0
              then let skip = 2 + unat (sl AND PCAN_USB_STATUSLEN_DLC)
                   in if pos + skip > len then DecBad else DecSkip (pos + skip)
              else decode_tx_data buf len writer_id sl pos)"

text \<open>The record loop; the first number is the count of records still announced by the header,
  \<open>out\<close> the frames decoded so far (\<open>count = length out\<close>).\<close>

fun decode_tx_loop ::
    "u8 list \<Rightarrow> nat \<Rightarrow> u8 \<Rightarrow> int \<Rightarrow> nat \<Rightarrow> nat \<Rightarrow> pcan_frame list \<Rightarrow> pcan_frame list option" where
  "decode_tx_loop buf len wid max_out 0 pos out = Some out"
| "decode_tx_loop buf len wid max_out (Suc k) pos out =
     (if int (length out) \<ge> max_out then Some out
      else case decode_tx_record buf len wid pos of
             DecBad \<Rightarrow> None
           | DecSkip pos' \<Rightarrow> decode_tx_loop buf len wid max_out k pos' out
           | DecFrame f pos' \<Rightarrow> decode_tx_loop buf len wid max_out k pos' (out @ [f]))"

text \<open>The result \<open>None\<close> is the return of \<open>-1\<close>; \<open>Some fs\<close> is the return of \<open>length fs\<close> with
  \<open>fs\<close> in \<open>out[0..]\<close>.\<close>

definition pcan_msg_decode_tx :: "u8 list \<Rightarrow> nat \<Rightarrow> int \<Rightarrow> pcan_frame list option" where
  "pcan_msg_decode_tx buf len max_out =
     (if max_out \<le> 0 then None
      else if len \<le> PCAN_USB_MSG_HEADER_LEN then None
      else
        let rec_cnt = buf ! 1;
            writer_id = (if len \<ge> PCAN_USB_TX_BUFFER_SIZE then buf ! (PCAN_USB_TX_BUFFER_SIZE - 1) else 0)
        in decode_tx_loop buf len writer_id max_out (unat rec_cnt) PCAN_USB_MSG_HEADER_LEN [])"

subsection \<open>The batch invariant\<close>

text \<open>Every record is at least three bytes long, so the count stays far below 256.\<close>

definition batch_ok :: "pcan_batch \<Rightarrow> bool" where
  "batch_ok b \<longleftrightarrow> length (b_buf b) = 64 \<and> 2 \<le> b_len b \<and> b_len b \<le> 64 \<and>
     b_buf b ! 0 = 2 \<and> b_buf b ! 1 = b_rec_cnt b \<and> 3 * unat (b_rec_cnt b) \<le> b_len b - 2"

definition batch_bytes :: "pcan_batch \<Rightarrow> u8 list" where
  "batch_bytes b = take (b_len b) (b_buf b)"

lemma sat_dlc_le [simp]: "unat (sat_dlc d) \<le> 8"
  by (simp add: sat_dlc_def word_less_nat_alt not_less)

lemma sat_dlc_low_nibble [simp]: "sat_dlc d AND 15 = sat_dlc d"
  by (rule low_nibble_id) (simp add: word_le_nat_alt le_trans [OF sat_dlc_le])

lemma frame_data_bytes_le [simp]: "frame_data_bytes f \<le> 8"
  by (simp add: frame_data_bytes_def)

lemma length_frame_id_bytes [simp]:
  "length (frame_id_bytes f) = (if fr_ext f then 4 else 2)"
  by (simp add: frame_id_bytes_def)

lemma reset_ok [intro]:
  "length (b_buf b) = 64 \<Longrightarrow> batch_ok (pcan_msg_batch_reset b)"
  by (simp add: batch_ok_def pcan_msg_batch_reset_def)

lemma reset_bytes [simp]:
  "length (b_buf b) = 64 \<Longrightarrow> batch_bytes (pcan_msg_batch_reset b) = [2, 0]"
  by (cases "b_buf b"; cases "tl (b_buf b)")
    (auto simp: batch_bytes_def pcan_msg_batch_reset_def numeral_2_eq_2)

lemma batch_commit_ok:
  assumes "batch_ok b" "b_len b + length out \<le> 64" "3 \<le> length out"
  shows "batch_ok (batch_commit b ts' out)"
proof -
  have "3 * (unat (b_rec_cnt b) + 1) \<le> b_len b - 2 + length out"
    using assms by (auto simp: batch_ok_def)
  moreover have "unat (b_rec_cnt b + 1) = unat (b_rec_cnt b) + 1"
    using assms by (auto simp: batch_ok_def unat_word_ariths)
  ultimately show ?thesis
    using assms by (auto simp: batch_ok_def batch_commit_def Let_def nth_memcpy_at)
qed

lemma batch_commit_bytes:
  assumes "batch_ok b" "b_len b + length out \<le> 64"
  shows "batch_bytes (batch_commit b ts' out) = (batch_bytes b)[1 := b_rec_cnt b + 1] @ out"
  using assms by (auto simp: batch_ok_def batch_bytes_def batch_commit_def Let_def list_update_append1)

lemma batch_commit_fields [simp]:
  "b_len (batch_commit b ts' out) = b_len b + length out"
  "b_rec_cnt (batch_commit b ts' out) = b_rec_cnt b + 1"
  "b_ts (batch_commit b ts' out) = ts'"
  by (simp_all add: batch_commit_def Let_def)

subsection \<open>What the encoders append\<close>

text \<open>The bytes of one record, by whether a timestamp already went into the batch.\<close>

definition ts_field :: "bool \<Rightarrow> u16 \<Rightarrow> u8 list" where
  "ts_field hf ts = (if hf then [ucast ts] else pcan_put_le16 ts)"

definition frame_record :: "bool \<Rightarrow> pcan_frame \<Rightarrow> u8 list" where
  "frame_record hf f = [frame_sl f] @ frame_id_bytes f @ ts_field hf (fr_ts16 f) @
     take (frame_data_bytes f) (fr_data f) @ (if fr_srr f \<and> \<not> fr_rtr f then [fr_writer_id f] else [])"

definition status_sl :: "u8 \<Rightarrow> bool \<Rightarrow> u8" where
  "status_sl payload_len with_ts = (payload_len AND PCAN_USB_STATUSLEN_DLC) OR
     PCAN_USB_STATUSLEN_INTERNAL OR (if with_ts then PCAN_USB_STATUSLEN_TIMESTAMP else 0)"

definition status_record :: "bool \<Rightarrow> u8 \<Rightarrow> u8 \<Rightarrow> u8 list \<Rightarrow> bool \<Rightarrow> u16 \<Rightarrow> u8 list" where
  "status_record hf func num payload with_ts ts =
     [status_sl (word_of_nat (length payload)) with_ts, func, num] @
     (if with_ts then ts_field hf ts else []) @ payload"

definition stamp :: "u16 \<Rightarrow> pcan_ts_batch \<Rightarrow> pcan_ts_batch" where
  "stamp ts t = t\<lparr>have_first := True, last_ts16 := ts\<rparr>"

lemma have_first_stamp [simp]: "have_first (stamp ts t)"
  by (simp add: stamp_def)

lemma length_ts_field [simp]: "length (ts_field hf ts) = (if hf then 1 else 2)"
  by (simp add: ts_field_def)

lemma append_is_stamp: "pcan_ts_append t ts = (stamp ts t, ts_field (have_first t) ts)"
  by (simp add: pcan_ts_append_simps stamp_def ts_field_def)

lemma length_take_data [simp]:
  "frame_ok f \<Longrightarrow> length (take (frame_data_bytes f) (fr_data f)) = frame_data_bytes f"
  by (simp add: frame_ok_def min_absorb2)

lemma length_frame_record:
  "frame_ok f \<Longrightarrow> length (frame_record (have_first (b_ts b)) f) = frame_record_size b f"
  by (simp add: frame_record_def frame_record_size_def pcan_msg_ts_width_def del: length_take)

lemma frame_record_bounds:
  "frame_ok f \<Longrightarrow> 4 \<le> length (frame_record hf f) \<and> length (frame_record hf f) \<le> 16"
  using frame_data_bytes_le [of f] by (simp add: frame_record_def del: length_take frame_data_bytes_le)

lemma length_status_record [simp]:
  "length (status_record hf func num payload with_ts ts) =
     3 + (if with_ts then if hf then 1 else 2 else 0) + length payload"
  by (simp add: status_record_def)

lemma add_frame_eq:
  assumes "frame_ok f"
  shows "pcan_msg_batch_add_frame b f =
    (if b_len b + length (frame_record (have_first (b_ts b)) f) \<le> 64
     then (True, batch_commit b (stamp (fr_ts16 f) (b_ts b)) (frame_record (have_first (b_ts b)) f))
     else (False, b))"
  unfolding pcan_msg_batch_add_frame_def length_frame_record [OF assms]
  by (auto simp: append_is_stamp frame_record_def)

lemma add_status_eq:
  assumes "length payload \<le> 15"
  shows "pcan_msg_batch_add_status b func num (Some payload) (word_of_nat (length payload)) with_ts ts =
    (if b_len b + length (status_record (have_first (b_ts b)) func num payload with_ts ts) \<le> 64
     then (True, batch_commit b (if with_ts then stamp ts (b_ts b) else b_ts b)
                   (status_record (have_first (b_ts b)) func num payload with_ts ts))
     else (False, b))"
proof -
  have u: "unat (word_of_nat (length payload) :: u8) = length payload"
    using assms by (simp add: unat_of_nat)
  have z: "word_of_nat (length payload) = (0 :: u8) \<longleftrightarrow> payload = []"
    unfolding word_unat_eq_iff u by simp
  have le: "\<not> word_of_nat (length payload) > (15 :: u8)"
    using assms by (simp add: word_less_nat_alt u)
  show ?thesis
    using le unfolding pcan_msg_batch_add_status_def
    by (simp add: u z append_is_stamp status_record_def status_sl_def pcan_msg_ts_width_def
        word_gt_0 Let_def)
qed

lemma add_status_None_eq:
  "pcan_msg_batch_add_status b func num None 0 with_ts ts =
    (if b_len b + length (status_record (have_first (b_ts b)) func num [] with_ts ts) \<le> 64
     then (True, batch_commit b (if with_ts then stamp ts (b_ts b) else b_ts b)
                   (status_record (have_first (b_ts b)) func num [] with_ts ts))
     else (False, b))"
  unfolding pcan_msg_batch_add_status_def
  by (auto simp: append_is_stamp status_record_def status_sl_def pcan_msg_ts_width_def Let_def)

subsection \<open>Progress of the decoder\<close>

definition wf_decoded :: "u8 \<Rightarrow> pcan_frame \<Rightarrow> bool" where
  "wf_decoded wid f \<longleftrightarrow> frame_ok f \<and> fr_dlc f \<le> 8 \<and> fr_ts16 f = 0 \<and> fr_writer_id f = wid \<and>
     fr_flags f \<le> 15 \<and> fr_id f < (if fr_ext f then 2 ^ 29 else 2 ^ 11)"

lemma std_id_bound: "ucast (drop_bit 5 (w :: u16)) < (2048 :: u32)"
proof -
  have "unat w div 32 < 2048" using unat_u16_less [of w] by (simp add: less_mult_imp_div_less)
  then show ?thesis
    by (simp add: word_less_nat_alt unat_ucast_up unat_div drop_bit_eq_div)
qed

lemma ext_id_bound: "drop_bit 3 (w :: u32) < 536870912"
  using unat_u32_less [of w]
  by (simp add: word_less_nat_alt unat_div drop_bit_eq_div less_mult_imp_div_less)

lemma tx_frame_flags_tests [simp]:
  "tx_frame_flags e r s q AND 1 = 0 \<longleftrightarrow> \<not> e" "tx_frame_flags e r s q AND 2 = 0 \<longleftrightarrow> \<not> r"
  "tx_frame_flags e r s q AND 4 = 0 \<longleftrightarrow> \<not> s" "tx_frame_flags e r s q AND 8 = 0 \<longleftrightarrow> \<not> q"
  "bit (tx_frame_flags e r s q) 0 = e" "bit (tx_frame_flags e r s q) (Suc 0) = r"
  "bit (tx_frame_flags e r s q) 2 = s" "bit (tx_frame_flags e r s q) 3 = q"
  "tx_frame_flags e r s q \<le> 15"
  by (cases e; cases r; cases s; cases q; simp add: tx_frame_flags_def)+

lemma sat_dlc_le_8 [simp]: "sat_dlc d \<le> 8"
  by (simp add: word_le_nat_alt)

lemma length_decoded_data [simp]:
  "length (memcpy_at (replicate 8 (0 :: u8)) 0 (take (unat (sat_dlc d)) xs)) = 8"
  by (subst length_memcpy_at) (auto simp: min_def intro: order_trans [OF _ sat_dlc_le])

lemma decode_tx_data_wf:
  "decode_tx_data buf len wid sl pos = DecFrame f pos' \<Longrightarrow>
   wf_decoded wid f \<and> pos + 2 \<le> pos' \<and> pos' \<le> len"
  by (auto simp: decode_tx_data_def Let_def wf_decoded_def frame_ok_def fr_ext_def
      std_id_bound ext_id_bound split: if_splits)

lemma decode_tx_record_frame:
  "decode_tx_record buf len wid pos = DecFrame f pos' \<Longrightarrow>
   wf_decoded wid f \<and> pos + 3 \<le> pos' \<and> pos' \<le> len"
  by (auto simp: decode_tx_record_def Let_def split: if_splits dest!: decode_tx_data_wf)

lemma decode_tx_record_skip:
  "decode_tx_record buf len wid pos = DecSkip pos' \<Longrightarrow> pos + 3 \<le> pos' \<and> pos' \<le> len"
  by (auto simp: decode_tx_record_def decode_tx_data_def Let_def split: if_splits)

lemma decode_tx_loop_wf:
  assumes "decode_tx_loop buf len wid max_out k pos out = Some fs"
    and "\<forall>f \<in> set out. wf_decoded wid f" and "pos \<le> len"
  shows "(\<forall>f \<in> set fs. wf_decoded wid f) \<and> 3 * length fs + pos \<le> 3 * length out + len \<and>
    (int (length out) \<le> max_out \<longrightarrow> int (length fs) \<le> max_out)"
  using assms
proof (induction k arbitrary: pos out)
  case 0
  then show ?case by simp
next
  case (Suc k)
  show ?case
  proof (cases "int (length out) \<ge> max_out")
    case True
    with Suc.prems show ?thesis by simp
  next
    case False
    show ?thesis
    proof (cases "decode_tx_record buf len wid pos")
      case DecBad
      with Suc.prems False show ?thesis by simp
    next
      case (DecSkip p)
      with Suc.prems False Suc.IH [of p out] decode_tx_record_skip [OF DecSkip]
      show ?thesis by simp
    next
      case (DecFrame f p)
      with Suc.prems False Suc.IH [of p "out @ [f]"] decode_tx_record_frame [OF DecFrame]
      show ?thesis by auto
    qed
  qed
qed

subsection \<open>Reads stay inside the transfer\<close>

lemma agree_nth:
  "take len a = take len b \<Longrightarrow> i < len \<Longrightarrow> a ! i = b ! i"
  by (metis nth_take)

lemma agree_slice:
  assumes "take len a = take len b" "i + n \<le> len"
  shows "take n (drop i a) = take n (drop i b)"
proof -
  have "take n (drop i xs) = take n (drop i (take len xs))" for xs :: "'a list"
    using assms(2) by (simp add: drop_take min_def)
  then show ?thesis using assms(1) by metis
qed

lemma agree_le16: "take len a = take len b \<Longrightarrow> i + 2 \<le> len \<Longrightarrow> pcan_get_le16 a i = pcan_get_le16 b i"
  by (simp add: pcan_get_le16_def agree_nth [of len a b])

lemma agree_le32: "take len a = take len b \<Longrightarrow> i + 4 \<le> len \<Longrightarrow> pcan_get_le32 a i = pcan_get_le32 b i"
  by (simp add: pcan_get_le32_def agree_nth [of len a b])

lemma decode_tx_record_agree:
  assumes "take len a = take len b"
  shows "decode_tx_record a len wid pos = decode_tx_record b len wid pos"
  using agree_nth [OF assms] agree_le16 [OF assms] agree_le32 [OF assms] agree_slice [OF assms]
  by (simp add: decode_tx_record_def decode_tx_data_def Let_def)

lemma decode_tx_loop_agree:
  assumes "take len a = take len b"
  shows "decode_tx_loop a len wid max_out k pos out = decode_tx_loop b len wid max_out k pos out"
  by (induction k arbitrary: pos out)
    (simp_all add: decode_tx_record_agree [OF assms] split: dec_result.split)

text \<open>A capacity above what the rest of the transfer can hold is never reached.\<close>

lemma decode_tx_loop_capacity:
  assumes "pos \<le> len" "3 * length out + len \<le> 62 + pos" "21 \<le> m1" "21 \<le> m2"
  shows "decode_tx_loop buf len wid m1 k pos out = decode_tx_loop buf len wid m2 k pos out"
  using assms
proof (induction k arbitrary: pos out)
  case 0
  then show ?case by simp
next
  case (Suc k)
  have room: "\<not> m1 \<le> int (length out)" "\<not> m2 \<le> int (length out)"
    using Suc.prems by simp_all
  show ?case
  proof (cases "decode_tx_record buf len wid pos")
    case DecBad
    with room show ?thesis by simp
  next
    case (DecSkip p)
    with room Suc.prems Suc.IH [of p out] decode_tx_record_skip [OF DecSkip]
    show ?thesis by simp
  next
    case (DecFrame f p)
    with room Suc.prems Suc.IH [of p "out @ [f]"] decode_tx_record_frame [OF DecFrame]
    show ?thesis by simp
  qed
qed

subsection \<open>Requests to the encoder\<close>

text \<open>The calls a client makes on a batch, as data.\<close>

datatype batch_req =
    ReqFrame pcan_frame
  | ReqStatus u8 u8 "u8 list option" u8 bool u16
  | ReqCalib u16
  | ReqError u8 u16

fun batch_request :: "pcan_batch \<Rightarrow> batch_req \<Rightarrow> bool \<times> pcan_batch" where
  "batch_request b (ReqFrame f) = pcan_msg_batch_add_frame b f"
| "batch_request b (ReqStatus func num payload n with_ts ts) =
     pcan_msg_batch_add_status b func num payload n with_ts ts"
| "batch_request b (ReqCalib ts) = pcan_msg_batch_add_calib_ts b ts"
| "batch_request b (ReqError emask ts) = pcan_msg_batch_add_error b emask ts"

text \<open>The contract of the caller: frames are eight-byte frames, a payload holds the length given.\<close>

fun req_ok :: "batch_req \<Rightarrow> bool" where
  "req_ok (ReqFrame f) = frame_ok f"
| "req_ok (ReqStatus func num payload n with_ts ts) =
     (case payload of None \<Rightarrow> True | Some p \<Rightarrow> unat n \<le> length p)"
| "req_ok _ = True"

lemma add_status_ok:
  assumes "batch_ok b" "case payload of None \<Rightarrow> True | Some p \<Rightarrow> unat n \<le> length p"
  shows "batch_ok (snd (pcan_msg_batch_add_status b func num payload n with_ts ts))"
  using assms unfolding pcan_msg_batch_add_status_def
  by (auto simp: append_is_stamp pcan_msg_ts_width_def Let_def word_gt_0 min_def
      intro!: batch_commit_ok split: option.splits)

lemma batch_request_ok: "batch_ok b \<Longrightarrow> req_ok r \<Longrightarrow> batch_ok (snd (batch_request b r))"
proof (cases r)
  case (ReqFrame f)
  assume "batch_ok b" "req_ok r"
  with ReqFrame frame_record_bounds [of f "have_first (b_ts b)"] show ?thesis
    by (auto simp: add_frame_eq intro!: batch_commit_ok)
qed (auto simp: pcan_msg_batch_add_calib_ts_def pcan_msg_batch_add_error_def intro!: add_status_ok)

lemma batch_request_refused: "\<not> fst (batch_request b r) \<Longrightarrow> snd (batch_request b r) = b"
  by (cases r) (auto simp: pcan_msg_batch_add_calib_ts_def pcan_msg_batch_add_error_def
      pcan_msg_batch_add_frame_def pcan_msg_batch_add_status_def Let_def split: prod.splits)

subsection \<open>Properties\<close>

text \<open>C30. Whatever requests are made of a freshly reset batch, accepted or refused, the buffer keeps
  its 64 bytes, the length stays between the header and 64, the header byte mirrors the record
  count and the count never wraps; and a refused request changes nothing.\<close>

theorem batch_requests_safe:
  assumes "length (b_buf b0) = 64" "\<forall>r \<in> set rs. req_ok r"
  shows "batch_ok (foldl (\<lambda>b r. snd (batch_request b r)) (pcan_msg_batch_reset b0) rs) \<and>
    (\<forall>b r. \<not> fst (batch_request b r) \<longrightarrow> snd (batch_request b r) = b)"
proof -
  have "batch_ok b \<Longrightarrow> batch_ok (foldl (\<lambda>b r. snd (batch_request b r)) b rs)" for b
    using assms(2) by (induction rs arbitrary: b) (auto simp: batch_request_ok)
  with reset_ok [OF assms(1)] batch_request_refused show ?thesis by blast
qed

text \<open>A concrete data frame and an encoder buffer for the witnesses.\<close>

definition demo_frame :: pcan_frame where
  "demo_frame = \<lparr>fr_id = 0x123, fr_ts16 = 0x10F0, fr_dlc = 2, fr_flags = 0,
     fr_data = [0xDE, 0xAD, 0, 0, 0, 0, 0, 0], fr_writer_id = 0\<rparr>"

definition zero_batch :: pcan_batch where
  "zero_batch = \<lparr>b_buf = replicate 64 0, b_len = 0, b_rec_cnt = 0,
     b_ts = \<lparr>have_first = False, last_ts16 = 0\<rparr>\<rparr>"

lemma demo_frame_ok [simp]: "frame_ok demo_frame"
  by (simp add: frame_ok_def demo_frame_def)

lemma length_zero_batch [simp]: "length (b_buf zero_batch) = 64"
  by (simp add: zero_batch_def)

theorem batch_requests_safe_witness:
  "batch_ok (foldl (\<lambda>b r. snd (batch_request b r)) (pcan_msg_batch_reset zero_batch)
     (replicate 9 (ReqFrame demo_frame)))"
  using batch_requests_safe [of zero_batch "replicate 9 (ReqFrame demo_frame)"] by simp

text \<open>A freshly reset batch accepts any CAN frame, any calibration record and any error record:
  after a flush the retried record always fits, so the ``cannot fit in an empty USB batch''
  branches of \<open>usb_tx_task\<close> are dead.\<close>

theorem empty_batch_accepts:
  assumes "length (b_buf b) = 64" "frame_ok f"
  shows "fst (pcan_msg_batch_add_frame (pcan_msg_batch_reset b) f) \<and>
    fst (pcan_msg_batch_add_calib_ts (pcan_msg_batch_reset b) ts) \<and>
    fst (pcan_msg_batch_add_error (pcan_msg_batch_reset b) emask ts)"
  using frame_record_bounds [OF assms(2), of "have_first (b_ts (pcan_msg_batch_reset b))"] assms
  by (simp add: add_frame_eq pcan_msg_batch_add_calib_ts_def pcan_msg_batch_add_error_def
      pcan_msg_batch_add_status_def pcan_msg_batch_reset_def pcan_msg_ts_width_def Let_def
      split: prod.split)

theorem empty_batch_accepts_witness:
  "fst (pcan_msg_batch_add_frame (pcan_msg_batch_reset zero_batch) demo_frame)"
  using empty_batch_accepts [of zero_batch demo_frame 0 0] by simp

text \<open>C29. Every frame decoded from a host transfer is well formed (eight data bytes, DLC at most 8, an
  identifier inside its 11- or 29-bit range, the batch tail as writer id only when the transfer
  carries one), there are at most \<open>max_out\<close> of them, and at least three bytes of the transfer
  were consumed for each.\<close>

theorem decode_tx_well_formed:
  assumes "pcan_msg_decode_tx buf len max_out = Some fs"
  shows "(\<forall>f \<in> set fs. wf_decoded (if len \<ge> 64 then buf ! 63 else 0) f) \<and>
    int (length fs) \<le> max_out \<and> 3 * length fs + 2 \<le> len"
  using assms decode_tx_loop_wf [of buf len "if len \<ge> 64 then buf ! 63 else 0" max_out
      "unat (buf ! 1)" 2 "[]" fs]
  by (auto simp: pcan_msg_decode_tx_def split: if_splits)

text \<open>A host transfer with one standard data frame of two bytes.\<close>

definition demo_transfer :: "u8 list" where
  "demo_transfer = [2, 1, 0x02, 0x60, 0x24, 0xDE, 0xAD]"

lemma decode_demo_transfer:
  "pcan_msg_decode_tx demo_transfer 7 32 =
     Some [\<lparr>fr_id = 0x123, fr_ts16 = 0, fr_dlc = 2, fr_flags = 0,
            fr_data = [0xDE, 0xAD, 0, 0, 0, 0, 0, 0], fr_writer_id = 0\<rparr>]"
  by code_simp

theorem decode_tx_well_formed_witness:
  "\<exists>fs. pcan_msg_decode_tx demo_transfer 7 32 = Some fs \<and> length fs = 1 \<and>
     (\<forall>f \<in> set fs. wf_decoded 0 f)"
  using decode_tx_well_formed [OF decode_demo_transfer] decode_demo_transfer by simp

text \<open>The decoder reads nothing outside the transfer: two buffers that agree on the first \<open>len\<close>
  bytes decode alike, whatever follows, truncated and malformed batches included.\<close>

theorem decode_tx_reads_only_transfer:
  assumes "take len a = take len b"
  shows "pcan_msg_decode_tx a len max_out = pcan_msg_decode_tx b len max_out"
proof -
  have "2 < len \<Longrightarrow> a ! 1 = b ! 1" "64 \<le> len \<Longrightarrow> a ! 63 = b ! 63"
    using agree_nth [OF assms] by simp_all
  then show ?thesis
    by (simp add: pcan_msg_decode_tx_def decode_tx_loop_agree [OF assms])
qed

theorem decode_tx_reads_only_transfer_witness:
  "pcan_msg_decode_tx (demo_transfer @ [1, 2, 3]) 7 32 = pcan_msg_decode_tx demo_transfer 7 32"
  by (rule decode_tx_reads_only_transfer) (simp add: demo_transfer_def)

text \<open>The 32 frames of room that \<open>usb_glue_handle_msg\<close> gives the decoder are never the limit: on
  a USB packet of at most 64 bytes the result is the one any capacity of at least 21 gives, so no
  host frame is cut off by the capacity.\<close>

theorem decode_capacity_never_binds:
  assumes "len \<le> 64" "21 \<le> m"
  shows "pcan_msg_decode_tx buf len 32 = pcan_msg_decode_tx buf len m"
  using assms decode_tx_loop_capacity [of 2 len "[]" 32 m buf]
  by (simp add: pcan_msg_decode_tx_def)

theorem decode_capacity_never_binds_witness:
  "pcan_msg_decode_tx demo_transfer 7 32 = pcan_msg_decode_tx demo_transfer 7 1000"
  by (rule decode_capacity_never_binds) simp_all

end
