(* ===== verification/Host_Codec.thy ===== *)
theory Host_Codec
  imports Pcan_Msg
begin

text \<open>
  The host's side of the EP2 codec, as the repository's tests transcribe it from the Linux
  driver (\<open>test/host/test_pcan_msg.c\<close>): the decoder of EP2-IN batches with its own timestamp
  reconstruction, and the encoder of EP2-OUT batches. The theorems compose the firmware's
  encoder with the host's decoder and the host's encoder with the firmware's decoder.

  A pointer into the batch is an offset; the return of \<open>-1\<close> is \<open>None\<close>, which drops the
  observations made before the error.
\<close>

subsection \<open>The host's receive decoder\<close>

definition HOST_MAX_REC :: nat where [simp]: "HOST_MAX_REC = 32"

record host_frame =
  hf_id :: u32
  hf_ext :: bool
  hf_rtr :: bool
  hf_len :: u8
  hf_data :: "u8 list"
  hf_ts16 :: u16

record host_mc =
  hm_frames :: "host_frame list"
  hm_calib :: "u16 list"
  hm_err :: "u8 list"
  hm_consumed :: nat
  hm_ts16 :: u16
  hm_prev_ts8 :: u8
  hm_ptr :: nat
  hm_end :: nat
  hm_rec_cnt :: u8
  hm_rec_idx :: u8
  hm_rec_ts_idx :: u8

text \<open>The guarded append of the observation arrays.\<close>

definition observe :: "'a list \<Rightarrow> 'a \<Rightarrow> 'a list" where
  "observe xs x = (if length xs < HOST_MAX_REC then xs @ [x] else xs)"

definition host_decode_ts :: "u8 list \<Rightarrow> host_mc \<Rightarrow> bool \<Rightarrow> host_mc option" where
  "host_decode_ts buf mc first_packet =
     (if first_packet
      then if hm_ptr mc + 2 > hm_end mc then None
           else let t = pcan_get_le16 buf (hm_ptr mc)
                in Some (mc\<lparr>hm_ts16 := t, hm_prev_ts8 := ucast (t AND 0x00FF), hm_ptr := hm_ptr mc + 2\<rparr>)
      else if hm_ptr mc + 1 > hm_end mc then None
           else let ts8 = buf ! hm_ptr mc;
                    t = (if ts8 < hm_prev_ts8 mc then hm_ts16 mc + 0x100 else hm_ts16 mc)
                in Some (mc\<lparr>hm_ts16 := (t AND 0xFF00) OR ucast ts8, hm_prev_ts8 := ts8,
                            hm_ptr := hm_ptr mc + 1\<rparr>))"

definition host_decode_status :: "u8 list \<Rightarrow> host_mc \<Rightarrow> u8 \<Rightarrow> host_mc option" where
  "host_decode_status buf mc sl =
     (let rec_len = sl AND PCAN_USB_STATUSLEN_DLC in
      if hm_ptr mc + 2 > hm_end mc then None
      else
        let f = buf ! hm_ptr mc; n = buf ! (hm_ptr mc + 1); mc = mc\<lparr>hm_ptr := hm_ptr mc + 2\<rparr> in
        case (if sl AND PCAN_USB_STATUSLEN_TIMESTAMP \<noteq> 0
              then case host_decode_ts buf mc (hm_rec_ts_idx mc = 0) of
                     None \<Rightarrow> None
                   | Some mc \<Rightarrow> Some (mc\<lparr>hm_rec_ts_idx := hm_rec_ts_idx mc + 1\<rparr>)
              else Some mc) of
          None \<Rightarrow> None
        | Some mc \<Rightarrow>
            case (if f = PCAN_USB_REC_ERROR then Some (mc\<lparr>hm_err := observe (hm_err mc) n\<rparr>, rec_len)
                  else if f = PCAN_USB_REC_ANALOG then Some (mc, 2)
                  else if f = PCAN_USB_REC_BUSLOAD then Some (mc, 1)
                  else if f = PCAN_USB_REC_TS
                  then if hm_ptr mc + 2 > hm_end mc then None
                       else let t = pcan_get_le16 buf (hm_ptr mc)
                            in Some (mc\<lparr>hm_ts16 := t, hm_calib := observe (hm_calib mc) t\<rparr>, rec_len)
                  else Some (mc, rec_len)) of
              None \<Rightarrow> None
            | Some (mc, rec_len) \<Rightarrow>
                if hm_ptr mc + unat rec_len > hm_end mc then None
                else Some (mc\<lparr>hm_ptr := hm_ptr mc + unat rec_len\<rparr>))"

definition host_decode_data :: "u8 list \<Rightarrow> host_mc \<Rightarrow> u8 \<Rightarrow> host_mc option" where
  "host_decode_data buf mc sl =
     (let rec_len = sl AND PCAN_USB_STATUSLEN_DLC;
          ext = (sl AND PCAN_USB_STATUSLEN_EXT_ID \<noteq> 0);
          id_bytes = (if ext then 4 else 2) in
      if hm_ptr mc + id_bytes > hm_end mc then None
      else
        let can_id_flags = (if ext then pcan_get_le32 buf (hm_ptr mc)
                            else ucast (pcan_get_le16 buf (hm_ptr mc)));
            fid = (if ext then drop_bit 3 can_id_flags else drop_bit 5 can_id_flags);
            mc = mc\<lparr>hm_ptr := hm_ptr mc + id_bytes\<rparr>;
            flen = (if rec_len > 8 then 8 else rec_len) in
        case host_decode_ts buf mc (hm_rec_ts_idx mc = 0) of
          None \<Rightarrow> None
        | Some mc \<Rightarrow>
            let mc = mc\<lparr>hm_rec_ts_idx := hm_rec_ts_idx mc + 1\<rparr>;
                rtr = (sl AND PCAN_USB_STATUSLEN_RTR \<noteq> 0) in
            if \<not> rtr \<and> hm_ptr mc + unat rec_len > hm_end mc then None
            else
              let dat = (if rtr then replicate 8 0
                         else memcpy_at (replicate 8 0) 0 (take (unat flen) (drop (hm_ptr mc) buf)));
                  ptr' = (if rtr then hm_ptr mc
                          else hm_ptr mc + unat rec_len + (if can_id_flags AND 1 \<noteq> 0 then 1 else 0));
                  f = \<lparr>hf_id = fid, hf_ext = ext, hf_rtr = rtr, hf_len = flen, hf_data = dat,
                       hf_ts16 = hm_ts16 mc\<rparr>
              in Some (mc\<lparr>hm_ptr := ptr', hm_frames := observe (hm_frames mc) f\<rparr>))"

text \<open>The record loop of \<open>host_decode_batch\<close>; the number is the count of records left.\<close>

fun host_decode_loop :: "u8 list \<Rightarrow> nat \<Rightarrow> host_mc \<Rightarrow> host_mc option" where
  "host_decode_loop buf 0 mc = Some mc"
| "host_decode_loop buf (Suc k) mc =
     (if hm_ptr mc \<ge> hm_end mc then None
      else let sl = buf ! hm_ptr mc; mc = mc\<lparr>hm_ptr := hm_ptr mc + 1\<rparr>
           in case (if sl AND PCAN_USB_STATUSLEN_INTERNAL \<noteq> 0 then host_decode_status buf mc sl
                    else host_decode_data buf mc sl) of
                None \<Rightarrow> None
              | Some mc \<Rightarrow> host_decode_loop buf k (mc\<lparr>hm_rec_idx := hm_rec_idx mc + 1\<rparr>))"

definition host_mc_init :: "u8 \<Rightarrow> nat \<Rightarrow> host_mc" where
  "host_mc_init cnt len =
     \<lparr>hm_frames = [], hm_calib = [], hm_err = [], hm_consumed = 0, hm_ts16 = 0, hm_prev_ts8 = 0,
      hm_ptr = PCAN_USB_MSG_HEADER_LEN, hm_end = len, hm_rec_cnt = cnt, hm_rec_idx = 0,
      hm_rec_ts_idx = 0\<rparr>"

definition host_decode_batch :: "u8 list \<Rightarrow> nat \<Rightarrow> host_mc option" where
  "host_decode_batch buf len =
     (if len \<le> PCAN_USB_MSG_HEADER_LEN then None
      else case host_decode_loop buf (unat (buf ! 1)) (host_mc_init (buf ! 1) len) of
             None \<Rightarrow> None
           | Some mc \<Rightarrow> Some (mc\<lparr>hm_consumed := hm_ptr mc\<rparr>))"

subsection \<open>The host's transmit encoder\<close>

record txrec =
  tx_id :: u32
  tx_ext :: bool
  tx_rtr :: bool
  tx_srr :: bool
  tx_at :: bool
  tx_raw_dlc :: u8
  tx_data :: "u8 list"
  tx_data_len :: u8

definition txrec_id_flags :: "txrec \<Rightarrow> u32" where
  "txrec_id_flags r =
     (if tx_ext r then push_bit PCAN_USB_EXT_ID_SHIFT (tx_id r)
      else push_bit PCAN_USB_STD_ID_SHIFT (tx_id r)) OR
     (if tx_srr r then ucast PCAN_USB_TX_SRR else 0) OR (if tx_at r then ucast PCAN_USB_TX_AT else 0)"

definition txrec_bytes :: "txrec \<Rightarrow> u8 list" where
  "txrec_bytes r =
     (let sl = (tx_raw_dlc r AND PCAN_USB_STATUSLEN_DLC) OR
                 (if tx_rtr r then PCAN_USB_STATUSLEN_RTR else 0) OR
                 (if tx_ext r then PCAN_USB_STATUSLEN_EXT_ID else 0);
          id_flags = txrec_id_flags r
      in [sl] @ (if tx_ext r then pcan_put_le32 id_flags else pcan_put_le16 (ucast id_flags)) @
         (if tx_rtr r then [] else take (unat (tx_data_len r)) (tx_data r)) @
         (if id_flags AND 1 \<noteq> 0 then [0x80] else []))"

text \<open>The 64-byte transfer: header, records, zero fill, rolling counter in the last byte.\<close>

definition host_encode_tx :: "txrec list \<Rightarrow> u8 \<Rightarrow> u8 list" where
  "host_encode_tx recs tx_counter =
     (memcpy_at ((replicate 64 0)[0 := PCAN_USB_MSG_TX_CAN, 1 := word_of_nat (length recs)])
        PCAN_USB_MSG_HEADER_LEN (concat (map txrec_bytes recs)))[63 := tx_counter]"

subsection \<open>Bit fields survive the wire\<close>

lemma bit_mask_int:
  "bit (0x7FF :: int) n \<longleftrightarrow> n < 11" "bit (0x1FFFFFFF :: int) n \<longleftrightarrow> n < 29"
  "bit (0xFF00 :: int) n \<longleftrightarrow> 8 \<le> n \<and> n < 16" "bit (0xFFE0 :: int) n \<longleftrightarrow> 5 \<le> n \<and> n < 16"
proof -
  have m: "(0x7FF :: int) = mask 11" "(0x1FFFFFFF :: int) = mask 29"
    "(0xFF00 :: int) = push_bit 8 (mask 8)" "(0xFFE0 :: int) = push_bit 5 (mask 11)"
    by (simp_all add: mask_eq_exp_minus_1)
  show "bit (0x7FF :: int) n \<longleftrightarrow> n < 11" "bit (0x1FFFFFFF :: int) n \<longleftrightarrow> n < 29"
    "bit (0xFF00 :: int) n \<longleftrightarrow> 8 \<le> n \<and> n < 16" "bit (0xFFE0 :: int) n \<longleftrightarrow> 5 \<le> n \<and> n < 16"
    unfolding m by (auto simp: bit_simps simp del: mask_numeral)
qed

lemma bit_frame_txflags:
  "bit (frame_txflags f) n \<longleftrightarrow> n = 0 \<and> fr_srr f \<or> n = 1 \<and> fr_ss f"
  by (auto simp: frame_txflags_def bit_simps bit_1_iff bit_2_iff bit_double_iff
      simp flip: numeral_2_eq_2)

lemma frame_sl_fields [wire]:
  "frame_sl f AND 15 = sat_dlc (fr_dlc f)" "\<not> bit (frame_sl f) 6" "bit (frame_sl f) 7"
  "bit (frame_sl f) 5 = fr_ext f" "bit (frame_sl f) 4 = fr_rtr f"
proof -
  have d: "\<not> bit (sat_dlc (fr_dlc f)) n" if "4 \<le> n" for n
  proof -
    have "bit (sat_dlc (fr_dlc f)) n \<longleftrightarrow> bit (sat_dlc (fr_dlc f) AND 15) n" by simp
    also have "15 = (mask 4 :: u8)" by (simp add: mask_eq_exp_minus_1)
    finally show ?thesis using that by (simp add: bit_simps del: mask_numeral)
  qed
  show "\<not> bit (frame_sl f) 6" "bit (frame_sl f) 7"
    "bit (frame_sl f) 5 = fr_ext f" "bit (frame_sl f) 4 = fr_rtr f"
    by (simp_all add: frame_sl_def bit_simps d)
  show "frame_sl f AND 15 = sat_dlc (fr_dlc f)"
    by (simp add: frame_sl_def bit.conj_disj_distrib2 and.assoc)
qed

lemma ext_word_fields:
  assumes "w = push_bit 3 (i AND 0x1FFFFFFF) OR (ucast (frame_txflags f) :: u32)"
  shows "drop_bit 3 w = i AND 0x1FFFFFFF" "w AND 1 \<noteq> 0 \<longleftrightarrow> fr_srr f"
proof -
  show "drop_bit 3 w = i AND 0x1FFFFFFF"
    unfolding assms
    by (rule bit_word_eqI) (auto simp: bit_simps bit_mask_int bit_frame_txflags)
  show "w AND 1 \<noteq> 0 \<longleftrightarrow> fr_srr f"
    unfolding assms and_exp_eq_0_iff_not_bit [of _ 0, simplified]
    by (simp add: bit_simps bit_frame_txflags)
qed

lemma std_word_fields:
  assumes "w = ucast (ucast (push_bit 5 (i AND 0x7FF) OR (ucast (frame_txflags f) :: u32)) :: u16)"
  shows "drop_bit 5 (w :: u32) = i AND 0x7FF" "w AND 1 \<noteq> 0 \<longleftrightarrow> fr_srr f"
proof -
  show "drop_bit 5 w = i AND 0x7FF"
    unfolding assms
    by (rule bit_word_eqI) (auto simp: bit_simps bit_mask_int bit_frame_txflags)
  show "w AND 1 \<noteq> 0 \<longleftrightarrow> fr_srr f"
    unfolding assms and_exp_eq_0_iff_not_bit [of _ 0, simplified]
    by (simp add: bit_simps bit_frame_txflags)
qed

subsection \<open>Reconstruction of the tick\<close>

text \<open>The tick the host reconstructs from the running values \<open>t\<close> (\<open>ts16\<close>) and \<open>p\<close> (\<open>prev_ts8\<close>).\<close>

definition host_ts :: "bool \<Rightarrow> u16 \<Rightarrow> u8 \<Rightarrow> u16 \<Rightarrow> u16" where
  "host_ts hf t p ts =
     (if hf then ((if ucast ts < p then t + 0x100 else t) AND 0xFF00) OR ucast (ucast ts :: u8)
      else ts)"

lemma high_byte_join:
  assumes "drop_bit 8 x = drop_bit 8 (ts :: u16)"
  shows "(x AND 0xFF00) OR ucast (ucast ts :: u8) = ts"
proof (rule bit_word_eqI)
  fix n assume n: "n < LENGTH(16)"
  have "bit x n = bit ts n" if "8 \<le> n"
    using arg_cong [OF assms, of "\<lambda>w. bit w (n - 8)"] that by (simp add: bit_simps)
  then show "bit ((x AND 0xFF00) OR ucast (ucast ts :: u8)) n = bit ts n"
    using n by (auto simp: bit_simps bit_mask_int not_less)
qed

lemma carry_arith:
  fixes a d :: nat
  assumes "a < 65536" "d < 256" "s = (a + d) mod 65536"
  shows "(if s mod 256 < a mod 256 then (a + 256) mod 65536 else a) div 256 = s div 256"
proof -
  define h l where "h = a div 256" and "l = a mod 256"
  then have a: "a = 256 * h + l" and l: "l < 256" and h: "h < 256"
    using assms(1) by (simp_all add: less_mult_imp_div_less)
  have am: "a mod 256 = l" by (simp add: l_def)
  show ?thesis
  proof (cases "l + d < 256")
    case True
    then have "s = 256 * h + (l + d)" using assms a h by simp
    with True a l show ?thesis by simp
  next
    case False
    define e where "e = l + d - 256"
    with False have e: "l + d = 256 + e" "e < l" using assms(2) l by simp_all
    then have s: "s = (256 * (h + 1) + e) mod 65536" using assms a by (simp add: add.assoc add.left_commute)
    show ?thesis
    proof (cases "h = 255")
      case True
      with s e l a am show ?thesis by simp
    next
      case False
      define g where "g = h + 1"
      with h False have g: "g < 256" by simp
      then have "s = 256 * g + e" "a + 256 = 256 * g + l"
        using s e l a by (simp_all add: g_def)
      with g e l am show ?thesis by simp
    qed
  qed
qed

lemma late_arith:
  fixes a s :: nat
  assumes "a < 65536" "s < 65536"
    and "(if s mod 256 < a mod 256 then (a + 256) mod 65536 else a) div 256 = s div 256"
    and "(if a \<le> s then s - a else s + 65536 - a) < 32768"
  shows "(if a \<le> s then s - a else s + 65536 - a) < 256"
proof -
  define h l g m where "h = a div 256" and "l = a mod 256" and "g = s div 256" and "m = s mod 256"
  then have v: "a = 256 * h + l" "l < 256" "h < 256" "s = 256 * g + m" "m < 256" "g < 256"
    using assms(1,2) by (simp_all add: less_mult_imp_div_less)
  have mods: "a mod 256 = l" "s mod 256 = m" "s div 256 = g" "a div 256 = h"
    by (simp_all add: h_def l_def g_def m_def)
  show ?thesis
  proof (cases "m < l")
    case False
    then have "h = g" using assms(3) by (simp add: mods)
    with False v show ?thesis by simp
  next
    case True
    show ?thesis
    proof (cases "h = 255")
      case True
      then have "(a + 256) mod 65536 = l" using v by simp
      then have "g = 0" using assms(3) \<open>m < l\<close> v(2) by (simp only: mods if_True div_less)
      with True \<open>m < l\<close> v show ?thesis by simp
    next
      case False
      then have "a + 256 < 65536" using v by simp
      then have "(a + 256) mod 65536 = a + 256" by simp
      moreover have "(a + 256) div 256 = h + 1" by (simp add: h_def)
      ultimately have "h + 1 = g" using assms(3) True by (simp add: mods)
      with True v show ?thesis by simp
    qed
  qed
qed

lemma unat_high_byte: "unat (drop_bit 8 (w :: u16)) = unat w div 256"
  by (simp add: unat_div drop_bit_eq_div)

lemma host_ts_exact:
  assumes "ts - t < 256"
  shows "host_ts True t (ucast t) ts = ts"
proof -
  define d where "d = unat (ts - t)"
  have d: "d < 256" using assms by (simp add: d_def word_less_nat_alt)
  have ts: "unat ts = (unat t + d) mod 65536"
    using unat_word_ariths(1) [of t "ts - t"] by (simp add: d_def)
  have lo: "(ucast ts :: u8) < ucast t \<longleftrightarrow> unat ts mod 256 < unat t mod 256"
    by (simp add: word_less_nat_alt unsigned_ucast_eq take_bit_eq_mod)
  let ?x = "if (ucast ts :: u8) < ucast t then t + 0x100 else t"
  have "unat ?x div 256 = unat ts div 256"
    using carry_arith [OF unat_u16_less d ts] by (simp add: lo unat_word_ariths split: if_splits)
  then have "drop_bit 8 ?x = drop_bit 8 ts"
    by (simp only: word_unat_eq_iff unat_high_byte)
  then show ?thesis
    unfolding host_ts_def by (simp add: high_byte_join)
qed

subsection \<open>One record read by the host\<close>

text \<open>What the firmware packs in the ordinary course: frames and error records, all timestamped.\<close>

datatype rx_item = RxFrame pcan_frame | RxError u8 u16

fun item_ts :: "rx_item \<Rightarrow> u16" where
  "item_ts (RxFrame f) = fr_ts16 f"
| "item_ts (RxError m ts) = ts"

fun item_ok :: "rx_item \<Rightarrow> bool" where
  "item_ok (RxFrame f) = frame_ok f"
| "item_ok (RxError m ts) = True"

fun item_req :: "rx_item \<Rightarrow> batch_req" where
  "item_req (RxFrame f) = ReqFrame f"
| "item_req (RxError m ts) = ReqError m ts"

fun item_bytes :: "bool \<Rightarrow> rx_item \<Rightarrow> u8 list" where
  "item_bytes hf (RxFrame f) = frame_record hf f"
| "item_bytes hf (RxError m ts) = status_record hf PCAN_USB_REC_ERROR m [] True ts"

text \<open>What the host should see of a frame: the identifier cut to its width, the saturated DLC, the
  data bytes it carries and the device tick.\<close>

definition host_view :: "u16 \<Rightarrow> pcan_frame \<Rightarrow> host_frame" where
  "host_view t f =
     \<lparr>hf_id = (if fr_ext f then fr_id f AND 0x1FFFFFFF else fr_id f AND 0x7FF), hf_ext = fr_ext f,
      hf_rtr = fr_rtr f, hf_len = sat_dlc (fr_dlc f),
      hf_data = memcpy_at (replicate 8 0) 0 (take (frame_data_bytes f) (fr_data f)), hf_ts16 = t\<rparr>"

text \<open>The effect of one record on the host's state.\<close>

definition host_stamp :: "rx_item \<Rightarrow> host_mc \<Rightarrow> host_mc" where
  "host_stamp it mc =
     mc\<lparr>hm_ts16 := host_ts (hm_rec_ts_idx mc \<noteq> 0) (hm_ts16 mc) (hm_prev_ts8 mc) (item_ts it),
        hm_prev_ts8 := ucast (item_ts it), hm_rec_ts_idx := hm_rec_ts_idx mc + 1,
        hm_ptr := hm_ptr mc + length (item_bytes (hm_rec_ts_idx mc \<noteq> 0) it)\<rparr>"

fun host_absorb :: "rx_item \<Rightarrow> host_mc \<Rightarrow> host_mc" where
  "host_absorb (RxFrame f) mc =
     (let mc = host_stamp (RxFrame f) mc
      in mc\<lparr>hm_frames := observe (hm_frames mc) (host_view (hm_ts16 mc) f),
            hm_rec_idx := hm_rec_idx mc + 1\<rparr>)"
| "host_absorb (RxError m ts) mc =
     (let mc = host_stamp (RxError m ts) mc
      in mc\<lparr>hm_err := observe (hm_err mc) m, hm_rec_idx := hm_rec_idx mc + 1\<rparr>)"

lemma host_decode_ts_read:
  assumes "buf = pre @ ts_field hf ts @ post" "hm_ptr mc = length pre"
    and "length pre + length (ts_field hf ts) \<le> hm_end mc"
  shows "host_decode_ts buf mc (\<not> hf) =
    Some (mc\<lparr>hm_ts16 := host_ts hf (hm_ts16 mc) (hm_prev_ts8 mc) ts, hm_prev_ts8 := ucast ts,
             hm_ptr := hm_ptr mc + length (ts_field hf ts)\<rparr>)"
proof -
  have m: "(ucast (t AND 0x00FF) :: u8) = ucast t" for t :: u16 by simp
  show ?thesis
  proof (cases hf)
    case True
    with assms show ?thesis
      by (simp add: host_decode_ts_def ts_field_def host_ts_def Let_def)
  next
    case False
    with assms show ?thesis
      by (simp add: host_decode_ts_def ts_field_def host_ts_def Let_def)
  qed
qed

text \<open>The identifier word read back: identifier, and the self-reception flag in bit 0.\<close>

lemma frame_id_read:
  assumes "buf = pre @ frame_id_bytes f @ post" "p = length pre"
  defines "w \<equiv> (if fr_ext f then pcan_get_le32 buf p else ucast (pcan_get_le16 buf p)) :: u32"
  shows "(if fr_ext f then drop_bit 3 w else drop_bit 5 w) =
      (if fr_ext f then fr_id f AND 0x1FFFFFFF else fr_id f AND 0x7FF)"
    and "w AND 1 \<noteq> 0 \<longleftrightarrow> fr_srr f"
proof -
  show "(if fr_ext f then drop_bit 3 w else drop_bit 5 w) =
      (if fr_ext f then fr_id f AND 0x1FFFFFFF else fr_id f AND 0x7FF)"
    using ext_word_fields(1) [of w "fr_id f" f] std_word_fields(1) [of w "fr_id f" f]
    by (simp add: w_def assms(1,2) frame_id_bytes_def)
  show "w AND 1 \<noteq> 0 \<longleftrightarrow> fr_srr f"
    using ext_word_fields(2) [of w "fr_id f" f] std_word_fields(2) [of w "fr_id f" f]
    by (cases "fr_ext f") (simp_all only: w_def assms(1,2) frame_id_bytes_def if_True if_False
        get_put_le16 get_put_le32 PCAN_USB_EXT_ID_SHIFT_def PCAN_USB_STD_ID_SHIFT_def)
qed

text \<open>The data decoder step by step, with its tests and reads named.\<close>

lemma host_decode_data_steps:
  assumes "(sl AND PCAN_USB_STATUSLEN_EXT_ID \<noteq> 0) = ext" "(sl AND PCAN_USB_STATUSLEN_RTR \<noteq> 0) = rtr"
    and "sl AND PCAN_USB_STATUSLEN_DLC = n" "\<not> 8 < n"
    and "\<not> hm_end mc < hm_ptr mc + (if ext then 4 else 2)"
    and "w = (if ext then pcan_get_le32 buf (hm_ptr mc) else ucast (pcan_get_le16 buf (hm_ptr mc)))"
    and "host_decode_ts buf (mc\<lparr>hm_ptr := hm_ptr mc + (if ext then 4 else 2)\<rparr>)
      (hm_rec_ts_idx mc = 0) = Some mc1"
    and "\<not> (\<not> rtr \<and> hm_ptr mc1 + unat n > hm_end mc1)"
  shows "host_decode_data buf mc sl =
    Some (mc1\<lparr>hm_rec_ts_idx := hm_rec_ts_idx mc1 + 1,
      hm_ptr := (if rtr then hm_ptr mc1
                 else hm_ptr mc1 + unat n + (if w AND 1 \<noteq> 0 then 1 else 0)),
      hm_frames := observe (hm_frames mc1)
        \<lparr>hf_id = (if ext then drop_bit 3 w else drop_bit 5 w), hf_ext = ext, hf_rtr = rtr,
         hf_len = n, hf_data = (if rtr then replicate 8 0
           else memcpy_at (replicate 8 0) 0 (take (unat n) (drop (hm_ptr mc1) buf))),
         hf_ts16 = hm_ts16 mc1\<rparr>\<rparr>)"
  unfolding host_decode_data_def Let_def assms(1,2,3) assms(6) [symmetric]
  using assms(4,5,7,8) by (cases rtr) (simp_all split del: if_split)

lemma host_decode_data_frame:
  assumes buf: "buf = pre @ frame_id_bytes f @ ts_field hf (fr_ts16 f) @
      take (frame_data_bytes f) (fr_data f) @
      (if fr_srr f \<and> \<not> fr_rtr f then [fr_writer_id f] else []) @ post"
    and ptr: "hm_ptr mc = length pre" and idx: "hm_rec_ts_idx mc \<noteq> 0 \<longleftrightarrow> hf"
    and fin: "length pre + length (frame_record hf f) \<le> hm_end mc + 1" and ok: "frame_ok f"
  defines "T \<equiv> host_ts hf (hm_ts16 mc) (hm_prev_ts8 mc) (fr_ts16 f)"
  shows "host_decode_data buf mc (frame_sl f) =
    Some (mc\<lparr>hm_ts16 := T, hm_prev_ts8 := ucast (fr_ts16 f), hm_rec_ts_idx := hm_rec_ts_idx mc + 1,
             hm_ptr := length pre + (length (frame_record hf f) - 1),
             hm_frames := observe (hm_frames mc) (host_view T f)\<rparr>)"
proof -
  let ?ib = "if fr_ext f then 4 else 2 :: nat"
  let ?srr = "if fr_srr f \<and> \<not> fr_rtr f then [fr_writer_id f] else []"
  let ?mc = "mc\<lparr>hm_ptr := hm_ptr mc + ?ib\<rparr>"
  define w where "w = (if fr_ext f then pcan_get_le32 buf (hm_ptr mc)
    else ucast (pcan_get_le16 buf (hm_ptr mc)))"
  define mc1 where "mc1 = ?mc\<lparr>hm_ts16 := T, hm_prev_ts8 := ucast (fr_ts16 f),
      hm_ptr := hm_ptr ?mc + length (ts_field hf (fr_ts16 f))\<rparr>"
  have len: "length (frame_record hf f) =
      1 + ?ib + (if hf then 1 else 2) + frame_data_bytes f + length ?srr"
    using ok by (simp add: frame_record_def del: length_take)
  have ts: "host_decode_ts buf ?mc (hm_rec_ts_idx mc = 0) = Some mc1"
  proof -
    have i0: "(hm_rec_ts_idx mc = 0) = (\<not> hf)" using idx by blast
    let ?post = "take (frame_data_bytes f) (fr_data f) @ ?srr @ post"
    have "host_decode_ts buf ?mc (\<not> hf) = Some mc1"
      unfolding T_def mc1_def
      using host_decode_ts_read [of buf "pre @ frame_id_bytes f" hf "fr_ts16 f" ?post ?mc] fin ptr
      by (simp add: buf len split del: if_split)
    then show ?thesis by (simp only: i0)
  qed
  have mc1: "hm_ptr mc1 = length pre + ?ib + (if hf then 1 else 2)" "hm_end mc1 = hm_end mc"
    by (simp_all add: mc1_def ptr)
  have nb: "\<not> fr_rtr f \<Longrightarrow> unat (sat_dlc (fr_dlc f)) = frame_data_bytes f"
    by (simp add: frame_data_bytes_def)
  have fd: "frame_data_bytes f \<le> length (fr_data f)" using ok by (simp add: frame_ok_def)
  have dat: "take (frame_data_bytes f) (drop (hm_ptr mc1) buf) = take (frame_data_bytes f) (fr_data f)"
    using fd by (simp add: mc1 buf min_absorb2)
  have room: "\<not> hm_end mc < hm_ptr mc + ?ib"
    "\<not> (\<not> fr_rtr f \<and> hm_ptr mc1 + unat (sat_dlc (fr_dlc f)) > hm_end mc1)"
    using fin ptr by (auto simp: len nb mc1 split: if_splits)
  have n8: "\<not> 8 < sat_dlc (fr_dlc f)" by (simp add: not_less)
  have bits: "(frame_sl f AND PCAN_USB_STATUSLEN_EXT_ID \<noteq> 0) = fr_ext f"
    "(frame_sl f AND PCAN_USB_STATUSLEN_RTR \<noteq> 0) = fr_rtr f"
    "frame_sl f AND PCAN_USB_STATUSLEN_DLC = sat_dlc (fr_dlc f)"
    by (simp_all add: frame_sl_fields)
  note st = host_decode_data_steps [OF bits n8 room(1) w_def ts room(2)]
  have rest: "hm_rec_ts_idx mc1 = hm_rec_ts_idx mc" "hm_frames mc1 = hm_frames mc" "hm_ts16 mc1 = T"
    by (simp_all add: mc1_def)
  note idr = frame_id_read [OF buf ptr, folded w_def]
  show ?thesis
  proof (cases "fr_rtr f")
    case True
    show ?thesis
      unfolding st rest idr len
      using True by (simp add: mc1_def ptr host_view_def frame_data_bytes_def)
  next
    case False
    show ?thesis
      unfolding st rest idr len
      using False dat by (simp add: mc1 nb) (simp add: mc1_def host_view_def nb ptr)
  qed
qed

text \<open>An error record.\<close>

lemma host_decode_status_error:
  assumes buf: "buf = pre @ [PCAN_USB_REC_ERROR, m] @ ts_field hf ts @ post"
    and ptr: "hm_ptr mc = length pre" and idx: "hm_rec_ts_idx mc \<noteq> 0 \<longleftrightarrow> hf"
    and fin: "length pre + 2 + length (ts_field hf ts) \<le> hm_end mc"
  defines "T \<equiv> host_ts hf (hm_ts16 mc) (hm_prev_ts8 mc) ts"
  shows "host_decode_status buf mc (status_sl 0 True) =
    Some (mc\<lparr>hm_ts16 := T, hm_prev_ts8 := ucast ts, hm_rec_ts_idx := hm_rec_ts_idx mc + 1,
             hm_ptr := length pre + 2 + length (ts_field hf ts), hm_err := observe (hm_err mc) m\<rparr>)"
proof -
  let ?mc = "mc\<lparr>hm_ptr := hm_ptr mc + 2\<rparr>"
  have i0: "(hm_rec_ts_idx mc = 0) = (\<not> hf)" using idx by blast
  have ts: "host_decode_ts buf ?mc (\<not> hf) = Some (?mc\<lparr>hm_ts16 := T, hm_prev_ts8 := ucast ts,
      hm_ptr := hm_ptr ?mc + length (ts_field hf ts)\<rparr>)"
    unfolding T_def
    using host_decode_ts_read [of buf "pre @ [PCAN_USB_REC_ERROR, m]" hf ts post ?mc] fin ptr
    by (simp add: buf split del: if_split)
  have at: "buf ! length pre = 1" "buf ! Suc (length pre) = m"
    by (simp_all add: buf nth_append)
  show ?thesis
    using ts at fin ptr
    by (simp add: host_decode_status_def status_sl_def Let_def i0 split del: if_split)
qed

text \<open>The record loop absorbs the records one after the other.\<close>

fun items_bytes :: "bool \<Rightarrow> rx_item list \<Rightarrow> u8 list" where
  "items_bytes hf [] = []"
| "items_bytes hf (it # its) = item_bytes hf it @ items_bytes True its"

definition host_record :: "u8 list \<Rightarrow> host_mc \<Rightarrow> host_mc option" where
  "host_record buf mc =
     (let sl = buf ! hm_ptr mc; mc = mc\<lparr>hm_ptr := hm_ptr mc + 1\<rparr>
      in if sl AND PCAN_USB_STATUSLEN_INTERNAL \<noteq> 0 then host_decode_status buf mc sl
         else host_decode_data buf mc sl)"

lemma host_decode_loop_Suc:
  "hm_ptr mc < hm_end mc \<Longrightarrow> host_decode_loop buf (Suc k) mc =
    (case host_record buf mc of None \<Rightarrow> None
     | Some mc \<Rightarrow> host_decode_loop buf k (mc\<lparr>hm_rec_idx := hm_rec_idx mc + 1\<rparr>))"
  by (simp add: host_record_def Let_def)

lemma status_sl_error [simp]: "bit (status_sl 0 True) 6"
  by (simp add: status_sl_def)

lemma host_record_item:
  assumes buf: "buf = pre @ item_bytes hf it @ post" and ptr: "hm_ptr mc = length pre"
    and idx: "hm_rec_ts_idx mc \<noteq> 0 \<longleftrightarrow> hf" and ok: "item_ok it"
    and fin: "length pre + length (item_bytes hf it) \<le> hm_end mc"
  shows "\<exists>mc'. host_record buf mc = Some mc' \<and>
    mc'\<lparr>hm_rec_idx := hm_rec_idx mc' + 1\<rparr> = host_absorb it mc"
proof (cases it)
  case (RxFrame f)
  let ?mc = "mc\<lparr>hm_ptr := hm_ptr mc + 1\<rparr>"
  have buf': "buf = (pre @ [frame_sl f]) @ frame_id_bytes f @ ts_field hf (fr_ts16 f) @
      take (frame_data_bytes f) (fr_data f) @
      (if fr_srr f \<and> \<not> fr_rtr f then [fr_writer_id f] else []) @ post"
    using buf RxFrame by (simp add: frame_record_def)
  have len: "0 < length (frame_record hf f)" by (simp add: frame_record_def)
  have sl: "buf ! length pre = frame_sl f" by (simp add: buf')
  have "host_decode_data buf ?mc (frame_sl f) = Some (?mc
      \<lparr>hm_ts16 := host_ts hf (hm_ts16 ?mc) (hm_prev_ts8 ?mc) (fr_ts16 f),
       hm_prev_ts8 := ucast (fr_ts16 f), hm_rec_ts_idx := hm_rec_ts_idx ?mc + 1,
       hm_ptr := length (pre @ [frame_sl f]) + (length (frame_record hf f) - 1),
       hm_frames := observe (hm_frames ?mc)
         (host_view (host_ts hf (hm_ts16 ?mc) (hm_prev_ts8 ?mc) (fr_ts16 f)) f)\<rparr>)"
    by (rule host_decode_data_frame [OF buf']) (use ptr idx fin ok RxFrame in auto)
  with len show ?thesis
    using RxFrame idx by (simp add: host_record_def ptr sl frame_sl_fields host_stamp_def Let_def)
next
  case (RxError m ts)
  let ?mc = "mc\<lparr>hm_ptr := hm_ptr mc + 1\<rparr>"
  have buf': "buf = (pre @ [status_sl 0 True]) @ [PCAN_USB_REC_ERROR, m] @ ts_field hf ts @ post"
    using buf RxError by (simp add: status_record_def)
  have sl: "buf ! length pre = status_sl 0 True" by (simp add: buf')
  have "host_decode_status buf ?mc (status_sl 0 True) = Some (?mc
      \<lparr>hm_ts16 := host_ts hf (hm_ts16 ?mc) (hm_prev_ts8 ?mc) ts, hm_prev_ts8 := ucast ts,
       hm_rec_ts_idx := hm_rec_ts_idx ?mc + 1,
       hm_ptr := length (pre @ [status_sl 0 True]) + 2 + length (ts_field hf ts),
       hm_err := observe (hm_err ?mc) m\<rparr>)"
    by (rule host_decode_status_error [OF buf'])
      (use ptr idx fin RxError in \<open>auto simp: status_record_def\<close>)
  then show ?thesis
    using RxError idx
    by (simp add: host_record_def ptr sl host_stamp_def Let_def status_record_def)
qed

lemma host_absorb_fields [simp]:
  "hm_ptr (host_absorb it mc) = hm_ptr mc + length (item_bytes (hm_rec_ts_idx mc \<noteq> 0) it)"
  "hm_end (host_absorb it mc) = hm_end mc"
  "hm_rec_ts_idx (host_absorb it mc) = hm_rec_ts_idx mc + 1"
  "hm_prev_ts8 (host_absorb it mc) = ucast (item_ts it)"
  "hm_ts16 (host_absorb it mc) =
     host_ts (hm_rec_ts_idx mc \<noteq> 0) (hm_ts16 mc) (hm_prev_ts8 mc) (item_ts it)"
  "hm_calib (host_absorb it mc) = hm_calib mc"
  by (cases it; simp add: host_stamp_def Let_def)+

lemma unat_inc: "unat (w :: 'a::len word) + 1 < 2 ^ LENGTH('a) \<Longrightarrow> unat (w + 1) = unat w + 1"
  by (simp add: unat_word_ariths)

lemma item_bytes_pos: "0 < length (item_bytes hf it)"
  by (cases it) (simp_all add: frame_record_def status_record_def)

lemma host_decode_loop_items:
  assumes "buf = pre @ items_bytes (hm_rec_ts_idx mc \<noteq> 0) its @ post" "hm_ptr mc = length pre"
    and "\<forall>it \<in> set its. item_ok it" "unat (hm_rec_ts_idx mc) + length its < 256"
    and "length pre + length (items_bytes (hm_rec_ts_idx mc \<noteq> 0) its) \<le> hm_end mc"
  shows "host_decode_loop buf (length its) mc = Some (fold host_absorb its mc)"
  using assms
proof (induction its arbitrary: pre mc)
  case Nil
  then show ?case by simp
next
  case (Cons it its)
  define hf where "hf = (hm_rec_ts_idx mc \<noteq> 0)"
  have room: "hm_ptr mc < hm_end mc"
    using Cons.prems(2,5) item_bytes_pos [of hf it]
    by (simp add: hf_def del: length_greater_0_conv)
  have "\<exists>mc'. host_record buf mc = Some mc' \<and>
      mc'\<lparr>hm_rec_idx := hm_rec_idx mc' + 1\<rparr> = host_absorb it mc"
  proof (rule host_record_item)
    show "buf = pre @ item_bytes hf it @ items_bytes True its @ post"
      using Cons.prems(1) by (simp add: hf_def)
    show "hm_ptr mc = length pre" by (rule Cons.prems(2))
    show "(hm_rec_ts_idx mc \<noteq> 0) = hf" by (simp add: hf_def)
    show "item_ok it" using Cons.prems(3) by simp
    show "length pre + length (item_bytes hf it) \<le> hm_end mc"
      using Cons.prems(5) by (simp add: hf_def)
  qed
  then obtain mc' where mc': "host_record buf mc = Some mc'"
    "mc'\<lparr>hm_rec_idx := hm_rec_idx mc' + 1\<rparr> = host_absorb it mc"
    by blast
  have u: "unat (hm_rec_ts_idx mc + 1) = unat (hm_rec_ts_idx mc) + 1"
    using Cons.prems(4) by (intro unat_inc) simp
  then have nz: "hm_rec_ts_idx mc + 1 \<noteq> 0" by (metis add_is_0 one_neq_zero unat_0)
  have "host_decode_loop buf (length its) (host_absorb it mc) =
      Some (fold host_absorb its (host_absorb it mc))"
    by (rule Cons.IH [of "pre @ item_bytes hf it"])
      (use Cons.prems in \<open>simp_all add: u nz hf_def\<close>)
  then show ?case using room mc' by (simp del: host_decode_loop.simps add: host_decode_loop_Suc)
qed

subsection \<open>What the host observes\<close>

text \<open>The records as the host should see them, and the condition on consecutive ticks under which
  the one-byte timestamps determine them.\<close>

fun item_frames :: "rx_item \<Rightarrow> host_frame list" where
  "item_frames (RxFrame f) = [host_view (fr_ts16 f) f]"
| "item_frames (RxError m ts) = []"

fun item_errs :: "rx_item \<Rightarrow> u8 list" where
  "item_errs (RxFrame f) = []"
| "item_errs (RxError m ts) = [m]"

fun ticks_close :: "rx_item list \<Rightarrow> bool" where
  "ticks_close (a # b # its) \<longleftrightarrow> item_ts b - item_ts a < 256 \<and> ticks_close (b # its)"
| "ticks_close _ = True"

lemma observe_append: "length (xs @ ys) < HOST_MAX_REC \<Longrightarrow> observe (xs @ ys) y = xs @ ys @ [y]"
  by (simp add: observe_def)

lemma host_absorb_exact:
  assumes "host_ts (hm_rec_ts_idx mc \<noteq> 0) (hm_ts16 mc) (hm_prev_ts8 mc) (item_ts it) = item_ts it"
    and "length (hm_frames mc) < 32" "length (hm_err mc) < 32"
  shows "hm_frames (host_absorb it mc) = hm_frames mc @ item_frames it"
    "hm_err (host_absorb it mc) = hm_err mc @ item_errs it"
  using assms by (cases it; simp add: host_stamp_def Let_def observe_def)+

lemma item_counts_le: "length (item_frames it) \<le> 1" "length (item_errs it) \<le> 1"
  by (cases it; simp)+

lemma fold_host_absorb:
  assumes "ticks_close (it # its)"
    and "host_ts (hm_rec_ts_idx mc \<noteq> 0) (hm_ts16 mc) (hm_prev_ts8 mc) (item_ts it) = item_ts it"
    and "length (hm_frames mc) + length (it # its) \<le> 32" "length (hm_err mc) + length (it # its) \<le> 32"
    and "unat (hm_rec_ts_idx mc) + length (it # its) < 256"
  defines "mc' \<equiv> fold host_absorb (it # its) mc"
  shows "hm_frames mc' = hm_frames mc @ concat (map item_frames (it # its)) \<and>
    hm_err mc' = hm_err mc @ concat (map item_errs (it # its)) \<and> hm_calib mc' = hm_calib mc \<and>
    hm_ptr mc' = hm_ptr mc + length (items_bytes (hm_rec_ts_idx mc \<noteq> 0) (it # its))"
  unfolding mc'_def
  using assms(1-5)
proof (induction its arbitrary: it mc)
  case Nil
  then show ?case using host_absorb_exact [of mc it] by simp
next
  case (Cons it' its)
  let ?mc = "host_absorb it mc"
  have u: "unat (hm_rec_ts_idx mc + 1) = unat (hm_rec_ts_idx mc) + 1"
    using Cons.prems(5) by (intro unat_inc) simp
  then have nz: "hm_rec_ts_idx mc + 1 \<noteq> 0" by (metis add_is_0 one_neq_zero unat_0)
  note ex = host_absorb_exact [OF Cons.prems(2)]
  have "hm_frames ?mc = hm_frames mc @ item_frames it" "hm_err ?mc = hm_err mc @ item_errs it"
    using Cons.prems(3,4) by (auto intro!: ex)
  moreover have "host_ts True (item_ts it) (ucast (item_ts it)) (item_ts it') = item_ts it'"
    using Cons.prems(1) by (intro host_ts_exact) simp
  ultimately show ?case
    using Cons.IH [of it' ?mc] Cons.prems item_counts_le [of it] by (simp add: nz u)
qed

subsection \<open>Building a batch\<close>

text \<open>The encoder calls in order; \<open>None\<close> when one of them is refused.\<close>

fun batch_items :: "pcan_batch \<Rightarrow> rx_item list \<Rightarrow> pcan_batch option" where
  "batch_items b [] = Some b"
| "batch_items b (it # its) =
     (case batch_request b (item_req it) of
        (True, b') \<Rightarrow> batch_items b' its
      | (False, _) \<Rightarrow> None)"

lemma batch_request_item:
  assumes "item_ok it" "batch_request b (item_req it) = (True, b')"
  shows "b' = batch_commit b (stamp (item_ts it) (b_ts b)) (item_bytes (have_first (b_ts b)) it)"
    "b_len b + length (item_bytes (have_first (b_ts b)) it) \<le> 64"
  using assms
  by (cases it; simp add: add_frame_eq add_status_None_eq pcan_msg_batch_add_error_def
      split: if_splits)+

lemma item_bytes_ge3: "item_ok it \<Longrightarrow> 3 \<le> length (item_bytes hf it)"
  by (cases it) (auto simp: status_record_def dest: frame_record_bounds [where hf = hf])

lemma batch_items_bytes:
  assumes "batch_items b its = Some b'" "batch_ok b" "\<forall>it \<in> set its. item_ok it"
  shows "batch_ok b' \<and> b_rec_cnt b' = b_rec_cnt b + word_of_nat (length its) \<and>
    b_len b' = b_len b + length (items_bytes (have_first (b_ts b)) its) \<and>
    batch_bytes b' = (batch_bytes b)[1 := b_rec_cnt b'] @ items_bytes (have_first (b_ts b)) its"
  using assms
proof (induction its arbitrary: b)
  case Nil
  have "1 < length (batch_bytes b)" "batch_bytes b ! 1 = b_rec_cnt b"
    using Nil.prems(2) by (auto simp: batch_ok_def batch_bytes_def)
  then have "(batch_bytes b)[1 := b_rec_cnt b] = batch_bytes b" by (metis list_update_id)
  then show ?case using Nil.prems by simp
next
  case (Cons it its)
  obtain b1 where b1: "batch_request b (item_req it) = (True, b1)" "batch_items b1 its = Some b'"
    using Cons.prems(1) by (auto split: prod.splits bool.splits)
  have it: "item_ok it" using Cons.prems(3) by simp
  note c = batch_request_item [OF it b1(1)]
  have ok: "batch_ok b1"
    unfolding c(1) by (rule batch_commit_ok [OF Cons.prems(2) c(2) item_bytes_ge3 [OF it]])
  have len: "1 < length (batch_bytes b)" using Cons.prems(2) by (simp add: batch_ok_def batch_bytes_def)
  have "batch_bytes b1 = (batch_bytes b)[1 := b_rec_cnt b + 1] @ item_bytes (have_first (b_ts b)) it"
    unfolding c(1) by (rule batch_commit_bytes [OF Cons.prems(2) c(2)])
  with Cons.IH [OF b1(2) ok] Cons.prems(3) len show ?case
    by (simp add: c(1) list_update_append1)
qed

subsection \<open>The transmit direction\<close>

text \<open>What a driver's record may hold: an identifier of its width, the nibble and the length it
  stands for, an eight-byte data array.\<close>

definition txrec_ok :: "txrec \<Rightarrow> bool" where
  "txrec_ok r \<longleftrightarrow> tx_id r < (if tx_ext r then 2 ^ 29 else 2 ^ 11) \<and> tx_raw_dlc r \<le> 15 \<and>
     tx_data_len r = sat_dlc (tx_raw_dlc r) \<and> length (tx_data r) = 8"

text \<open>The frame the firmware should hand to the controller for it.\<close>

definition txrec_frame :: "u8 \<Rightarrow> txrec \<Rightarrow> pcan_frame" where
  "txrec_frame wid r =
     \<lparr>fr_id = tx_id r, fr_ts16 = 0, fr_dlc = sat_dlc (tx_raw_dlc r),
      fr_flags = tx_frame_flags (tx_ext r) (tx_rtr r) (tx_at r) (tx_srr r),
      fr_data = memcpy_at (replicate 8 0) 0
        (if tx_rtr r then [] else take (unat (sat_dlc (tx_raw_dlc r))) (tx_data r)),
      fr_writer_id = wid\<rparr>"

lemma bit_txrec_flags:
  "bit (txrec_id_flags r) n \<longleftrightarrow> bit (push_bit (if tx_ext r then 3 else 5) (tx_id r)) n \<or>
     n = 0 \<and> tx_srr r \<or> n = 1 \<and> tx_at r"
  by (auto simp: txrec_id_flags_def bit_simps bit_1_iff bit_2_iff bit_double_iff
      simp flip: numeral_2_eq_2)

lemma word_bound_bits:
  assumes "unat (w :: u32) < 2 ^ k" "bit w n"
  shows "n < k"
proof -
  have "take_bit k w = w"
    using assms(1)
    by (intro word_unat_eq_iff [THEN iffD2]) (simp add: unsigned_take_bit_eq take_bit_nat_eq_self)
  then have "bit (take_bit k w) n" using assms(2) by simp
  then show ?thesis by (simp add: bit_simps)
qed

lemma bit_mask_small:
  "bit (7 :: int) n \<longleftrightarrow> n < 3" "bit (31 :: int) n \<longleftrightarrow> n < 5"
proof -
  have m: "(7 :: int) = mask 3" "(31 :: int) = mask 5" by (simp_all add: mask_eq_exp_minus_1)
  show "bit (7 :: int) n \<longleftrightarrow> n < 3" "bit (31 :: int) n \<longleftrightarrow> n < 5"
    unfolding m by (simp_all add: bit_simps del: mask_numeral)
qed

lemma tx_ext_word:
  assumes "tx_ext r" "tx_id r < 2 ^ 29"
  defines "w \<equiv> txrec_id_flags r"
  shows "drop_bit 3 w = tx_id r" "bit (ucast (w AND 7) :: u8) 0 = tx_srr r"
    "bit (ucast (w AND 7) :: u8) 1 = tx_at r"
proof -
  have hi: "n < 29" if "bit (tx_id r) n" for n
    by (rule word_bound_bits [OF _ that]) (use assms(2) in \<open>simp add: word_less_nat_alt\<close>)
  show "drop_bit 3 w = tx_id r"
    unfolding w_def
    by (rule bit_word_eqI) (use assms(1) in \<open>auto simp: bit_simps bit_txrec_flags dest: hi\<close>)
  show "bit (ucast (w AND 7) :: u8) 0 = tx_srr r" "bit (ucast (w AND 7) :: u8) 1 = tx_at r"
    unfolding w_def using assms(1) by (simp_all add: bit_simps bit_txrec_flags bit_mask_small)
qed

lemma tx_std_word:
  assumes "\<not> tx_ext r" "tx_id r < 2 ^ 11"
  defines "w \<equiv> (ucast (txrec_id_flags r) :: u16)"
  shows "ucast (drop_bit 5 w) = tx_id r" "bit (ucast (w AND 31) :: u8) 0 = tx_srr r"
    "bit (ucast (w AND 31) :: u8) 1 = tx_at r"
proof -
  have hi: "n < 11" if "bit (tx_id r) n" for n
    by (rule word_bound_bits [OF _ that]) (use assms(2) in \<open>simp add: word_less_nat_alt\<close>)
  show "ucast (drop_bit 5 w) = tx_id r"
    unfolding w_def
    by (rule bit_word_eqI) (use assms(1) in \<open>auto simp: bit_simps bit_txrec_flags dest: hi\<close>)
  show "bit (ucast (w AND 31) :: u8) 0 = tx_srr r" "bit (ucast (w AND 31) :: u8) 1 = tx_at r"
    unfolding w_def using assms(1) by (simp_all add: bit_simps bit_txrec_flags bit_mask_small)
qed

lemma txrec_srr: "txrec_id_flags r AND 1 \<noteq> 0 \<longleftrightarrow> tx_srr r"
  unfolding and_exp_eq_0_iff_not_bit [of _ 0, simplified] by (simp add: bit_txrec_flags bit_simps)

lemma txrec_sl:
  assumes "sl = (tx_raw_dlc r AND PCAN_USB_STATUSLEN_DLC) OR
      (if tx_rtr r then PCAN_USB_STATUSLEN_RTR else 0) OR
      (if tx_ext r then PCAN_USB_STATUSLEN_EXT_ID else 0)" and "tx_raw_dlc r \<le> 15"
  shows "sl AND PCAN_USB_STATUSLEN_DLC = tx_raw_dlc r" "\<not> bit sl 6" "bit sl 5 = tx_ext r"
    "bit sl 4 = tx_rtr r"
proof -
  have low: "tx_raw_dlc r AND 15 = tx_raw_dlc r" by (rule low_nibble_id [OF assms(2)])
  have d: "n < 4" if "bit (tx_raw_dlc r) n" for n
  proof -
    have "bit (tx_raw_dlc r AND 15) n" using that low by simp
    moreover have "15 = (mask 4 :: u8)" by (simp add: mask_eq_exp_minus_1)
    ultimately show ?thesis by (simp add: bit_simps del: mask_numeral)
  qed
  show "sl AND PCAN_USB_STATUSLEN_DLC = tx_raw_dlc r"
    by (simp add: assms(1) bit.conj_disj_distrib2 and.assoc low)
  show "\<not> bit sl 6" "bit sl 5 = tx_ext r" "bit sl 4 = tx_rtr r"
    using d [of 6] d [of 5] d [of 4] by (auto simp: assms(1) bit_simps low)
qed

text \<open>The firmware's data decoder step by step, with its tests and reads named.\<close>

lemma decode_tx_data_steps:
  assumes "(sl AND PCAN_USB_STATUSLEN_EXT_ID \<noteq> 0) = ext" "(sl AND PCAN_USB_STATUSLEN_RTR \<noteq> 0) = rtr"
    and "sat_dlc (sl AND PCAN_USB_STATUSLEN_DLC) = d" and "p = pos + (if ext then 4 else 2)"
    and "n = (if rtr then 0 else unat d)" and "p + n + (if srr then 1 else 0) \<le> len"
    and "ext \<Longrightarrow> w = pcan_get_le32 buf pos" "\<not> ext \<Longrightarrow> v = pcan_get_le16 buf pos"
    and "fid = (if ext then drop_bit 3 w else ucast (drop_bit 5 v))"
    and "tf = (if ext then ucast (w AND 7) else ucast (v AND 31) :: u8)"
    and "bit tf 0 = srr" "bit tf 1 = ss"
  shows "decode_tx_data buf len wid sl pos =
    DecFrame \<lparr>fr_id = fid, fr_ts16 = 0, fr_dlc = d, fr_flags = tx_frame_flags ext rtr ss srr,
       fr_data = memcpy_at (replicate 8 0) 0 (take n (drop p buf)), fr_writer_id = wid\<rparr>
      (p + n + (if srr then 1 else 0))"
proof -
  have room: "\<not> len < p" "\<not> len < p + n" "\<not> (srr \<and> len < p + n + 1)"
    using assms(6) by (auto split: if_splits)
  have t: "(tf AND PCAN_USB_TX_SRR \<noteq> 0) = srr" "(tf AND PCAN_USB_TX_AT \<noteq> 0) = ss"
    using assms(11,12) by simp_all
  have "(if ext then let w = pcan_get_le32 buf pos
          in (drop_bit PCAN_USB_EXT_ID_SHIFT w, ucast (w AND 7) :: u8)
      else let w = pcan_get_le16 buf pos
          in (ucast (drop_bit PCAN_USB_STD_ID_SHIFT w), ucast (w AND 31) :: u8)) = (fid, tf)"
    using assms(7-10) by (cases ext) (simp_all add: Let_def)
  note rd = this [unfolded Let_def]
  show ?thesis
    unfolding decode_tx_data_def Let_def assms(1,2,3) assms(4) [symmetric] assms(5) [symmetric] rd
      split_beta fst_conv snd_conv t
    using room by (cases srr) (simp_all split del: if_split)
qed

lemma decode_txrec:
  assumes ok: "txrec_ok r" and buf: "buf = pre @ txrec_bytes r @ post"
    and fin: "length pre + length (txrec_bytes r) \<le> len"
  shows "decode_tx_record buf len wid (length pre) =
    DecFrame (txrec_frame wid r) (length pre + length (txrec_bytes r))"
proof -
  define sl where "sl = (tx_raw_dlc r AND PCAN_USB_STATUSLEN_DLC) OR
      (if tx_rtr r then PCAN_USB_STATUSLEN_RTR else 0) OR
      (if tx_ext r then PCAN_USB_STATUSLEN_EXT_ID else 0)"
  define idb where "idb = (if tx_ext r then pcan_put_le32 (txrec_id_flags r)
      else pcan_put_le16 (ucast (txrec_id_flags r)))"
  define dat where "dat = (if tx_rtr r then [] else take (unat (sat_dlc (tx_raw_dlc r))) (tx_data r))"
  define tail where "tail = (if tx_srr r then [0x80 :: u8] else [])"
  have bytes: "txrec_bytes r = [sl] @ idb @ dat @ tail"
    using ok by (simp add: txrec_bytes_def sl_def idb_def dat_def tail_def Let_def txrec_srr txrec_ok_def)
  have raw: "tx_raw_dlc r \<le> 15" using ok by (simp add: txrec_ok_def)
  note f = txrec_sl [OF sl_def raw]
  have l: "length idb = (if tx_ext r then 4 else 2)"
    "length dat = (if tx_rtr r then 0 else unat (sat_dlc (tx_raw_dlc r)))"
    "length tail = (if tx_srr r then 1 else 0)"
    using ok by (simp_all add: idb_def dat_def tail_def txrec_ok_def min_absorb2)
  let ?pos = "length pre + 1"
  have b1: "buf = (pre @ [sl]) @ idb @ dat @ tail @ post" by (simp add: buf bytes)
  have rd: "tx_ext r \<Longrightarrow> txrec_id_flags r = pcan_get_le32 buf ?pos"
    "\<not> tx_ext r \<Longrightarrow> ucast (txrec_id_flags r) = pcan_get_le16 buf ?pos"
    using get_put_le32 [of ?pos "pre @ [sl]" "txrec_id_flags r" "dat @ tail @ post"]
      get_put_le16 [of ?pos "pre @ [sl]" "ucast (txrec_id_flags r)" "dat @ tail @ post"]
    by (simp_all add: b1 idb_def)
  have idb: "tx_id r < (if tx_ext r then 2 ^ 29 else 2 ^ 11)" using ok by (simp add: txrec_ok_def)
  define tf where "tf = (if tx_ext r then ucast (txrec_id_flags r AND 7)
      else ucast (ucast (txrec_id_flags r) AND (31 :: u16)) :: u8)"
  have w: "tx_id r = (if tx_ext r then drop_bit 3 (txrec_id_flags r)
      else ucast (drop_bit 5 (ucast (txrec_id_flags r) :: u16)))"
    "bit tf 0 = tx_srr r" "bit tf 1 = tx_at r"
    using tx_ext_word [of r] tx_std_word [of r] idb by (cases "tx_ext r"; simp add: tf_def)+
  have s: "(sl AND PCAN_USB_STATUSLEN_EXT_ID \<noteq> 0) = tx_ext r"
    "(sl AND PCAN_USB_STATUSLEN_RTR \<noteq> 0) = tx_rtr r"
    "sat_dlc (sl AND PCAN_USB_STATUSLEN_DLC) = sat_dlc (tx_raw_dlc r)"
    using f by simp_all
  have room: "?pos + (if tx_ext r then 4 else 2) +
      (if tx_rtr r then 0 else unat (sat_dlc (tx_raw_dlc r))) + (if tx_srr r then 1 else 0) \<le> len"
    using fin l by (simp add: bytes split del: if_split)
  note D = decode_tx_data_steps [OF s refl refl room rd w(1) tf_def w(2,3)]
  have slice: "take (length dat) (drop (?pos + length idb) buf) = dat"
    unfolding b1 by simp
  have hd: "buf ! length pre = sl" "length pre < len" using fin by (simp_all add: b1 bytes)
  show ?thesis
    using D slice hd f(2) l
    by (simp add: decode_tx_record_def bytes txrec_frame_def dat_def Let_def add.assoc
        split del: if_split)
qed

lemma decode_tx_loop_txrecs:
  assumes "\<forall>r \<in> set rs. txrec_ok r" "buf = pre @ concat (map txrec_bytes rs) @ post"
    and "length pre + length (concat (map txrec_bytes rs)) \<le> len"
    and "int (length out + length rs) \<le> max_out"
  shows "decode_tx_loop buf len wid max_out (length rs) (length pre) out =
    Some (out @ map (txrec_frame wid) rs)"
  using assms
proof (induction rs arbitrary: pre out)
  case Nil
  then show ?case by simp
next
  case (Cons r rs)
  have "decode_tx_record buf len wid (length pre) =
      DecFrame (txrec_frame wid r) (length (pre @ txrec_bytes r))"
    using decode_txrec [of r buf pre "concat (map txrec_bytes rs) @ post" len wid] Cons.prems by simp
  moreover have "decode_tx_loop buf len wid max_out (length rs) (length (pre @ txrec_bytes r))
      (out @ [txrec_frame wid r]) = Some ((out @ [txrec_frame wid r]) @ map (txrec_frame wid) rs)"
    by (rule Cons.IH) (use Cons.prems in simp_all)
  ultimately show ?case using Cons.prems(4) by simp
qed

lemma txrec_bytes_ge3: "3 \<le> length (txrec_bytes r)"
  by (simp add: txrec_bytes_def Let_def)

lemma txrecs_ge3: "3 * length rs \<le> length (concat (map txrec_bytes rs))"
proof (induction rs)
  case (Cons r rs)
  then show ?case using add_le_mono [OF txrec_bytes_ge3 [of r] Cons.IH] by simp
qed simp

subsection \<open>Properties\<close>

lemma reset_have_first [simp]: "\<not> have_first (b_ts (pcan_msg_batch_reset b))"
  by (simp add: pcan_msg_batch_reset_def pcan_ts_batch_reset_def)

lemma reset_len [simp]: "b_len (pcan_msg_batch_reset b) = 2" "b_rec_cnt (pcan_msg_batch_reset b) = 0"
  by (simp_all add: pcan_msg_batch_reset_def)

lemma items_bytes_ge3:
  "\<forall>it \<in> set its. item_ok it \<Longrightarrow> 3 * length its \<le> length (items_bytes hf its)"
proof (induction its arbitrary: hf)
  case (Cons it its)
  then show ?case using add_le_mono [OF item_bytes_ge3 [of it hf] Cons.IH [of True]] by simp
qed simp

lemma items_host_decode:
  assumes len: "length (b_buf b0) = 64" and ok: "\<forall>it \<in> set its. item_ok it"
    and enc: "batch_items (pcan_msg_batch_reset b0) its = Some b" and ne: "its \<noteq> []"
    and close: "ticks_close its"
  shows "\<exists>mc. host_decode_batch (batch_bytes b) (pcan_msg_batch_len b) = Some mc \<and>
    hm_frames mc = concat (map item_frames its) \<and> hm_err mc = concat (map item_errs its) \<and>
    hm_calib mc = [] \<and> hm_consumed mc = pcan_msg_batch_len b"
proof -
  let ?b = "pcan_msg_batch_reset b0"
  note B = batch_items_bytes [OF enc reset_ok [OF len] ok]
  define cnt where "cnt = b_rec_cnt b"
  have blen: "b_len b = 2 + length (items_bytes False its)" using B by simp
  have small: "b_len b \<le> 64" using B by (simp add: batch_ok_def)
  have n20: "length its \<le> 20" using items_bytes_ge3 [OF ok, of False] blen small by simp
  have cnt: "unat cnt = length its"
    using B n20 by (simp add: cnt_def unat_of_nat)
  have bytes: "batch_bytes b = [2, cnt] @ items_bytes False its"
    using B len by (simp add: cnt_def)
  let ?mc = "host_mc_init cnt (b_len b)"
  obtain it its' where its: "its = it # its'" using ne by (cases its) auto
  have run: "host_decode_loop (batch_bytes b) (length its) ?mc = Some (fold host_absorb its ?mc)"
    by (rule host_decode_loop_items [where pre = "[2, cnt]" and post = "[]"])
      (use bytes ok n20 blen in \<open>simp_all add: host_mc_init_def\<close>)
  have first: "host_ts (hm_rec_ts_idx ?mc \<noteq> 0) (hm_ts16 ?mc) (hm_prev_ts8 ?mc) (item_ts it) = item_ts it"
    by (simp add: host_ts_def host_mc_init_def)
  have "0 < length (items_bytes False its)" using item_bytes_pos [of False it] by (simp add: its)
  then have l2: "\<not> b_len b \<le> 2" using blen by simp
  have fin: "hm_frames (fold host_absorb its ?mc) = concat (map item_frames its) \<and>
      hm_err (fold host_absorb its ?mc) = concat (map item_errs its) \<and>
      hm_calib (fold host_absorb its ?mc) = [] \<and> hm_ptr (fold host_absorb its ?mc) = b_len b"
    using fold_host_absorb [of it its' ?mc, OF _ first] close n20 blen
    unfolding its by (simp add: host_mc_init_def)
  have c1: "batch_bytes b ! 1 = cnt" by (simp add: bytes)
  show ?thesis
    unfolding host_decode_batch_def pcan_msg_batch_len_def c1 cnt run
    using l2 fin by simp
qed

text \<open>C10. End to end on EP2-IN: any sequence of CAN frames and error records that the firmware packs
  into one batch is what the host driver's decoder recovers, in order: identifiers at their
  width, flags, saturated DLC, data bytes and error masks, every byte of the batch consumed; and
  the 16-bit tick the host reconstructs from the one-byte timestamps is the device's own tick,
  as long as neighbouring records are less than 256 ticks apart.\<close>

theorem encode_host_decode:
  assumes len: "length (b_buf b0) = 64" and ok: "\<forall>it \<in> set its. item_ok it"
    and enc: "batch_items (pcan_msg_batch_reset b0) its = Some b" and ne: "its \<noteq> []"
    and close: "ticks_close its"
  shows "\<exists>mc. host_decode_batch (batch_bytes b) (pcan_msg_batch_len b) = Some mc \<and>
    hm_frames mc = concat (map item_frames its) \<and> hm_err mc = concat (map item_errs its) \<and>
    hm_calib mc = [] \<and> hm_consumed mc = pcan_msg_batch_len b"
  using items_host_decode [OF assms] .

theorem encode_host_decode_witness:
  "\<exists>b mc. batch_items (pcan_msg_batch_reset zero_batch)
        [RxFrame demo_frame, RxError 4 0x10F8, RxFrame (demo_frame\<lparr>fr_ts16 := 0x1103\<rparr>)] = Some b \<and>
     host_decode_batch (batch_bytes b) (pcan_msg_batch_len b) = Some mc \<and>
     map hf_ts16 (hm_frames mc) = [0x10F0, 0x1103] \<and> hm_err mc = [4]"
proof -
  let ?its = "[RxFrame demo_frame, RxError 4 0x10F8, RxFrame (demo_frame\<lparr>fr_ts16 := 0x1103\<rparr>)]"
  have "batch_items (pcan_msg_batch_reset zero_batch) ?its \<noteq> None" by code_simp
  then obtain b where b: "batch_items (pcan_msg_batch_reset zero_batch) ?its = Some b" by blast
  have "\<forall>it \<in> set ?its. item_ok it" "ticks_close ?its" by code_simp+
  from encode_host_decode [OF length_zero_batch this(1) b _ this(2)] b show ?thesis
    by (fastforce simp: host_view_def demo_frame_def)
qed

lemma calib_alone_decode:
  assumes "length (b_buf b0) = 64"
  shows "\<exists>b mc. pcan_msg_batch_add_calib_ts (pcan_msg_batch_reset b0) ts = (True, b) \<and>
    host_decode_batch (batch_bytes b) (pcan_msg_batch_len b) = Some mc \<and>
    hm_calib mc = [ts] \<and> hm_ts16 mc = ts \<and> hm_frames mc = [] \<and> hm_err mc = [] \<and> hm_consumed mc = 7"
proof -
  let ?b = "pcan_msg_batch_reset b0"
  let ?rec = "status_record False PCAN_USB_REC_TS 0 (pcan_put_le16 ts) False 0"
  have ok: "batch_ok ?b" by (rule reset_ok [OF assms])
  define b where "b = batch_commit ?b (b_ts ?b) ?rec"
  have add: "pcan_msg_batch_add_calib_ts ?b ts = (True, b)"
    unfolding pcan_msg_batch_add_calib_ts_def b_def
    using add_status_eq [of "pcan_put_le16 ts" ?b PCAN_USB_REC_TS 0 False 0] by simp
  have bytes: "batch_bytes b = [2, 1] @ ?rec"
    unfolding b_def using batch_commit_bytes [OF ok, of ?rec "b_ts ?b"] assms by simp
  have "status_sl 2 False = 0x42" by (simp add: status_sl_def)
  then have bytes': "batch_bytes b = [2, 1, 0x42, 4, 0] @ pcan_put_le16 ts @ []"
    unfolding bytes by (simp add: status_record_def)
  have rd: "pcan_get_le16 (batch_bytes b) 5 = ts"
    unfolding bytes' by (rule get_put_le16) simp
  have nth: "batch_bytes b ! Suc 0 = 1" "batch_bytes b ! 2 = 0x42" "batch_bytes b ! 3 = 4"
    "batch_bytes b ! 4 = 0"
    unfolding bytes' by (simp_all add: numeral_eq_Suc)
  have len: "b_len b = 7" by (simp add: b_def)
  have "host_decode_batch (batch_bytes b) 7 =
      Some (\<lparr>hm_frames = [], hm_calib = [ts], hm_err = [], hm_consumed = 7, hm_ts16 = ts,
             hm_prev_ts8 = 0, hm_ptr = 7, hm_end = 7, hm_rec_cnt = 1, hm_rec_idx = 1,
             hm_rec_ts_idx = 0\<rparr>)"
    by (simp add: host_decode_batch_def host_mc_init_def nth rd host_decode_status_def Let_def
        observe_def)
  with add len show ?thesis by (simp add: pcan_msg_batch_len_def)
qed

text \<open>A calibration record alone in a batch sets the host's time base to exactly the tick the
  firmware sent and is consumed to the last byte.\<close>

theorem calib_host_decode:
  assumes "length (b_buf b0) = 64"
  shows "\<exists>b mc. pcan_msg_batch_add_calib_ts (pcan_msg_batch_reset b0) ts = (True, b) \<and>
    host_decode_batch (batch_bytes b) (pcan_msg_batch_len b) = Some mc \<and>
    hm_calib mc = [ts] \<and> hm_ts16 mc = ts \<and> hm_frames mc = [] \<and> hm_consumed mc = 7"
  using calib_alone_decode [OF assms, of ts] by blast

theorem calib_host_decode_witness:
  "\<exists>b mc. pcan_msg_batch_add_calib_ts (pcan_msg_batch_reset zero_batch) 0xABCD = (True, b) \<and>
     host_decode_batch (batch_bytes b) 7 = Some mc \<and> hm_calib mc = [0xABCD]"
  using calib_host_decode [of zero_batch "0xABCD"]
  by (auto simp: pcan_msg_batch_len_def pcan_msg_batch_add_calib_ts_def
      pcan_msg_batch_add_status_def Let_def split: prod.splits)

text \<open>C11. End to end on EP2-OUT: every transmit batch the host driver builds, of any records that
  fit the 61 bytes between header and counter, is decoded by the firmware into exactly those
  frames, in order: identifier, remote, single-shot and self-reception flags, DLC saturated at
  8, the data bytes, and the batch's rolling counter as the writer id of each.\<close>

theorem host_encode_decode:
  assumes "\<forall>r \<in> set rs. txrec_ok r" "length (concat (map txrec_bytes rs)) \<le> 61"
  shows "pcan_msg_decode_tx (host_encode_tx rs cnt) 64 32 = Some (map (txrec_frame cnt) rs)"
proof -
  let ?c = "concat (map txrec_bytes rs)"
  have n: "length rs \<le> 20" using txrecs_ge3 [of rs] assms(2) by simp
  have hd: "take 2 ((replicate 64 (0 :: u8))[0 := 2, 1 := word_of_nat (length rs)]) =
      [2, word_of_nat (length rs)]"
    by (simp add: numeral_eq_Suc)
  have enc: "host_encode_tx rs cnt =
      [2, word_of_nat (length rs)] @ ?c @ (replicate (62 - length ?c) 0)[61 - length ?c := cnt]"
    using assms(2) unfolding host_encode_tx_def memcpy_at_def
    by (simp add: hd [simplified] drop_update_cancel list_update_append Suc_diff_le numeral_2_eq_2)
  have tail: "host_encode_tx rs cnt ! 63 = cnt"
    using assms(2) by (simp add: host_encode_tx_def)
  have cnt: "unat (host_encode_tx rs cnt ! 1) = length rs"
    using n by (simp add: enc unat_of_nat)
  have "decode_tx_loop (host_encode_tx rs cnt) 64 cnt 32 (length rs)
      (length [2 :: u8, word_of_nat (length rs)]) [] = Some ([] @ map (txrec_frame cnt) rs)"
    by (rule decode_tx_loop_txrecs [OF assms(1) enc]) (use assms(2) n in auto)
  then show ?thesis
    by (simp add: pcan_msg_decode_tx_def cnt [simplified] tail numeral_2_eq_2)
qed

definition demo_txrec :: txrec where
  "demo_txrec = \<lparr>tx_id = 0x1ABCDE, tx_ext = True, tx_rtr = False, tx_srr = True, tx_at = False,
     tx_raw_dlc = 3, tx_data = [1, 2, 3, 0, 0, 0, 0, 0], tx_data_len = 3\<rparr>"

theorem host_encode_decode_witness:
  "pcan_msg_decode_tx (host_encode_tx [demo_txrec, demo_txrec] 0x2A) 64 32 =
     Some [txrec_frame 0x2A demo_txrec, txrec_frame 0x2A demo_txrec]"
proof -
  have "\<forall>r \<in> set [demo_txrec, demo_txrec]. txrec_ok r"
    "length (concat (map txrec_bytes [demo_txrec, demo_txrec])) \<le> 61" by code_simp+
  from host_encode_decode [OF this, of "0x2A"] show ?thesis by simp
qed



end
