(* ===== verification/Ring_Buf.thy ===== *)
theory Ring_Buf
  imports Pcan_Proto "HOL-Library.Multiset"
begin

text \<open>
  The frame queues, \<open>main/ringbuf.c\<close>. The FreeRTOS semaphores are external: they enter as a
  record of operations \<open>sem_api\<close> on an abstract handle type, with the documented behaviour of
  counting semaphores as the hypothesis \<open>counting_sems\<close>; the heap enters as an allocation
  function. \<open>None\<close> in a handle field is the NULL handle.

  The operations are functions of a whole call on a ring nobody else is using; \<open>Ring_Steps\<close> models
  the same calls statement by statement. The contract of a bounded queue is the locale
  \<open>bounded_fifo\<close>, interpreted on both push variants.
\<close>

subsection \<open>Semaphores\<close>

record 's sem_api =
  sem_take :: "'s \<Rightarrow> u32 \<Rightarrow> bool \<times> 's"
  sem_give :: "'s \<Rightarrow> 's"
  sem_count :: "'s \<Rightarrow> nat"
  sem_max :: "'s \<Rightarrow> nat"

text \<open>
  The documented behaviour: a take succeeds exactly when a token is there and removes it (with
  nobody else running, a timed take on an empty semaphore times out); a give adds a token up to
  the maximum fixed at creation.
\<close>

definition counting_sems :: "'s sem_api \<Rightarrow> bool" where
  "counting_sems api \<longleftrightarrow>
     (\<forall>s t. (fst (sem_take api s t) \<longleftrightarrow> 0 < sem_count api s) \<and>
            sem_count api (snd (sem_take api s t)) = sem_count api s - 1 \<and>
            sem_max api (snd (sem_take api s t)) = sem_max api s) \<and>
     (\<forall>s. sem_max api (sem_give api s) = sem_max api s \<and>
          (sem_count api s < sem_max api s \<longrightarrow> sem_count api (sem_give api s) = sem_count api s + 1))"

subsection \<open>The ring\<close>

definition RB_PUSH_LOCK_TIMEOUT_MS :: u32 where [simp]: "RB_PUSH_LOCK_TIMEOUT_MS = 5"
definition portMAX_DELAY :: u32 where [simp]: "portMAX_DELAY = 0xFFFFFFFF"

record 's pcan_ringbuf =
  rb_slots :: "pcan_frame list"
  rb_capacity :: nat
  rb_head :: nat
  rb_tail :: nat
  rb_lock :: "'s option"
  rb_items :: "'s option"
  rb_spaces :: "'s option"
  rb_dropped :: u32

definition zero_rb :: "'s pcan_ringbuf" where
  "zero_rb = \<lparr>rb_slots = [], rb_capacity = 0, rb_head = 0, rb_tail = 0, rb_lock = None,
     rb_items = None, rb_spaces = None, rb_dropped = 0\<rparr>"

text \<open>\<open>sizeof(pcan_frame_t)\<close> and \<open>SIZE_MAX\<close> of the 32-bit target.\<close>

definition sizeof_pcan_frame :: nat where [simp]: "sizeof_pcan_frame = 20"
definition SIZE_MAX :: nat where [simp]: "SIZE_MAX = 4294967295"

text \<open>
  \<open>pcan_rb_init\<close>. The allocator gets the size in bytes and whether the block is to come from
  PSRAM, and returns the storage with whatever it holds. The list in the result names what the
  failure path releases.
\<close>

datatype 's rb_resource = Storage | Sem 's

definition rb_release :: "'s pcan_ringbuf \<Rightarrow> bool \<Rightarrow> 's rb_resource list" where
  "rb_release rb has_slots =
     (case rb_items rb of Some s \<Rightarrow> [Sem s] | None \<Rightarrow> []) @
     (case rb_spaces rb of Some s \<Rightarrow> [Sem s] | None \<Rightarrow> []) @
     (case rb_lock rb of Some s \<Rightarrow> [Sem s] | None \<Rightarrow> []) @
     (if has_slots then [Storage] else [])"

definition pcan_rb_init ::
    "(nat \<Rightarrow> bool \<Rightarrow> pcan_frame list option) \<Rightarrow> 's option \<Rightarrow> (nat \<Rightarrow> nat \<Rightarrow> 's option) \<Rightarrow>
     's pcan_ringbuf \<Rightarrow> nat \<Rightarrow> bool \<Rightarrow> bool \<times> 's pcan_ringbuf \<times> 's rb_resource list" where
  "pcan_rb_init alloc mutex counting rb cap use_psram =
     (if cap = 0 then (False, rb, [])
      else if cap > SIZE_MAX div sizeof_pcan_frame then (False, zero_rb, [])
      else
        let bytes = cap * sizeof_pcan_frame;
            sl = (case alloc bytes use_psram of
                    Some xs \<Rightarrow> Some xs
                  | None \<Rightarrow> if use_psram then alloc bytes False else None)
        in case sl of
             None \<Rightarrow> (False, zero_rb, rb_release zero_rb False)
           | Some xs \<Rightarrow>
               case mutex of
                 None \<Rightarrow> (False, zero_rb, rb_release zero_rb True)
               | Some l \<Rightarrow>
                   let rb = zero_rb\<lparr>rb_slots := xs, rb_lock := Some l, rb_items := counting cap 0,
                              rb_spaces := counting cap cap\<rparr>
                   in if rb_items rb = None \<or> rb_spaces rb = None
                      then (False, zero_rb, rb_release rb True)
                      else (True, rb\<lparr>rb_capacity := cap, rb_head := 0, rb_tail := 0, rb_dropped := 0\<rparr>,
                            []))"

definition pcan_rb_deinit :: "'s pcan_ringbuf \<Rightarrow> bool \<Rightarrow> 's pcan_ringbuf \<times> 's rb_resource list" where
  "pcan_rb_deinit rb has_slots = (zero_rb, rb_release rb has_slots)"

text \<open>Index advance shared by both ends, and the two copies.\<close>

definition rb_next :: "nat \<Rightarrow> nat \<Rightarrow> nat" where
  "rb_next cap i = (if i + 1 \<ge> cap then 0 else i + 1)"

definition pcan_rb_push_impl ::
    "'s sem_api \<Rightarrow> 's pcan_ringbuf \<Rightarrow> pcan_frame \<Rightarrow> bool \<Rightarrow> bool \<times> 's pcan_ringbuf" where
  "pcan_rb_push_impl api rb frame count_drop =
     (case (rb_lock rb, rb_items rb, rb_spaces rb) of
        (Some l, Some it, Some sp) \<Rightarrow>
          (case sem_take api sp 0 of
             (False, sp) \<Rightarrow>
               (False, if count_drop then rb\<lparr>rb_spaces := Some sp, rb_dropped := rb_dropped rb + 1\<rparr>
                       else rb\<lparr>rb_spaces := Some sp\<rparr>)
           | (True, sp) \<Rightarrow>
               (case sem_take api l RB_PUSH_LOCK_TIMEOUT_MS of
                  (False, l) \<Rightarrow>
                    let rb = rb\<lparr>rb_spaces := Some (sem_give api sp), rb_lock := Some l\<rparr>
                    in (False, if count_drop then rb\<lparr>rb_dropped := rb_dropped rb + 1\<rparr> else rb)
                | (True, l) \<Rightarrow>
                    (True, rb\<lparr>rb_spaces := Some sp, rb_slots := (rb_slots rb)[rb_head rb := frame],
                             rb_head := rb_next (rb_capacity rb) (rb_head rb),
                             rb_lock := Some (sem_give api l), rb_items := Some (sem_give api it)\<rparr>)))
      | _ \<Rightarrow> (False, rb))"

definition pcan_rb_push :: "'s sem_api \<Rightarrow> 's pcan_ringbuf \<Rightarrow> pcan_frame \<Rightarrow> bool \<times> 's pcan_ringbuf" where
  "pcan_rb_push api rb frame = pcan_rb_push_impl api rb frame True"

definition pcan_rb_try_push :: "'s sem_api \<Rightarrow> 's pcan_ringbuf \<Rightarrow> pcan_frame \<Rightarrow> bool \<times> 's pcan_ringbuf" where
  "pcan_rb_try_push api rb frame = pcan_rb_push_impl api rb frame False"

definition pcan_rb_pop ::
    "'s sem_api \<Rightarrow> 's pcan_ringbuf \<Rightarrow> u32 \<Rightarrow> pcan_frame option \<times> 's pcan_ringbuf" where
  "pcan_rb_pop api rb ticks_to_wait =
     (case (rb_lock rb, rb_items rb, rb_spaces rb) of
        (Some l, Some it, Some sp) \<Rightarrow>
          (case sem_take api it ticks_to_wait of
             (False, it) \<Rightarrow> (None, rb\<lparr>rb_items := Some it\<rparr>)
           | (True, it) \<Rightarrow>
               let l = snd (sem_take api l portMAX_DELAY); out = rb_slots rb ! rb_tail rb
               in (Some out, rb\<lparr>rb_items := Some it,
                               rb_tail := rb_next (rb_capacity rb) (rb_tail rb),
                               rb_lock := Some (sem_give api l), rb_spaces := Some (sem_give api sp)\<rparr>))
      | _ \<Rightarrow> (None, rb))"

definition pcan_rb_count :: "'s sem_api \<Rightarrow> 's pcan_ringbuf \<Rightarrow> u32" where
  "pcan_rb_count api rb =
     (case rb_items rb of None \<Rightarrow> 0 | Some it \<Rightarrow> word_of_nat (sem_count api it))"

definition pcan_rb_take_dropped :: "'s sem_api \<Rightarrow> 's pcan_ringbuf \<Rightarrow> u32 \<times> 's pcan_ringbuf" where
  "pcan_rb_take_dropped api rb =
     (case rb_lock rb of
        None \<Rightarrow> (0, rb)
      | Some l \<Rightarrow> (rb_dropped rb, rb\<lparr>rb_dropped := 0,
                     rb_lock := Some (sem_give api (snd (sem_take api l portMAX_DELAY)))\<rparr>))"

subsection \<open>The bounded-queue contract\<close>

text \<open>What the clients of a frame queue rely on, whatever its representation.\<close>

locale bounded_fifo =
  fixes ok :: "'q \<Rightarrow> bool" and contents :: "'q \<Rightarrow> 'a list" and room :: "'q \<Rightarrow> nat"
    and put :: "'q \<Rightarrow> 'a \<Rightarrow> bool \<times> 'q" and get :: "'q \<Rightarrow> 'a option \<times> 'q"
  assumes bounded: "ok q \<Longrightarrow> length (contents q) \<le> room q"
    and put_ok: "ok q \<Longrightarrow> ok (snd (put q x))"
    and put_room: "ok q \<Longrightarrow> room (snd (put q x)) = room q"
    and put_accepts: "ok q \<Longrightarrow> fst (put q x) \<longleftrightarrow> length (contents q) < room q"
    and put_contents: "ok q \<Longrightarrow> contents (snd (put q x)) =
      (if length (contents q) < room q then contents q @ [x] else contents q)"
    and get_ok: "ok q \<Longrightarrow> ok (snd (get q))"
    and get_room: "ok q \<Longrightarrow> room (snd (get q)) = room q"
    and get_result: "ok q \<Longrightarrow> fst (get q) = (case contents q of [] \<Rightarrow> None | x # _ \<Rightarrow> Some x)"
    and get_contents: "ok q \<Longrightarrow> contents (snd (get q)) = tl (contents q)"
begin

text \<open>Offering a list of elements: those accepted and the queue afterwards.\<close>

fun put_all :: "'q \<Rightarrow> 'a list \<Rightarrow> 'a list \<times> 'q" where
  "put_all q [] = ([], q)"
| "put_all q (x # xs) =
     (let (b, q') = put q x; (ys, q'') = put_all q' xs in (if b then x # ys else ys, q''))"

fun drain :: "nat \<Rightarrow> 'q \<Rightarrow> 'a list \<times> 'q" where
  "drain 0 q = ([], q)"
| "drain (Suc n) q =
     (case get q of
        (None, q') \<Rightarrow> ([], q')
      | (Some x, q') \<Rightarrow> let (xs, q'') = drain n q' in (x # xs, q''))"

lemma put_all_contents:
  "ok q \<Longrightarrow> ok (snd (put_all q xs)) \<and> room (snd (put_all q xs)) = room q \<and>
    fst (put_all q xs) = take (room q - length (contents q)) xs \<and>
    contents (snd (put_all q xs)) = contents q @ take (room q - length (contents q)) xs"
proof (induction xs arbitrary: q)
  case Nil
  then show ?case by simp
next
  case (Cons x xs)
  let ?q = "snd (put q x)"
  have IH: "ok (snd (put_all ?q xs)) \<and> room (snd (put_all ?q xs)) = room q \<and>
      fst (put_all ?q xs) = take (room q - length (contents ?q)) xs \<and>
      contents (snd (put_all ?q xs)) = contents ?q @ take (room q - length (contents ?q)) xs"
    using Cons.IH [OF put_ok [OF Cons.prems]] by (simp add: put_room [OF Cons.prems])
  show ?case
  proof (cases "length (contents q) < room q")
    case True
    then obtain k where "room q - length (contents q) = Suc k"
      by (metis Suc_diff_Suc)
    moreover from this have "room q - Suc (length (contents q)) = k" by simp
    ultimately show ?thesis
      using IH True put_accepts [OF Cons.prems, of x] put_contents [OF Cons.prems, of x]
      by (simp add: split_beta Let_def)
  next
    case False
    then show ?thesis
      using IH put_accepts [OF Cons.prems, of x] put_contents [OF Cons.prems, of x]
      by (simp add: split_beta Let_def)
  qed
qed

lemma drain_contents:
  "ok q \<Longrightarrow> fst (drain n q) = take n (contents q) \<and> contents (snd (drain n q)) = drop n (contents q) \<and>
    ok (snd (drain n q))"
proof (induction n arbitrary: q)
  case 0
  then show ?case by simp
next
  case (Suc n)
  note IH = Suc.IH [OF get_ok [OF Suc.prems]]
  show ?case
    using IH get_result [OF Suc.prems] get_contents [OF Suc.prems] get_ok [OF Suc.prems]
    by (cases "get q"; cases "contents q") (auto simp: split_beta Let_def)
qed

text \<open>What was offered comes back, in order, up to the room that was left.\<close>

lemma put_all_drain:
  assumes "ok q" "contents q = []"
  shows "fst (drain (length xs) (snd (put_all q xs))) = take (room q) xs"
  using put_all_contents [OF assms(1), of xs] drain_contents [of "snd (put_all q xs)" "length xs"]
    assms(2) by (simp add: min_def)

end

subsection \<open>The ring between calls\<close>

definition sem_is :: "'s sem_api \<Rightarrow> 's option \<Rightarrow> nat \<Rightarrow> nat \<Rightarrow> bool" where
  "sem_is api h n m \<longleftrightarrow> (case h of None \<Rightarrow> False | Some s \<Rightarrow> sem_count api s = n \<and> sem_max api s = m)"

definition rb_used :: "'s sem_api \<Rightarrow> 's pcan_ringbuf \<Rightarrow> nat" where
  "rb_used api rb = (case rb_items rb of None \<Rightarrow> 0 | Some s \<Rightarrow> sem_count api s)"

definition rb_ok :: "'s sem_api \<Rightarrow> 's pcan_ringbuf \<Rightarrow> bool" where
  "rb_ok api rb \<longleftrightarrow>
     0 < rb_capacity rb \<and> rb_capacity rb < 2 ^ 32 \<and> length (rb_slots rb) = rb_capacity rb \<and>
     rb_tail rb < rb_capacity rb \<and> rb_used api rb \<le> rb_capacity rb \<and>
     rb_head rb = (rb_tail rb + rb_used api rb) mod rb_capacity rb \<and>
     sem_is api (rb_lock rb) 1 1 \<and> sem_is api (rb_items rb) (rb_used api rb) (rb_capacity rb) \<and>
     sem_is api (rb_spaces rb) (rb_capacity rb - rb_used api rb) (rb_capacity rb)"

definition rb_contents :: "'s sem_api \<Rightarrow> 's pcan_ringbuf \<Rightarrow> pcan_frame list" where
  "rb_contents api rb =
     map (\<lambda>i. rb_slots rb ! ((rb_tail rb + i) mod rb_capacity rb)) [0..<rb_used api rb]"

lemma rb_next_mod: "i < cap \<Longrightarrow> rb_next cap i = (i + 1) mod cap"
  by (cases "i + 1 = cap") (simp_all add: rb_next_def)

lemma counting_take:
  assumes "counting_sems api"
  shows "sem_count api (snd (sem_take api s t)) = sem_count api s - 1"
    "sem_max api (snd (sem_take api s t)) = sem_max api s"
  using assms by (simp_all add: counting_sems_def)

lemma counting_take_yes:
  "counting_sems api \<Longrightarrow> 0 < sem_count api s \<Longrightarrow> sem_take api s t = (True, snd (sem_take api s t))"
  by (simp add: counting_sems_def prod_eq_iff)

lemma counting_take_no:
  "counting_sems api \<Longrightarrow> sem_count api s = 0 \<Longrightarrow> sem_take api s t = (False, snd (sem_take api s t))"
  by (simp add: counting_sems_def prod_eq_iff)

lemma counting_give:
  assumes "counting_sems api"
  shows "sem_max api (sem_give api s) = sem_max api s"
    "sem_count api s < sem_max api s \<Longrightarrow> sem_count api (sem_give api s) = sem_count api s + 1"
  using assms by (simp_all add: counting_sems_def)

text \<open>Two positions less than a lap apart lie in different slots.\<close>

lemma mod_lap_neq:
  fixes a b cap :: nat
  assumes "a < b" "b < a + cap"
  shows "a mod cap \<noteq> b mod cap"
proof
  assume "a mod cap = b mod cap"
  then have "cap dvd b - a" using assms(1) mod_eq_dvd_iff_nat [of a b cap] by simp
  moreover have "0 < b - a" "b - a < cap" using assms by simp_all
  ultimately show False using nat_dvd_not_less by blast
qed

lemma rb_ok_handles:
  assumes "rb_ok api rb"
  obtains l it sp where "rb_lock rb = Some l" "rb_items rb = Some it" "rb_spaces rb = Some sp"
    "sem_count api l = 1" "sem_max api l = 1" "sem_count api it = rb_used api rb"
    "sem_max api it = rb_capacity rb" "sem_count api sp = rb_capacity rb - rb_used api rb"
    "sem_max api sp = rb_capacity rb"
  using assms by (auto simp: rb_ok_def sem_is_def split: option.splits)

text \<open>The effect of a call on a ring that nobody else is using.\<close>

lemma push_impl_accepts:
  fixes f cd
  assumes "counting_sems api" "rb_ok api rb" "rb_used api rb < rb_capacity rb"
  defines "r \<equiv> pcan_rb_push_impl api rb f cd"
  shows "fst r \<and> rb_ok api (snd r) \<and> rb_contents api (snd r) = rb_contents api rb @ [f] \<and>
    rb_capacity (snd r) = rb_capacity rb \<and> rb_dropped (snd r) = rb_dropped rb"
proof -
  obtain l it sp where h: "rb_lock rb = Some l" "rb_items rb = Some it" "rb_spaces rb = Some sp"
    "sem_count api l = 1" "sem_max api l = 1" "sem_count api it = rb_used api rb"
    "sem_max api it = rb_capacity rb" "sem_count api sp = rb_capacity rb - rb_used api rb"
    "sem_max api sp = rb_capacity rb"
    by (rule rb_ok_handles [OF assms(2)])
  define l' sp' where "l' = snd (sem_take api l RB_PUSH_LOCK_TIMEOUT_MS)" and "sp' = snd (sem_take api sp 0)"
  have t: "sem_take api l RB_PUSH_LOCK_TIMEOUT_MS = (True, l')" "sem_take api sp 0 = (True, sp')"
    unfolding l'_def sp'_def using h assms(3) by (intro counting_take_yes [OF assms(1)]; simp)+
  have c: "sem_count api sp' = rb_capacity rb - rb_used api rb - 1" "sem_max api sp' = rb_capacity rb"
    "sem_count api (sem_give api l') = 1" "sem_max api (sem_give api l') = 1"
    "sem_count api (sem_give api it) = rb_used api rb + 1" "sem_max api (sem_give api it) = rb_capacity rb"
    using assms(1,3) h by (simp_all add: l'_def sp'_def counting_take counting_give)
  have hd: "rb_head rb < rb_capacity rb" "rb_head rb = (rb_tail rb + rb_used api rb) mod rb_capacity rb"
    "length (rb_slots rb) = rb_capacity rb" "0 < rb_capacity rb"
    using assms(2) by (auto simp: rb_ok_def)
  define rb' where "rb' = rb\<lparr>rb_spaces := Some sp', rb_slots := (rb_slots rb)[rb_head rb := f],
      rb_head := rb_next (rb_capacity rb) (rb_head rb), rb_lock := Some (sem_give api l'),
      rb_items := Some (sem_give api it)\<rparr>"
  have r: "r = (True, rb')"
    unfolding r_def pcan_rb_push_impl_def rb'_def by (simp add: h t [simplified])
  have used: "rb_used api rb' = rb_used api rb + 1" by (simp add: rb_used_def rb'_def c)
  have "rb_slots rb' ! ((rb_tail rb' + i) mod rb_capacity rb') =
      (if i = rb_used api rb then f else rb_slots rb ! ((rb_tail rb + i) mod rb_capacity rb))"
    if "i < rb_used api rb + 1" for i
  proof (cases "i = rb_used api rb")
    case True
    then show ?thesis using hd by (simp add: rb'_def)
  next
    case False
    then have "(rb_tail rb + i) mod rb_capacity rb \<noteq> rb_head rb"
      unfolding hd(2) using that assms(3) by (intro mod_lap_neq) simp_all
    then show ?thesis using False by (simp add: rb'_def)
  qed
  then have "rb_contents api rb' = rb_contents api rb @ [f]"
    by (simp add: rb_contents_def used cong: map_cong)
  moreover have "rb_ok api rb'"
    using assms(2,3) hd used c unfolding rb_ok_def
    by (simp add: rb'_def rb_next_mod sem_is_def mod_Suc_eq)
  ultimately show ?thesis by (simp add: r rb'_def)
qed

lemma push_impl_full:
  fixes f cd
  assumes "counting_sems api" "rb_ok api rb" "rb_used api rb = rb_capacity rb"
  defines "r \<equiv> pcan_rb_push_impl api rb f cd"
  shows "\<not> fst r \<and> rb_ok api (snd r) \<and> rb_contents api (snd r) = rb_contents api rb \<and>
    rb_capacity (snd r) = rb_capacity rb \<and>
    rb_dropped (snd r) = (if cd then rb_dropped rb + 1 else rb_dropped rb)"
proof -
  obtain l it sp where h: "rb_lock rb = Some l" "rb_items rb = Some it" "rb_spaces rb = Some sp"
    "sem_count api l = 1" "sem_max api l = 1" "sem_count api it = rb_used api rb"
    "sem_max api it = rb_capacity rb" "sem_count api sp = rb_capacity rb - rb_used api rb"
    "sem_max api sp = rb_capacity rb"
    by (rule rb_ok_handles [OF assms(2)])
  define sp' where "sp' = snd (sem_take api sp 0)"
  have t: "sem_take api sp 0 = (False, sp')"
    unfolding sp'_def using h assms(3) by (intro counting_take_no [OF assms(1)]) simp
  have c: "sem_count api sp' = 0" "sem_max api sp' = rb_capacity rb"
    using assms(1,3) h by (simp_all add: sp'_def counting_take)
  define rb' where "rb' = (if cd then rb\<lparr>rb_spaces := Some sp', rb_dropped := rb_dropped rb + 1\<rparr>
      else rb\<lparr>rb_spaces := Some sp'\<rparr>)"
  have r: "r = (False, rb')"
    unfolding r_def pcan_rb_push_impl_def rb'_def by (simp add: h t)
  have f: "rb_used api rb' = rb_used api rb" "rb_contents api rb' = rb_contents api rb"
    "rb_capacity rb' = rb_capacity rb"
    by (simp_all add: rb'_def rb_used_def rb_contents_def)
  have "rb_ok api rb'"
    using assms(2,3) c h unfolding rb_ok_def f by (auto simp: rb'_def sem_is_def)
  with f show ?thesis by (simp add: r) (simp add: rb'_def)
qed

lemma pop_takes:
  fixes ticks
  assumes "counting_sems api" "rb_ok api rb" "0 < rb_used api rb"
  defines "r \<equiv> pcan_rb_pop api rb ticks"
  shows "fst r = Some (hd (rb_contents api rb)) \<and> rb_ok api (snd r) \<and>
    rb_contents api (snd r) = tl (rb_contents api rb) \<and> rb_capacity (snd r) = rb_capacity rb"
proof -
  obtain l it sp where h: "rb_lock rb = Some l" "rb_items rb = Some it" "rb_spaces rb = Some sp"
    "sem_count api l = 1" "sem_max api l = 1" "sem_count api it = rb_used api rb"
    "sem_max api it = rb_capacity rb" "sem_count api sp = rb_capacity rb - rb_used api rb"
    "sem_max api sp = rb_capacity rb"
    by (rule rb_ok_handles [OF assms(2)])
  define l' it' where "l' = snd (sem_take api l portMAX_DELAY)" and "it' = snd (sem_take api it ticks)"
  have t: "sem_take api it ticks = (True, it')"
    unfolding it'_def using h assms(3) by (intro counting_take_yes [OF assms(1)]) simp
  have tail: "rb_tail rb < rb_capacity rb" "0 < rb_capacity rb" "rb_used api rb \<le> rb_capacity rb"
    "rb_head rb = (rb_tail rb + rb_used api rb) mod rb_capacity rb"
    using assms(2) by (auto simp: rb_ok_def)
  have c: "sem_count api it' = rb_used api rb - 1" "sem_max api it' = rb_capacity rb"
    "sem_count api (sem_give api l') = 1" "sem_max api (sem_give api l') = 1"
    "sem_count api (sem_give api sp) = rb_capacity rb - (rb_used api rb - 1)"
    "sem_max api (sem_give api sp) = rb_capacity rb"
    using assms(1,3) h tail by (simp_all add: l'_def it'_def counting_take counting_give)
  define rb' where "rb' = rb\<lparr>rb_items := Some it', rb_tail := rb_next (rb_capacity rb) (rb_tail rb),
      rb_lock := Some (sem_give api l'), rb_spaces := Some (sem_give api sp)\<rparr>"
  have r: "r = (Some (rb_slots rb ! rb_tail rb), rb')"
    unfolding r_def pcan_rb_pop_def rb'_def l'_def by (simp add: h t Let_def)
  have used: "rb_used api rb' = rb_used api rb - 1" by (simp add: rb_used_def rb'_def c)
  have "rb_contents api rb = rb_slots rb ! rb_tail rb #
      map (\<lambda>i. rb_slots rb ! ((rb_tail rb + i) mod rb_capacity rb)) [1..<rb_used api rb]"
    using assms(3) tail by (simp add: rb_contents_def upt_conv_Cons)
  moreover have "rb_contents api rb' = map (\<lambda>i. rb_slots rb ! ((rb_tail rb + Suc i) mod rb_capacity rb))
      [0..<rb_used api rb - 1]"
    unfolding rb_contents_def used using tail by (simp add: rb'_def rb_next_mod mod_simps)
  moreover have "map (\<lambda>i. rb_slots rb ! ((rb_tail rb + Suc i) mod rb_capacity rb)) [0..<rb_used api rb - 1] =
      map (\<lambda>i. rb_slots rb ! ((rb_tail rb + i) mod rb_capacity rb)) [1..<rb_used api rb]"
    by (rule nth_equalityI) simp_all
  moreover have "rb_ok api rb'"
  proof -
    obtain k where k: "rb_used api rb = Suc k" using assms(3) by (cases "rb_used api rb") auto
    have lap: "(Suc (rb_tail rb) mod rb_capacity rb + k) mod rb_capacity rb =
        Suc (rb_tail rb + k) mod rb_capacity rb"
      by (simp add: mod_simps)
    have "rb_used api rb' = k" using used k by simp
    then show ?thesis
      using assms(2) tail c k lap unfolding rb_ok_def
      by (simp add: rb'_def rb_next_mod sem_is_def)
  qed
  ultimately show ?thesis by (simp add: r) (simp add: rb'_def)
qed

lemma pop_empty:
  fixes ticks
  assumes "counting_sems api" "rb_ok api rb" "rb_used api rb = 0"
  defines "r \<equiv> pcan_rb_pop api rb ticks"
  shows "fst r = None \<and> rb_ok api (snd r) \<and> rb_contents api (snd r) = rb_contents api rb \<and>
    rb_capacity (snd r) = rb_capacity rb"
proof -
  obtain l it sp where h: "rb_lock rb = Some l" "rb_items rb = Some it" "rb_spaces rb = Some sp"
    "sem_count api l = 1" "sem_max api l = 1" "sem_count api it = rb_used api rb"
    "sem_max api it = rb_capacity rb" "sem_count api sp = rb_capacity rb - rb_used api rb"
    "sem_max api sp = rb_capacity rb"
    by (rule rb_ok_handles [OF assms(2)])
  define it' where "it' = snd (sem_take api it ticks)"
  have t: "sem_take api it ticks = (False, it')"
    unfolding it'_def using h assms(3) by (intro counting_take_no [OF assms(1)]) simp
  have c: "sem_count api it' = 0" "sem_max api it' = rb_capacity rb"
    using assms(1,3) h by (simp_all add: it'_def counting_take)
  have r: "r = (None, rb\<lparr>rb_items := Some it'\<rparr>)"
    unfolding r_def pcan_rb_pop_def by (simp add: h t)
  have u: "rb_used api (rb\<lparr>rb_items := Some it'\<rparr>) = 0" by (simp add: rb_used_def c)
  show ?thesis
    using assms(2,3) c u by (simp add: r rb_ok_def rb_contents_def sem_is_def)
qed

text \<open>The model as a bounded queue; the state pairs the semaphore operations with the ring.\<close>

type_synonym 's ring = "'s sem_api \<times> 's pcan_ringbuf"

definition ring_ok :: "'s ring \<Rightarrow> bool" where
  "ring_ok q \<longleftrightarrow> counting_sems (fst q) \<and> rb_ok (fst q) (snd q)"

definition ring_contents :: "'s ring \<Rightarrow> pcan_frame list" where
  "ring_contents q = rb_contents (fst q) (snd q)"

definition ring_room :: "'s ring \<Rightarrow> nat" where
  "ring_room q = rb_capacity (snd q)"

definition ring_put :: "'s ring \<Rightarrow> pcan_frame \<Rightarrow> bool \<times> 's ring" where
  "ring_put q f = (let (b, rb) = pcan_rb_push (fst q) (snd q) f in (b, fst q, rb))"

definition ring_try_put :: "'s ring \<Rightarrow> pcan_frame \<Rightarrow> bool \<times> 's ring" where
  "ring_try_put q f = (let (b, rb) = pcan_rb_try_push (fst q) (snd q) f in (b, fst q, rb))"

definition ring_get :: "u32 \<Rightarrow> 's ring \<Rightarrow> pcan_frame option \<times> 's ring" where
  "ring_get ticks q = (let (f, rb) = pcan_rb_pop (fst q) (snd q) ticks in (f, fst q, rb))"

lemma length_rb_contents [simp]: "length (rb_contents api rb) = rb_used api rb"
  by (simp add: rb_contents_def)

lemma rb_used_le: "rb_ok api rb \<Longrightarrow> rb_used api rb \<le> rb_capacity rb"
  by (simp add: rb_ok_def)

lemma rb_contents_eq_Nil: "rb_contents api rb = [] \<longleftrightarrow> rb_used api rb = 0"
  by (simp add: rb_contents_def)

lemma push_impl_fifo:
  fixes f cd
  assumes "counting_sems api" "rb_ok api rb"
  defines "r \<equiv> pcan_rb_push_impl api rb f cd"
  shows "fst r = (rb_used api rb < rb_capacity rb)" "rb_ok api (snd r)"
    "rb_capacity (snd r) = rb_capacity rb"
    "rb_contents api (snd r) = (if rb_used api rb < rb_capacity rb then rb_contents api rb @ [f]
       else rb_contents api rb)"
  using push_impl_accepts [OF assms(1,2), of f cd] push_impl_full [OF assms(1,2), of f cd]
    rb_used_le [OF assms(2)]
  by (cases "rb_used api rb < rb_capacity rb"; simp add: r_def)+

lemma pop_fifo:
  fixes ticks
  assumes "counting_sems api" "rb_ok api rb"
  defines "r \<equiv> pcan_rb_pop api rb ticks"
  shows "fst r = (case rb_contents api rb of [] \<Rightarrow> None | f # _ \<Rightarrow> Some f)" "rb_ok api (snd r)"
    "rb_capacity (snd r) = rb_capacity rb" "rb_contents api (snd r) = tl (rb_contents api rb)"
proof -
  have "fst r = (case rb_contents api rb of [] \<Rightarrow> None | f # _ \<Rightarrow> Some f) \<and> rb_ok api (snd r) \<and>
      rb_capacity (snd r) = rb_capacity rb \<and> rb_contents api (snd r) = tl (rb_contents api rb)"
  proof (cases "rb_contents api rb")
    case Nil
    then show ?thesis
      using pop_empty [OF assms(1,2), of ticks] rb_contents_eq_Nil [of api rb] by (simp add: r_def)
  next
    case (Cons f fs)
    then have "0 < rb_used api rb" using rb_contents_eq_Nil [of api rb] by simp
    with Cons show ?thesis using pop_takes [OF assms(1,2), of ticks] by (simp add: r_def)
  qed
  then show "fst r = (case rb_contents api rb of [] \<Rightarrow> None | f # _ \<Rightarrow> Some f)" "rb_ok api (snd r)"
    "rb_capacity (snd r) = rb_capacity rb" "rb_contents api (snd r) = tl (rb_contents api rb)"
    by simp_all
qed

interpretation push_ring: bounded_fifo ring_ok ring_contents ring_room ring_put "ring_get t" for t
  by unfold_locales
    (auto simp: ring_ok_def ring_contents_def ring_room_def ring_put_def ring_get_def pcan_rb_push_def
      push_impl_fifo pop_fifo rb_used_le split_beta split: list.splits)

interpretation try_ring: bounded_fifo ring_ok ring_contents ring_room ring_try_put "ring_get t" for t
  by unfold_locales
    (auto simp: ring_ok_def ring_contents_def ring_room_def ring_try_put_def ring_get_def
      pcan_rb_try_push_def push_impl_fifo pop_fifo rb_used_le split_beta split: list.splits)

subsection \<open>Initialisation\<close>

text \<open>What the allocator and the FreeRTOS constructors promise when they succeed.\<close>

definition rb_creation_ok ::
    "'s sem_api \<Rightarrow> (nat \<Rightarrow> bool \<Rightarrow> pcan_frame list option) \<Rightarrow> 's option \<Rightarrow> (nat \<Rightarrow> nat \<Rightarrow> 's option) \<Rightarrow> bool"
  where
  "rb_creation_ok api alloc mutex counting \<longleftrightarrow>
     (\<forall>bytes ps xs. alloc bytes ps = Some xs \<longrightarrow> length xs * sizeof_pcan_frame = bytes) \<and>
     (\<forall>l. mutex = Some l \<longrightarrow> sem_count api l = 1 \<and> sem_max api l = 1) \<and>
     (\<forall>m n x. counting m n = Some x \<longrightarrow> sem_count api x = n \<and> sem_max api x = m)"

text \<open>The resources an initialisation acquires, in order, up to its first failure.\<close>

definition rb_acquired ::
    "(nat \<Rightarrow> bool \<Rightarrow> pcan_frame list option) \<Rightarrow> 's option \<Rightarrow> (nat \<Rightarrow> nat \<Rightarrow> 's option) \<Rightarrow> nat \<Rightarrow> bool \<Rightarrow>
     's rb_resource list" where
  "rb_acquired alloc mutex counting cap use_psram =
     (if alloc (cap * sizeof_pcan_frame) use_psram = None \<and>
         (\<not> use_psram \<or> alloc (cap * sizeof_pcan_frame) False = None) then []
      else Storage # (case mutex of None \<Rightarrow> []
        | Some l \<Rightarrow> Sem l # map Sem (List.map_filter id [counting cap 0, counting cap cap])))"

lemma init_ok:
  assumes "pcan_rb_init alloc mutex counting rb0 cap psram = (True, rb, fr)"
    and "rb_creation_ok api alloc mutex counting"
  shows "rb_ok api rb" "rb_contents api rb = []" "rb_capacity rb = cap" "rb_head rb = 0"
    "rb_tail rb = 0" "rb_dropped rb = 0" "fr = []"
proof -
  have small: "0 < cap" "cap < 2 ^ 32" using assms(1) by (auto simp: pcan_rb_init_def split: if_splits)
  from assms(1) obtain xs ps l it sp where r: "alloc (cap * 20) ps = Some xs" "mutex = Some l"
    "counting cap 0 = Some it" "counting cap cap = Some sp" "fr = []"
    "rb = \<lparr>rb_slots = xs, rb_capacity = cap, rb_head = 0, rb_tail = 0, rb_lock = Some l,
           rb_items = Some it, rb_spaces = Some sp, rb_dropped = 0\<rparr>"
    by (auto simp: pcan_rb_init_def zero_rb_def Let_def split: if_splits option.splits)
  have c: "sem_count api l = 1" "sem_max api l = 1" "sem_count api it = 0" "sem_max api it = cap"
    "sem_count api sp = cap" "sem_max api sp = cap" "length xs = cap"
    using assms(2) r(1-4) by (fastforce simp: rb_creation_ok_def)+
  show "rb_ok api rb" "rb_contents api rb = []" "rb_capacity rb = cap" "rb_head rb = 0"
    "rb_tail rb = 0" "rb_dropped rb = 0" "fr = []"
    using r small c by (simp_all add: rb_ok_def rb_used_def sem_is_def rb_contents_def)
qed

subsection \<open>Properties\<close>

text \<open>A failed initialisation leaves the structure zeroed and releases exactly the storage and
  semaphores it had acquired; a successful one releases nothing.\<close>

theorem init_leaks_nothing:
  assumes "0 < cap" "cap \<le> SIZE_MAX div sizeof_pcan_frame"
  shows "\<exists>ok rb fr. pcan_rb_init alloc mutex counting rb0 cap psram = (ok, rb, fr) \<and>
    (if ok then fr = [] else rb = zero_rb \<and> mset fr = mset (rb_acquired alloc mutex counting cap psram))"
proof -
  let ?n = "cap * sizeof_pcan_frame"
  define sl where "sl = (case alloc ?n psram of Some xs \<Rightarrow> Some xs
    | None \<Rightarrow> if psram then alloc ?n False else None)"
  have none: "sl = None \<longleftrightarrow> alloc ?n psram = None \<and> (\<not> psram \<or> alloc ?n False = None)"
    by (auto simp: sl_def split: option.splits)
  have ok: "\<not> cap = 0" "\<not> SIZE_MAX div sizeof_pcan_frame < cap" using assms by simp_all
  show ?thesis
    unfolding pcan_rb_init_def rb_acquired_def if_not_P [OF ok(1)] if_not_P [OF ok(2)] Let_def
      sl_def [symmetric] none [symmetric]
    by (cases sl; cases mutex; cases "counting cap 0"; cases "counting cap cap";
        auto simp: rb_release_def zero_rb_def map_filter_simps)
qed

theorem init_leaks_nothing_witness:
  "\<exists>rb fr. pcan_rb_init (\<lambda>b p. Some []) (Some (1 :: nat)) (\<lambda>m n. if n = 0 then Some 2 else None)
       zero_rb 4 True = (False, rb, fr) \<and> mset fr = mset [Storage, Sem 1, Sem 2]"
  using init_leaks_nothing [of 4 "\<lambda>b p. Some []" "Some (1 :: nat)" "\<lambda>m n. if n = 0 then Some 2 else None" zero_rb True]
  by (auto simp: rb_acquired_def map_filter_simps pcan_rb_init_def zero_rb_def Let_def)

text \<open>C38. Used by one task at a time the ring is a bounded queue: frames pushed into an empty ring come
  back in order, up to the capacity; every push beyond it is refused, and with
  \<open>pcan_rb_push\<close> counted.\<close>

theorem ring_is_bounded_queue:
  assumes "counting_sems api" "rb_ok api rb"
  shows "rb_ok api (snd (pcan_rb_push api rb f)) \<and> rb_ok api (snd (pcan_rb_pop api rb ticks)) \<and>
    fst (pcan_rb_push api rb f) = (length (rb_contents api rb) < rb_capacity rb) \<and>
    rb_contents api (snd (pcan_rb_push api rb f)) =
      (if length (rb_contents api rb) < rb_capacity rb then rb_contents api rb @ [f] else rb_contents api rb) \<and>
    rb_dropped (snd (pcan_rb_push api rb f)) =
      (if length (rb_contents api rb) < rb_capacity rb then rb_dropped rb else rb_dropped rb + 1) \<and>
    fst (pcan_rb_pop api rb ticks) = (case rb_contents api rb of [] \<Rightarrow> None | g # _ \<Rightarrow> Some g) \<and>
    rb_contents api (snd (pcan_rb_pop api rb ticks)) = tl (rb_contents api rb)"
  using push_impl_fifo [OF assms, of f True] pop_fifo [OF assms, of ticks] rb_used_le [OF assms(2)]
    push_impl_accepts [OF assms, of f True] push_impl_full [OF assms, of f True]
  by (auto simp: pcan_rb_push_def)

text \<open>Semaphores as pairs of value and maximum, and an allocator, for the witnesses.\<close>

definition pair_sems :: "(nat \<times> nat) sem_api" where
  "pair_sems = \<lparr>sem_take = (\<lambda>(c, m) t. (0 < c, (c - 1, m))),
     sem_give = (\<lambda>(c, m). (if c < m then c + 1 else c, m)), sem_count = fst, sem_max = snd\<rparr>"

definition demo_alloc :: "nat \<Rightarrow> bool \<Rightarrow> pcan_frame list option" where
  "demo_alloc bytes psram = (if \<not> psram \<and> bytes mod 20 = 0 then Some (replicate (bytes div 20) zero_frame) else None)"

definition demo_ring :: "nat \<Rightarrow> (nat \<times> nat) pcan_ringbuf" where
  "demo_ring cap = fst (snd (pcan_rb_init demo_alloc (Some (1, 1)) (\<lambda>m n. Some (n, m)) zero_rb cap True))"

lemma pair_sems_ok: "counting_sems pair_sems"
  by (auto simp: counting_sems_def pair_sems_def)

lemma demo_creation: "rb_creation_ok pair_sems demo_alloc (Some (1, 1)) (\<lambda>m n. Some (n, m))"
  by (auto simp: rb_creation_ok_def demo_alloc_def pair_sems_def split: if_splits)

lemma demo_init: "pcan_rb_init demo_alloc (Some (1, 1)) (\<lambda>m n. Some (n, m)) zero_rb 2 True = (True, demo_ring 2, [])"
  by (simp add: demo_ring_def pcan_rb_init_def demo_alloc_def Let_def zero_rb_def)

theorem ring_is_bounded_queue_witness:
  "fst (pcan_rb_push pair_sems (demo_ring 2) zero_frame) \<and>
   rb_contents pair_sems (snd (pcan_rb_push pair_sems (demo_ring 2) zero_frame)) = [zero_frame] \<and>
   fst (pcan_rb_pop pair_sems (demo_ring 2) 0) = None"
  using ring_is_bounded_queue [OF pair_sems_ok init_ok(1) [OF demo_init demo_creation], of zero_frame 0]
    init_ok(2,3) [OF demo_init demo_creation]
  by simp

end
