(* ===== verification/Ring_Steps.thy ===== *)
theory Ring_Steps
  imports Ring_Buf
begin

text \<open>
  The calls of \<open>main/ringbuf.c\<close> statement by statement, as the steps of one producer and one
  consumer that interleave (\<open>prod_step\<close>, \<open>cons_step\<close>, \<open>rb_step\<close>). The invariant over all
  interleavings gives FIFO delivery without loss, duplication or overwriting; running the steps
  of one call without interruption gives the function of \<open>Ring_Buf\<close>.
\<close>

subsection \<open>Producer and consumer interleaved\<close>

text \<open>Where the producer is inside \<open>pcan_rb_push_impl\<close> and the consumer inside \<open>pcan_rb_pop\<close> or
  \<open>pcan_rb_take_dropped\<close>. The unlocked \<open>rb->dropped++\<close> is a load and a store.\<close>

datatype prod_pc =
    PIdle | PSpace pcan_frame bool | PLocked pcan_frame | PWrote pcan_frame
  | PAdvanced pcan_frame | PUnlocked pcan_frame | PBackout bool | PDrop | PDropStore u32

datatype cons_pc =
    CIdle | CItem | CLocked | CCopied pcan_frame | CAdvanced pcan_frame | CUnlocked pcan_frame
  | CDWait | CDLocked | CDRead u32 | CDZeroed u32

definition rb_live :: "'s pcan_ringbuf \<Rightarrow> bool" where
  "rb_live rb \<longleftrightarrow> rb_lock rb \<noteq> None \<and> rb_items rb \<noteq> None \<and> rb_spaces rb \<noteq> None"

definition prod_start ::
    "'s sem_api \<Rightarrow> pcan_frame \<Rightarrow> bool \<Rightarrow> 's pcan_ringbuf \<Rightarrow> prod_pc \<times> 's pcan_ringbuf" where
  "prod_start api f cd rb =
     (if \<not> rb_live rb then (PIdle, rb)
      else case sem_take api (the (rb_spaces rb)) 0 of
             (True, sp) \<Rightarrow> (PSpace f cd, rb\<lparr>rb_spaces := Some sp\<rparr>)
           | (False, sp) \<Rightarrow> (if cd then PDrop else PIdle, rb\<lparr>rb_spaces := Some sp\<rparr>))"

fun prod_step :: "'s sem_api \<Rightarrow> prod_pc \<Rightarrow> 's pcan_ringbuf \<Rightarrow> prod_pc \<times> 's pcan_ringbuf" where
  "prod_step api PIdle rb = (PIdle, rb)"
| "prod_step api (PSpace f cd) rb =
     (case sem_take api (the (rb_lock rb)) RB_PUSH_LOCK_TIMEOUT_MS of
        (True, l) \<Rightarrow> (PLocked f, rb\<lparr>rb_lock := Some l\<rparr>)
      | (False, l) \<Rightarrow> (PBackout cd, rb\<lparr>rb_lock := Some l\<rparr>))"
| "prod_step api (PBackout cd) rb =
     (if cd then PDrop else PIdle, rb\<lparr>rb_spaces := Some (sem_give api (the (rb_spaces rb)))\<rparr>)"
| "prod_step api PDrop rb = (PDropStore (rb_dropped rb), rb)"
| "prod_step api (PDropStore v) rb = (PIdle, rb\<lparr>rb_dropped := v + 1\<rparr>)"
| "prod_step api (PLocked f) rb = (PWrote f, rb\<lparr>rb_slots := (rb_slots rb)[rb_head rb := f]\<rparr>)"
| "prod_step api (PWrote f) rb =
     (PAdvanced f, rb\<lparr>rb_head := rb_next (rb_capacity rb) (rb_head rb)\<rparr>)"
| "prod_step api (PAdvanced f) rb =
     (PUnlocked f, rb\<lparr>rb_lock := Some (sem_give api (the (rb_lock rb)))\<rparr>)"
| "prod_step api (PUnlocked f) rb =
     (PIdle, rb\<lparr>rb_items := Some (sem_give api (the (rb_items rb)))\<rparr>)"

definition cons_start :: "'s sem_api \<Rightarrow> u32 \<Rightarrow> 's pcan_ringbuf \<Rightarrow> cons_pc \<times> 's pcan_ringbuf" where
  "cons_start api ticks rb =
     (if \<not> rb_live rb then (CIdle, rb)
      else case sem_take api (the (rb_items rb)) ticks of
             (True, it) \<Rightarrow> (CItem, rb\<lparr>rb_items := Some it\<rparr>)
           | (False, it) \<Rightarrow> (CIdle, rb\<lparr>rb_items := Some it\<rparr>))"

text \<open>A take with \<open>portMAX_DELAY\<close> that finds no token leaves the task waiting where it is.\<close>

fun cons_step :: "'s sem_api \<Rightarrow> cons_pc \<Rightarrow> 's pcan_ringbuf \<Rightarrow> cons_pc \<times> 's pcan_ringbuf" where
  "cons_step api CIdle rb = (CIdle, rb)"
| "cons_step api CItem rb =
     (case sem_take api (the (rb_lock rb)) portMAX_DELAY of
        (True, l) \<Rightarrow> (CLocked, rb\<lparr>rb_lock := Some l\<rparr>)
      | (False, l) \<Rightarrow> (CItem, rb\<lparr>rb_lock := Some l\<rparr>))"
| "cons_step api CLocked rb = (CCopied (rb_slots rb ! rb_tail rb), rb)"
| "cons_step api (CCopied f) rb =
     (CAdvanced f, rb\<lparr>rb_tail := rb_next (rb_capacity rb) (rb_tail rb)\<rparr>)"
| "cons_step api (CAdvanced f) rb =
     (CUnlocked f, rb\<lparr>rb_lock := Some (sem_give api (the (rb_lock rb)))\<rparr>)"
| "cons_step api (CUnlocked f) rb =
     (CIdle, rb\<lparr>rb_spaces := Some (sem_give api (the (rb_spaces rb)))\<rparr>)"
| "cons_step api CDWait rb =
     (case sem_take api (the (rb_lock rb)) portMAX_DELAY of
        (True, l) \<Rightarrow> (CDLocked, rb\<lparr>rb_lock := Some l\<rparr>)
      | (False, l) \<Rightarrow> (CDWait, rb\<lparr>rb_lock := Some l\<rparr>))"
| "cons_step api CDLocked rb = (CDRead (rb_dropped rb), rb)"
| "cons_step api (CDRead v) rb = (CDZeroed v, rb\<lparr>rb_dropped := 0\<rparr>)"
| "cons_step api (CDZeroed v) rb =
     (CIdle, rb\<lparr>rb_lock := Some (sem_give api (the (rb_lock rb)))\<rparr>)"

text \<open>The system, with two ghost logs: the frames the producer has committed, in the order in which
  it advanced the head, and the frames the consumer has copied out.\<close>

record 's ring_sys =
  rg :: "'s pcan_ringbuf"
  pp :: prod_pc
  cp :: cons_pc
  sent :: "pcan_frame list"
  recv :: "pcan_frame list"

definition ring_sys_start :: "'s pcan_ringbuf \<Rightarrow> 's ring_sys" where
  "ring_sys_start rb = \<lparr>rg = rb, pp = PIdle, cp = CIdle, sent = [], recv = []\<rparr>"

definition prod_log :: "'s ring_sys \<Rightarrow> pcan_frame list" where
  "prod_log s = (case pp s of PWrote f \<Rightarrow> sent s @ [f] | _ \<Rightarrow> sent s)"

definition cons_log :: "'s ring_sys \<Rightarrow> pcan_frame list" where
  "cons_log s = (case cp s of CLocked \<Rightarrow> recv s @ [rb_slots (rg s) ! rb_tail (rg s)] | _ \<Rightarrow> recv s)"

inductive rb_step :: "'s sem_api \<Rightarrow> 's ring_sys \<Rightarrow> 's ring_sys \<Rightarrow> bool" for api where
  push_call: "pp s = PIdle \<Longrightarrow> prod_start api f cd (rg s) = (pc, rb) \<Longrightarrow>
     rb_step api s (s\<lparr>rg := rb, pp := pc\<rparr>)"
| producer: "pp s \<noteq> PIdle \<Longrightarrow> prod_step api (pp s) (rg s) = (pc, rb) \<Longrightarrow>
     rb_step api s (s\<lparr>rg := rb, pp := pc, sent := prod_log s\<rparr>)"
| pop_call: "cp s = CIdle \<Longrightarrow> cons_start api ticks (rg s) = (pc, rb) \<Longrightarrow>
     rb_step api s (s\<lparr>rg := rb, cp := pc\<rparr>)"
| take_dropped_call: "cp s = CIdle \<Longrightarrow> rb_lock (rg s) \<noteq> None \<Longrightarrow> rb_step api s (s\<lparr>cp := CDWait\<rparr>)"
| consumer: "cp s \<noteq> CIdle \<Longrightarrow> cons_step api (cp s) (rg s) = (pc, rb) \<Longrightarrow>
     rb_step api s (s\<lparr>rg := rb, cp := pc, recv := cons_log s\<rparr>)"

inductive_cases rb_step_cases: "rb_step api s s'"

text \<open>Tokens in transit: held by the producer, held by the consumer, the lock, a head advanced but
  not yet published, an item taken whose tail is not yet advanced.\<close>

fun held_p :: "prod_pc \<Rightarrow> nat" where
  "held_p (PSpace _ _) = 1" | "held_p (PLocked _) = 1" | "held_p (PWrote _) = 1"
| "held_p (PAdvanced _) = 1" | "held_p (PUnlocked _) = 1" | "held_p (PBackout _) = 1"
| "held_p _ = 0"

fun crit_p :: "prod_pc \<Rightarrow> nat" where
  "crit_p (PLocked _) = 1" | "crit_p (PWrote _) = 1" | "crit_p (PAdvanced _) = 1" | "crit_p _ = 0"

fun unpub_p :: "prod_pc \<Rightarrow> nat" where
  "unpub_p (PAdvanced _) = 1" | "unpub_p (PUnlocked _) = 1" | "unpub_p _ = 0"

fun held_c :: "cons_pc \<Rightarrow> nat" where
  "held_c CItem = 1" | "held_c CLocked = 1" | "held_c (CCopied _) = 1" | "held_c (CAdvanced _) = 1"
| "held_c (CUnlocked _) = 1" | "held_c _ = 0"

fun crit_c :: "cons_pc \<Rightarrow> nat" where
  "crit_c CLocked = 1" | "crit_c (CCopied _) = 1" | "crit_c (CAdvanced _) = 1" | "crit_c CDLocked = 1"
| "crit_c (CDRead _) = 1" | "crit_c (CDZeroed _) = 1" | "crit_c _ = 0"

fun unread_c :: "cons_pc \<Rightarrow> nat" where
  "unread_c CItem = 1" | "unread_c CLocked = 1" | "unread_c (CCopied _) = 1" | "unread_c _ = 0"

fun copied_c :: "cons_pc \<Rightarrow> nat" where
  "copied_c (CCopied _) = 1" | "copied_c _ = 0"

text \<open>The invariant of the interleaving; \<open>popped\<close> counts the frames whose tail advance is done.\<close>

definition sem_val :: "'s sem_api \<Rightarrow> 's option \<Rightarrow> nat" where
  "sem_val api h = (case h of None \<Rightarrow> 0 | Some s \<Rightarrow> sem_count api s)"

definition popped :: "'s ring_sys \<Rightarrow> nat" where
  "popped s = length (recv s) - copied_c (cp s)"

definition sems_inv :: "'s sem_api \<Rightarrow> 's ring_sys \<Rightarrow> bool" where
  "sems_inv api s \<longleftrightarrow>
     (let rb = rg s; cap = rb_capacity rb in
      sem_is api (rb_lock rb) (1 - (crit_p (pp s) + crit_c (cp s))) 1 \<and>
      crit_p (pp s) + crit_c (cp s) \<le> 1 \<and>
      sem_is api (rb_items rb) (sem_val api (rb_items rb)) cap \<and>
      sem_is api (rb_spaces rb) (sem_val api (rb_spaces rb)) cap \<and>
      sem_val api (rb_spaces rb) + sem_val api (rb_items rb) + held_p (pp s) + held_c (cp s) = cap \<and>
      sem_val api (rb_items rb) + unread_c (cp s) + unpub_p (pp s) + popped s = length (sent s) \<and>
      copied_c (cp s) \<le> length (recv s))"

definition data_inv :: "'s ring_sys \<Rightarrow> bool" where
  "data_inv s \<longleftrightarrow>
     (let rb = rg s; cap = rb_capacity rb in
      0 < cap \<and> cap < 2 ^ 32 \<and> length (rb_slots rb) = cap \<and> rb_head rb = length (sent s) mod cap \<and>
      rb_tail rb = popped s mod cap \<and>
      (\<forall>k < length (sent s). popped s \<le> k \<longrightarrow> rb_slots rb ! (k mod cap) = sent s ! k) \<and>
      (\<forall>f. pp s = PWrote f \<longrightarrow> rb_slots rb ! (length (sent s) mod cap) = f) \<and>
      length (recv s) \<le> length (sent s) \<and>
      recv s = take (length (recv s)) (sent s))"

definition rb_inv :: "'s sem_api \<Rightarrow> 's ring_sys \<Rightarrow> bool" where
  "rb_inv api s \<longleftrightarrow> sems_inv api s \<and> data_inv s"

lemmas inv_defs = rb_inv_def sems_inv_def data_inv_def Let_def popped_def

lemma sem_is_Some:
  "sem_is api h n m \<longleftrightarrow> (\<exists>x. h = Some x \<and> sem_count api x = n \<and> sem_max api x = m)"
  by (auto simp: sem_is_def split: option.splits)

lemma sem_val_Some [simp]: "sem_val api (Some x) = sem_count api x"
  by (simp add: sem_val_def)

lemma rb_used_val: "rb_used api rb = sem_val api (rb_items rb)"
  by (simp add: rb_used_def sem_val_def)

lemma held_bounds:
  "unpub_p p \<le> held_p p" "unread_c c \<le> held_c c" "copied_c c \<le> unread_c c"
  by (cases p; simp) (cases c; simp)+

text \<open>The outcome of a take on a handle whose value is known.\<close>

lemma take_cases:
  assumes "counting_sems api" "sem_is api h n m"
  obtains (got) x where "sem_take api (the h) t = (True, x)" "0 < n" "sem_is api (Some x) (n - 1) m"
    | (empty) x where "sem_take api (the h) t = (False, x)" "n = 0" "sem_is api (Some x) 0 m"
proof -
  obtain y where y: "h = Some y" "sem_count api y = n" "sem_max api y = m"
    using assms(2) by (auto simp: sem_is_Some)
  let ?x = "snd (sem_take api y t)"
  have x: "sem_count api ?x = n - 1" "sem_max api ?x = m"
    using counting_take [OF assms(1)] y by simp_all
  show thesis
  proof (cases "n = 0")
    case True
    then show thesis
      using empty [of ?x] counting_take_no [OF assms(1), of y t] y x by (simp add: sem_is_Some)
  next
    case False
    then show thesis
      using got [of ?x] counting_take_yes [OF assms(1), of y t] y x by (simp add: sem_is_Some)
  qed
qed

lemma give_is:
  "counting_sems api \<Longrightarrow> sem_is api h n m \<Longrightarrow> n < m \<Longrightarrow> sem_is api (Some (sem_give api (the h))) (n + 1) m"
  by (auto simp: sem_is_Some counting_give)

lemma sem_is_val: "sem_is api h n m \<Longrightarrow> sem_val api h = n"
  by (auto simp: sem_is_Some)

text \<open>A slot being written is not one that waits to be read.\<close>

lemma write_keeps_queue:
  assumes "data_inv s" "length (sent s) < popped s + rb_capacity (rg s)"
  shows "\<forall>k < length (sent s). popped s \<le> k \<longrightarrow>
    (rb_slots (rg s))[rb_head (rg s) := f] ! (k mod rb_capacity (rg s)) = sent s ! k"
proof (intro allI impI)
  fix k assume k: "k < length (sent s)" "popped s \<le> k"
  then have "k mod rb_capacity (rg s) \<noteq> length (sent s) mod rb_capacity (rg s)"
    using assms(2) by (intro mod_lap_neq) simp_all
  then show "(rb_slots (rg s))[rb_head (rg s) := f] ! (k mod rb_capacity (rg s)) = sent s ! k"
    using assms(1) k by (simp add: data_inv_def Let_def)
qed

lemma inv_push_call:
  assumes C: "counting_sems api" and I: "rb_inv api s" and pc: "pp s = PIdle"
    and st: "prod_start api f cd (rg s) = (pc', rb)"
  shows "rb_inv api (s\<lparr>rg := rb, pp := pc'\<rparr>)"
proof -
  have live: "rb_live (rg s)"
    using I by (auto simp: rb_inv_def sems_inv_def Let_def rb_live_def sem_is_Some)
  let ?v = "sem_val api (rb_spaces (rg s))"
  have sp: "sem_is api (rb_spaces (rg s)) ?v (rb_capacity (rg s))"
    using I by (simp add: rb_inv_def sems_inv_def Let_def)
  show ?thesis
  proof (rule take_cases [OF C sp, of 0])
    fix x assume "sem_take api (the (rb_spaces (rg s))) 0 = (True, x)" "0 < ?v"
      "sem_is api (Some x) (?v - 1) (rb_capacity (rg s))"
    then show ?thesis
      using I st live pc sem_is_val [of api "Some x"]
      by (cases cd) (auto simp: prod_start_def inv_defs)
  next
    fix x assume "sem_take api (the (rb_spaces (rg s))) 0 = (False, x)" "?v = 0"
      "sem_is api (Some x) 0 (rb_capacity (rg s))"
    then show ?thesis
      using I st live pc sem_is_val [of api "Some x"]
      by (cases cd) (auto simp: prod_start_def inv_defs)
  qed
qed

lemma inv_producer:
  assumes C: "counting_sems api" and I: "rb_inv api s" and pc: "pp s \<noteq> PIdle"
    and st: "prod_step api (pp s) (rg s) = (pc', rb)"
  shows "rb_inv api (s\<lparr>rg := rb, pp := pc', sent := prod_log s\<rparr>)"
proof -
  let ?cap = "rb_capacity (rg s)"
  let ?l = "1 - (crit_p (pp s) + crit_c (cp s))"
  have sems: "sem_is api (rb_lock (rg s)) ?l 1" "crit_p (pp s) + crit_c (cp s) \<le> 1"
    "sem_is api (rb_items (rg s)) (sem_val api (rb_items (rg s))) ?cap"
    "sem_is api (rb_spaces (rg s)) (sem_val api (rb_spaces (rg s))) ?cap"
    using I by (simp_all add: inv_defs)
  have D: "data_inv s" using I by (simp add: rb_inv_def)
  show ?thesis
  proof (cases "pp s")
    case PIdle
    then show ?thesis using pc by simp
  next
    case (PSpace f cd)
    show ?thesis
    proof (rule take_cases [OF C sems(1), of RB_PUSH_LOCK_TIMEOUT_MS])
      fix x assume "sem_take api (the (rb_lock (rg s))) RB_PUSH_LOCK_TIMEOUT_MS = (True, x)" "0 < ?l"
        "sem_is api (Some x) (?l - 1) 1"
      then show ?thesis using I st PSpace by (auto simp: inv_defs prod_log_def)
    next
      fix x assume "sem_take api (the (rb_lock (rg s))) RB_PUSH_LOCK_TIMEOUT_MS = (False, x)" "?l = 0"
        "sem_is api (Some x) 0 1"
      then show ?thesis using I st PSpace by (auto simp: inv_defs prod_log_def)
    qed
  next
    case (PLocked f)
    have "sem_val api (rb_spaces (rg s)) + sem_val api (rb_items (rg s)) + 1 + held_c (cp s) = ?cap"
      "sem_val api (rb_items (rg s)) + unread_c (cp s) + popped s = length (sent s)"
      using I PLocked by (simp_all add: rb_inv_def sems_inv_def Let_def)
    then have "length (sent s) < popped s + ?cap" using held_bounds(2) [of "cp s"] by linarith
    from write_keeps_queue [OF D this] show ?thesis
      using I st PLocked by (auto simp: inv_defs prod_log_def)
  next
    case (PWrote f)
    have "rb_next ?cap (length (sent s) mod ?cap) = Suc (length (sent s)) mod ?cap"
      using D by (simp add: rb_next_mod mod_Suc_eq data_inv_def Let_def)
    then show ?thesis
      using I st PWrote by (auto simp: inv_defs prod_log_def nth_append less_Suc_eq)
  next
    case (PAdvanced f)
    have "sem_is api (Some (sem_give api (the (rb_lock (rg s))))) (?l + 1) 1"
      by (rule give_is [OF C sems(1)]) (use PAdvanced in simp)
    then show ?thesis using I st PAdvanced by (auto simp: inv_defs prod_log_def)
  next
    case (PUnlocked f)
    have "sem_is api (Some (sem_give api (the (rb_items (rg s))))) (sem_val api (rb_items (rg s)) + 1) ?cap"
      by (rule give_is [OF C sems(3)]) (use I PUnlocked in \<open>simp add: inv_defs\<close>)
    note g = this sem_is_val [OF this, simplified]
    show ?thesis using I st PUnlocked g by (auto simp: inv_defs prod_log_def)
  next
    case (PBackout cd)
    have "sem_is api (Some (sem_give api (the (rb_spaces (rg s))))) (sem_val api (rb_spaces (rg s)) + 1) ?cap"
      by (rule give_is [OF C sems(4)]) (use I PBackout in \<open>simp add: inv_defs\<close>)
    note g = this sem_is_val [OF this, simplified]
    show ?thesis using I st PBackout g by (cases cd) (auto simp: inv_defs prod_log_def)
  next
    case PDrop
    then show ?thesis using I st by (auto simp: inv_defs prod_log_def)
  next
    case (PDropStore v)
    then show ?thesis using I st by (auto simp: inv_defs prod_log_def)
  qed
qed

lemma inv_pop_call:
  assumes C: "counting_sems api" and I: "rb_inv api s" and pc: "cp s = CIdle"
    and st: "cons_start api ticks (rg s) = (pc', rb)"
  shows "rb_inv api (s\<lparr>rg := rb, cp := pc'\<rparr>)"
proof -
  have live: "rb_live (rg s)"
    using I by (auto simp: rb_inv_def sems_inv_def Let_def rb_live_def sem_is_Some)
  let ?v = "sem_val api (rb_items (rg s))"
  have it: "sem_is api (rb_items (rg s)) ?v (rb_capacity (rg s))"
    using I by (simp add: inv_defs)
  show ?thesis
  proof (rule take_cases [OF C it, of ticks])
    fix x assume "sem_take api (the (rb_items (rg s))) ticks = (True, x)" "0 < ?v"
      "sem_is api (Some x) (?v - 1) (rb_capacity (rg s))"
    then show ?thesis
      using I st live pc sem_is_val [of api "Some x"] by (auto simp: cons_start_def inv_defs)
  next
    fix x assume "sem_take api (the (rb_items (rg s))) ticks = (False, x)" "?v = 0"
      "sem_is api (Some x) 0 (rb_capacity (rg s))"
    then show ?thesis
      using I st live pc sem_is_val [of api "Some x"] by (auto simp: cons_start_def inv_defs)
  qed
qed

lemma inv_take_dropped_call: "rb_inv api s \<Longrightarrow> cp s = CIdle \<Longrightarrow> rb_inv api (s\<lparr>cp := CDWait\<rparr>)"
  by (simp add: inv_defs)

text \<open>The frame at the tail is the oldest one not yet received.\<close>

lemma tail_is_next:
  assumes "rb_inv api s" "cp s = CLocked"
  shows "length (recv s) < length (sent s)"
    "rb_slots (rg s) ! rb_tail (rg s) = sent s ! length (recv s)"
  using assms by (auto simp: inv_defs)

lemma inv_consumer:
  assumes C: "counting_sems api" and I: "rb_inv api s" and pc: "cp s \<noteq> CIdle"
    and st: "cons_step api (cp s) (rg s) = (pc', rb)"
  shows "rb_inv api (s\<lparr>rg := rb, cp := pc', recv := cons_log s\<rparr>)"
proof -
  let ?cap = "rb_capacity (rg s)"
  let ?l = "1 - (crit_p (pp s) + crit_c (cp s))"
  have sems: "sem_is api (rb_lock (rg s)) ?l 1" "crit_p (pp s) + crit_c (cp s) \<le> 1"
    "sem_is api (rb_spaces (rg s)) (sem_val api (rb_spaces (rg s))) ?cap"
    using I by (simp_all add: inv_defs)
  have lock: "crit_c (cp s) = 1 \<Longrightarrow> sem_is api (Some (sem_give api (the (rb_lock (rg s))))) 1 1"
    using give_is [OF C sems(1)] sems(2) by simp
  show ?thesis
  proof (cases "cp s")
    case CIdle
    then show ?thesis using pc by simp
  next
    case CItem
    show ?thesis
    proof (rule take_cases [OF C sems(1), of portMAX_DELAY])
      fix x assume "sem_take api (the (rb_lock (rg s))) portMAX_DELAY = (True, x)" "0 < ?l"
        "sem_is api (Some x) (?l - 1) 1"
      then show ?thesis using I st CItem by (auto simp: inv_defs cons_log_def)
    next
      fix x assume "sem_take api (the (rb_lock (rg s))) portMAX_DELAY = (False, x)" "?l = 0"
        "sem_is api (Some x) 0 1"
      then show ?thesis using I st CItem by (auto simp: inv_defs cons_log_def)
    qed
  next
    case CLocked
    have "recv s @ [rb_slots (rg s) ! rb_tail (rg s)] = take (Suc (length (recv s))) (sent s)"
      using tail_is_next [OF I CLocked] I
      by (simp add: take_Suc_conv_app_nth) (simp add: inv_defs)
    then show ?thesis
      using I st CLocked tail_is_next(1) [OF I CLocked] by (auto simp: inv_defs cons_log_def)
  next
    case (CCopied f)
    have "0 < ?cap" "rb_tail (rg s) = popped s mod ?cap" "Suc (popped s) = length (recv s)"
      using I CCopied by (auto simp: inv_defs)
    then have "rb_next ?cap (rb_tail (rg s)) = length (recv s) mod ?cap"
      by (simp add: rb_next_mod mod_Suc_eq)
    then show ?thesis
      using I st CCopied by (auto simp: inv_defs cons_log_def)
  next
    case (CAdvanced f)
    then show ?thesis using I st lock by (auto simp: inv_defs cons_log_def)
  next
    case (CUnlocked f)
    have "sem_is api (Some (sem_give api (the (rb_spaces (rg s))))) (sem_val api (rb_spaces (rg s)) + 1) ?cap"
      by (rule give_is [OF C sems(3)]) (use I CUnlocked in \<open>simp add: inv_defs\<close>)
    note g = this sem_is_val [OF this, simplified]
    show ?thesis using I st CUnlocked g by (auto simp: inv_defs cons_log_def)
  next
    case CDWait
    show ?thesis
    proof (rule take_cases [OF C sems(1), of portMAX_DELAY])
      fix x assume "sem_take api (the (rb_lock (rg s))) portMAX_DELAY = (True, x)" "0 < ?l"
        "sem_is api (Some x) (?l - 1) 1"
      then show ?thesis using I st CDWait by (auto simp: inv_defs cons_log_def)
    next
      fix x assume "sem_take api (the (rb_lock (rg s))) portMAX_DELAY = (False, x)" "?l = 0"
        "sem_is api (Some x) 0 1"
      then show ?thesis using I st CDWait by (auto simp: inv_defs cons_log_def)
    qed
  next
    case CDLocked
    then show ?thesis using I st by (auto simp: inv_defs cons_log_def)
  next
    case (CDRead v)
    then show ?thesis using I st by (auto simp: inv_defs cons_log_def)
  next
    case (CDZeroed v)
    then show ?thesis using I st lock by (auto simp: inv_defs cons_log_def)
  qed
qed

theorem rb_step_inv: "rb_step api s s' \<Longrightarrow> counting_sems api \<Longrightarrow> rb_inv api s \<Longrightarrow> rb_inv api s'"
  by (erule rb_step_cases)
    (simp_all add: inv_push_call inv_producer inv_pop_call inv_take_dropped_call inv_consumer)

lemma rb_steps_inv: "(rb_step api)\<^sup>*\<^sup>* s s' \<Longrightarrow> counting_sems api \<Longrightarrow> rb_inv api s \<Longrightarrow> rb_inv api s'"
  by (induction rule: rtranclp_induct) (auto dest: rb_step_inv)

lemma start_inv:
  assumes "rb_ok api rb" "rb_head rb = 0" "rb_tail rb = 0" "rb_used api rb = 0"
  shows "rb_inv api (ring_sys_start rb)"
  using assms
  by (auto simp: inv_defs ring_sys_start_def rb_ok_def sem_is_Some sem_val_def)

subsection \<open>Every call can be completed\<close>

fun prod_rank :: "prod_pc \<Rightarrow> nat" where
  "prod_rank PIdle = 0" | "prod_rank (PSpace _ _) = 5" | "prod_rank (PLocked _) = 4"
| "prod_rank (PWrote _) = 3" | "prod_rank (PAdvanced _) = 2" | "prod_rank (PUnlocked _) = 1"
| "prod_rank (PBackout _) = 3" | "prod_rank PDrop = 2" | "prod_rank (PDropStore _) = 1"

fun cons_rank :: "cons_pc \<Rightarrow> nat" where
  "cons_rank CIdle = 0" | "cons_rank CItem = 5" | "cons_rank CLocked = 4" | "cons_rank (CCopied _) = 3"
| "cons_rank (CAdvanced _) = 2" | "cons_rank (CUnlocked _) = 1" | "cons_rank CDWait = 4"
| "cons_rank CDLocked = 3" | "cons_rank (CDRead _) = 2" | "cons_rank (CDZeroed _) = 1"

lemma prod_step_rank: "pc \<noteq> PIdle \<Longrightarrow> prod_rank (fst (prod_step api pc rb)) < prod_rank pc"
  by (cases pc) (auto split: prod.splits bool.splits)

lemma cons_step_rank:
  assumes "counting_sems api" "rb_inv api s" "pp s = PIdle" "cp s \<noteq> CIdle"
  shows "cons_rank (fst (cons_step api (cp s) (rg s))) < cons_rank (cp s)"
proof -
  have free: "crit_c (cp s) = 0 \<Longrightarrow> sem_is api (rb_lock (rg s)) 1 1"
    using assms(2,3) by (simp add: inv_defs)
  have "fst (sem_take api (the (rb_lock (rg s))) portMAX_DELAY)" if "crit_c (cp s) = 0"
    by (rule take_cases [OF assms(1) free [OF that], of portMAX_DELAY]) simp_all
  then show ?thesis
    using assms(4) by (cases "cp s") (auto split: prod.splits bool.splits)
qed

lemma producer_finishes: "\<exists>s'. (rb_step api)\<^sup>*\<^sup>* s s' \<and> pp s' = PIdle \<and> cp s' = cp s"
proof (induction "prod_rank (pp s)" arbitrary: s rule: less_induct)
  case less
  show ?case
  proof (cases "pp s = PIdle")
    case True
    then show ?thesis by blast
  next
    case False
    obtain pc rb where st: "prod_step api (pp s) (rg s) = (pc, rb)" by fastforce
    let ?s = "s\<lparr>rg := rb, pp := pc, sent := prod_log s\<rparr>"
    have "rb_step api s ?s" by (rule rb_step.producer [OF False st])
    moreover have "prod_rank (pp ?s) < prod_rank (pp s)"
      using prod_step_rank [OF False, of api "rg s"] st by simp
    then obtain s' where "(rb_step api)\<^sup>*\<^sup>* ?s s'" "pp s' = PIdle" "cp s' = cp ?s"
      using less.hyps [of ?s] by blast
    ultimately show ?thesis by (auto intro: converse_rtranclp_into_rtranclp)
  qed
qed

lemma consumer_finishes:
  assumes C: "counting_sems api"
  shows "rb_inv api s \<Longrightarrow> pp s = PIdle \<Longrightarrow>
    \<exists>s'. (rb_step api)\<^sup>*\<^sup>* s s' \<and> pp s' = PIdle \<and> cp s' = CIdle"
proof (induction "cons_rank (cp s)" arbitrary: s rule: less_induct)
  case less
  show ?case
  proof (cases "cp s = CIdle")
    case True
    then show ?thesis using less.prems by blast
  next
    case False
    obtain pc rb where st: "cons_step api (cp s) (rg s) = (pc, rb)" by fastforce
    let ?s = "s\<lparr>rg := rb, cp := pc, recv := cons_log s\<rparr>"
    have step: "rb_step api s ?s" by (rule rb_step.consumer [OF False st])
    moreover have "cons_rank (cp ?s) < cons_rank (cp s)"
      using cons_step_rank [OF C less.prems False] st by simp
    then obtain s' where "(rb_step api)\<^sup>*\<^sup>* ?s s'" "pp s' = PIdle" "cp s' = CIdle"
      using less.hyps [of ?s] rb_step_inv [OF step C less.prems(1)] less.prems(2) by auto
    ultimately show ?thesis by (auto intro: converse_rtranclp_into_rtranclp)
  qed
qed

subsection \<open>A call is its steps\<close>

lemma prod_then:
  assumes "pp s \<noteq> PIdle" "prod_step api (pp s) (rg s) = r" "prod_log s = log"
    and "(rb_step api)\<^sup>*\<^sup>* (s\<lparr>rg := snd r, pp := fst r, sent := log\<rparr>) t"
  shows "(rb_step api)\<^sup>*\<^sup>* s t"
proof -
  have "rb_step api s (s\<lparr>rg := snd r, pp := fst r, sent := prod_log s\<rparr>)"
    by (rule rb_step.producer [OF assms(1)]) (simp add: assms(2))
  then show ?thesis using assms(3,4) by (auto intro: converse_rtranclp_into_rtranclp)
qed

lemma cons_then:
  assumes "cp s \<noteq> CIdle" "cons_step api (cp s) (rg s) = r" "cons_log s = log"
    and "(rb_step api)\<^sup>*\<^sup>* (s\<lparr>rg := snd r, cp := fst r, recv := log\<rparr>) t"
  shows "(rb_step api)\<^sup>*\<^sup>* s t"
proof -
  have "rb_step api s (s\<lparr>rg := snd r, cp := fst r, recv := cons_log s\<rparr>)"
    by (rule rb_step.consumer [OF assms(1)]) (simp add: assms(2))
  then show ?thesis using assms(3,4) by (auto intro: converse_rtranclp_into_rtranclp)
qed

lemma push_then:
  assumes "pp s = PIdle" "prod_start api f cd (rg s) = r"
    and "(rb_step api)\<^sup>*\<^sup>* (s\<lparr>rg := snd r, pp := fst r\<rparr>) t"
  shows "(rb_step api)\<^sup>*\<^sup>* s t"
proof -
  have "rb_step api s (s\<lparr>rg := snd r, pp := fst r\<rparr>)"
    by (rule rb_step.push_call [OF assms(1), where f = f and cd = cd]) (simp add: assms(2))
  then show ?thesis using assms(3) by (rule converse_rtranclp_into_rtranclp)
qed

lemma pop_then:
  assumes "cp s = CIdle" "cons_start api ticks (rg s) = r"
    and "(rb_step api)\<^sup>*\<^sup>* (s\<lparr>rg := snd r, cp := fst r\<rparr>) t"
  shows "(rb_step api)\<^sup>*\<^sup>* s t"
proof -
  have "rb_step api s (s\<lparr>rg := snd r, cp := fst r\<rparr>)"
    by (rule rb_step.pop_call [OF assms(1), where ticks = ticks]) (simp add: assms(2))
  then show ?thesis using assms(3) by (rule converse_rtranclp_into_rtranclp)
qed

lemma steps_eqI: "s = t \<Longrightarrow> (rb_step api)\<^sup>*\<^sup>* s t"
  by simp

lemma push_impl_steps:
  assumes "pp s = PIdle" "pcan_rb_push_impl api (rg s) f cd = (b, rb')"
  shows "(rb_step api)\<^sup>*\<^sup>* s (s\<lparr>rg := rb', sent := sent s @ (if b then [f] else [])\<rparr>)"
proof (cases "rb_live (rg s)")
  case False
  then have "(b, rb') = (False, rg s)"
    using assms(2) by (auto simp: pcan_rb_push_impl_def rb_live_def split: option.splits)
  then show ?thesis by simp
next
  case live: True
  then obtain l it sp where h: "rb_lock (rg s) = Some l" "rb_items (rg s) = Some it"
    "rb_spaces (rg s) = Some sp" by (auto simp: rb_live_def)
  obtain g sp' where t1: "sem_take api sp 0 = (g, sp')" by fastforce
  obtain k l' where t2: "sem_take api l RB_PUSH_LOCK_TIMEOUT_MS = (k, l')" by fastforce
  note st = h t1 t2 [simplified] prod_log_def Let_def live assms(1)
  note start = push_then [where f = f and cd = cd, OF assms(1)]
  show ?thesis
    by (insert assms(2) [unfolded pcan_rb_push_impl_def], cases g; cases k; cases cd;
        (rule start, (simp add: st prod_start_def),
         ((rule prod_then, (simp add: st; fail), (simp add: st; fail), (simp add: st; fail))+)?,
         (rule steps_eqI, rule ring_sys.equality; auto simp: st)))
qed

lemma pop_steps:
  assumes "cp s = CIdle" "pcan_rb_pop api (rg s) ticks = (fo, rb')"
    and "rb_live (rg s) \<Longrightarrow> fst (sem_take api (the (rb_lock (rg s))) portMAX_DELAY)"
  shows "(rb_step api)\<^sup>*\<^sup>* s (s\<lparr>rg := rb', recv := recv s @ (case fo of None \<Rightarrow> [] | Some f \<Rightarrow> [f])\<rparr>)"
proof (cases "rb_live (rg s)")
  case False
  then have "(fo, rb') = (None, rg s)"
    using assms(2) by (auto simp: pcan_rb_pop_def rb_live_def split: option.splits)
  then show ?thesis by simp
next
  case live: True
  then obtain l it sp where h: "rb_lock (rg s) = Some l" "rb_items (rg s) = Some it"
    "rb_spaces (rg s) = Some sp" by (auto simp: rb_live_def)
  obtain g it' where t1: "sem_take api it ticks = (g, it')" by fastforce
  obtain l' where t2: "sem_take api l portMAX_DELAY = (True, l')"
    using assms(3) [OF live] h by (cases "sem_take api l portMAX_DELAY") auto
  note st = h t1 t2 [simplified] cons_log_def Let_def live assms(1)
  note start = pop_then [where ticks = ticks, OF assms(1)]
  show ?thesis
    by (insert assms(2) [unfolded pcan_rb_pop_def], cases g;
        (rule start, (simp add: st cons_start_def),
         ((rule cons_then, (simp add: st; fail), (simp add: st; fail), (simp add: st; fail))+)?,
         (rule steps_eqI, rule ring_sys.equality; auto simp: st)))
qed

subsection \<open>Properties\<close>

text \<open>C8. FIFO under every interleaving of one producer and one consumer, from a freshly initialised
  ring: the frames received are a prefix of the frames committed, in order, each once and
  unaltered; never more than the capacity is in between; the two are never both in the critical
  section; and whenever both are between calls, \<open>pcan_rb_count\<close> and the slots hold exactly
  the frames committed and not yet received.\<close>

theorem ring_fifo:
  assumes "counting_sems api" "rb_creation_ok api alloc mutex counting"
    and "pcan_rb_init alloc mutex counting rb0 cap psram = (True, rb, fr)"
    and "(rb_step api)\<^sup>*\<^sup>* (ring_sys_start rb) s"
  shows "recv s = take (length (recv s)) (sent s) \<and> length (recv s) \<le> length (sent s) \<and>
    length (sent s) \<le> length (recv s) + rb_capacity (rg s) \<and>
    crit_p (pp s) + crit_c (cp s) \<le> 1 \<and>
    (pp s = PIdle \<and> cp s = CIdle \<longrightarrow>
       unat (pcan_rb_count api (rg s)) = length (sent s) - length (recv s) \<and>
       rb_contents api (rg s) = drop (length (recv s)) (sent s))"
proof -
  note init = init_ok [OF assms(3,2)]
  have "rb_used api rb = 0" using init(1,2) rb_contents_eq_Nil by blast
  then have "rb_inv api (ring_sys_start rb)" using init by (intro start_inv) auto
  then have I: "rb_inv api s" using rb_steps_inv assms(4,1) by blast
  then have n: "sem_val api (rb_items (rg s)) + unread_c (cp s) + unpub_p (pp s) + popped s = length (sent s)"
    "sem_val api (rb_spaces (rg s)) + sem_val api (rb_items (rg s)) + held_p (pp s) + held_c (cp s) =
      rb_capacity (rg s)" "copied_c (cp s) \<le> length (recv s)"
    by (simp_all add: rb_inv_def sems_inv_def Let_def)
  then have "length (sent s) \<le> popped s + rb_capacity (rg s)"
    using held_bounds(1) [of "pp s"] held_bounds(2) [of "cp s"] by linarith
  then have bound: "length (sent s) \<le> length (recv s) + rb_capacity (rg s)"
    by (simp add: popped_def)
  have quiet: "unat (pcan_rb_count api (rg s)) = length (sent s) - length (recv s) \<and>
      rb_contents api (rg s) = drop (length (recv s)) (sent s)" if "pp s = PIdle" "cp s = CIdle"
  proof -
    have u: "rb_used api (rg s) = length (sent s) - length (recv s)" "rb_capacity (rg s) < 2 ^ 32"
      "rb_used api (rg s) \<le> rb_capacity (rg s)"
      using n that I [unfolded rb_inv_def data_inv_def Let_def] by (simp_all add: popped_def rb_used_val)
    then have "unat (pcan_rb_count api (rg s)) = length (sent s) - length (recv s)"
      by (auto simp: pcan_rb_count_def rb_used_def unat_of_nat split: option.splits)
    moreover have "rb_contents api (rg s) = drop (length (recv s)) (sent s)"
      unfolding rb_contents_def u(1)
      by (rule nth_equalityI) (use I that in \<open>simp_all add: inv_defs mod_simps\<close>)
    ultimately show ?thesis ..
  qed
  show ?thesis using I bound quiet by (auto simp: inv_defs)
qed

text \<open>A reachable state in the middle of a push: the head is advanced, the frame is logged, the lock is
  still held and no item is published.\<close>

definition prod_run :: "'s sem_api \<Rightarrow> 's ring_sys \<Rightarrow> 's ring_sys" where
  "prod_run api s = s\<lparr>rg := snd (prod_step api (pp s) (rg s)), pp := fst (prod_step api (pp s) (rg s)),
     sent := prod_log s\<rparr>"

definition demo_pushing :: "(nat \<times> nat) ring_sys" where
  "demo_pushing = (let s = ring_sys_start (demo_ring 2); r = prod_start pair_sems zero_frame True (rg s) in
     s\<lparr>rg := snd r, pp := fst r\<rparr>)"

definition demo_mid :: "(nat \<times> nat) ring_sys" where
  "demo_mid = prod_run pair_sems (prod_run pair_sems (prod_run pair_sems demo_pushing))"

lemma prod_run_step: "pp s \<noteq> PIdle \<Longrightarrow> rb_step api s (prod_run api s)"
  unfolding prod_run_def by (rule rb_step.producer) simp_all

lemma demo_ring_two: "demo_ring 2 = \<lparr>rb_slots = replicate 2 zero_frame, rb_capacity = 2, rb_head = 0,
    rb_tail = 0, rb_lock = Some (1, 1), rb_items = Some (0, 2), rb_spaces = Some (2, 2), rb_dropped = 0\<rparr>"
  by (simp add: demo_ring_def pcan_rb_init_def demo_alloc_def Let_def zero_rb_def)

lemma demo_pushing_start: "demo_pushing = (ring_sys_start (demo_ring 2))\<lparr>
    rg := (demo_ring 2)\<lparr>rb_spaces := Some (1, 2)\<rparr>, pp := PSpace zero_frame True\<rparr>"
proof -
  have "rb_live (demo_ring 2)" unfolding rb_live_def demo_ring_two by simp
  moreover have "sem_take pair_sems (the (rb_spaces (demo_ring 2))) 0 = (True, 1, 2)"
    by (simp add: demo_ring_two pair_sems_def)
  ultimately have "prod_start pair_sems zero_frame True (demo_ring 2) =
      (PSpace zero_frame True, (demo_ring 2)\<lparr>rb_spaces := Some (1, 2)\<rparr>)"
    by (simp add: prod_start_def)
  then show ?thesis by (simp add: demo_pushing_def ring_sys_start_def)
qed

lemma demo_pushing_pc: "pp demo_pushing = PSpace zero_frame True" "sent demo_pushing = []"
  "rb_lock (rg demo_pushing) = Some (1, 1)"
  by (simp_all add: demo_pushing_start ring_sys_start_def demo_ring_two)

lemma demo_run_pc:
  "pp (prod_run pair_sems demo_pushing) = PLocked zero_frame"
  "pp (prod_run pair_sems (prod_run pair_sems demo_pushing)) = PWrote zero_frame"
  "pp demo_mid = PAdvanced zero_frame" "sent demo_mid = [zero_frame]"
proof -
  define s1 s2 where "s1 = prod_run pair_sems demo_pushing" and "s2 = prod_run pair_sems s1"
  have t: "sem_take pair_sems (1, 1) RB_PUSH_LOCK_TIMEOUT_MS = (True, 0, 1)" by (simp add: pair_sems_def)
  have 1: "pp s1 = PLocked zero_frame" "sent s1 = []"
    unfolding s1_def prod_run_def using t by (simp_all add: demo_pushing_pc prod_log_def)
  have 2: "pp s2 = PWrote zero_frame" "sent s2 = []"
    unfolding s2_def prod_run_def by (simp_all add: 1 prod_log_def)
  have "pp (prod_run pair_sems s2) = PAdvanced zero_frame" "sent (prod_run pair_sems s2) = [zero_frame]"
    unfolding prod_run_def by (simp_all add: 2 prod_log_def)
  with 1 2 show "pp (prod_run pair_sems demo_pushing) = PLocked zero_frame"
    "pp (prod_run pair_sems (prod_run pair_sems demo_pushing)) = PWrote zero_frame"
    "pp demo_mid = PAdvanced zero_frame" "sent demo_mid = [zero_frame]"
    by (simp_all add: s1_def s2_def demo_mid_def)
qed

lemma demo_mid_reachable: "(rb_step pair_sems)\<^sup>*\<^sup>* (ring_sys_start (demo_ring 2)) demo_mid"
proof -
  have extend: "(rb_step api)\<^sup>*\<^sup>* a (prod_run api s)" if "(rb_step api)\<^sup>*\<^sup>* a s" "pp s \<noteq> PIdle"
    for api :: "(nat \<times> nat) sem_api" and a s
    using that(1) prod_run_step [OF that(2), of api] by (rule rtranclp.rtrancl_into_rtrancl)
  have "rb_step pair_sems (ring_sys_start (demo_ring 2)) demo_pushing"
    unfolding demo_pushing_def Let_def
    by (rule rb_step.push_call [where f = zero_frame and cd = True]) (simp_all add: ring_sys_start_def)
  then have 0: "(rb_step pair_sems)\<^sup>*\<^sup>* (ring_sys_start (demo_ring 2)) demo_pushing"
    by (rule r_into_rtranclp)
  have 1: "(rb_step pair_sems)\<^sup>*\<^sup>* (ring_sys_start (demo_ring 2)) (prod_run pair_sems demo_pushing)"
    by (rule extend [OF 0]) (simp add: demo_pushing_pc)
  have 2: "(rb_step pair_sems)\<^sup>*\<^sup>* (ring_sys_start (demo_ring 2))
      (prod_run pair_sems (prod_run pair_sems demo_pushing))"
    by (rule extend [OF 1]) (simp add: demo_run_pc)
  show ?thesis unfolding demo_mid_def by (rule extend [OF 2]) (simp add: demo_run_pc)
qed

theorem ring_fifo_witness:
  "sent demo_mid = [zero_frame] \<and> recv demo_mid = take (length (recv demo_mid)) [zero_frame] \<and>
   crit_p (pp demo_mid) + crit_c (cp demo_mid) \<le> 1"
  using ring_fifo [OF pair_sems_ok demo_creation demo_init demo_mid_reachable] demo_run_pc by simp

text \<open>C20. No deadlock: from every state the interleaving can reach, both sides can run to the end of
  their calls.\<close>

theorem ring_no_deadlock:
  assumes "counting_sems api" "rb_creation_ok api alloc mutex counting"
    and "pcan_rb_init alloc mutex counting rb0 cap psram = (True, rb, fr)"
    and "(rb_step api)\<^sup>*\<^sup>* (ring_sys_start rb) s"
  shows "\<exists>s'. (rb_step api)\<^sup>*\<^sup>* s s' \<and> pp s' = PIdle \<and> cp s' = CIdle"
proof -
  note init = init_ok [OF assms(3,2)]
  have "rb_used api rb = 0" using init(1,2) rb_contents_eq_Nil by blast
  then have "rb_inv api (ring_sys_start rb)" using init by (intro start_inv) auto
  then have I: "rb_inv api s" using rb_steps_inv assms(4,1) by blast
  obtain s1 where s1: "(rb_step api)\<^sup>*\<^sup>* s s1" "pp s1 = PIdle" using producer_finishes by blast
  then have "rb_inv api s1" using rb_steps_inv assms(1) I by blast
  then obtain s2 where "(rb_step api)\<^sup>*\<^sup>* s1 s2" "pp s2 = PIdle" "cp s2 = CIdle"
    using consumer_finishes [OF assms(1)] s1(2) by blast
  then show ?thesis using s1(1) by (meson rtranclp_trans)
qed

theorem ring_no_deadlock_witness:
  "pp demo_mid \<noteq> PIdle \<and>
   (\<exists>s'. (rb_step pair_sems)\<^sup>*\<^sup>* demo_mid s' \<and> pp s' = PIdle \<and> cp s' = CIdle)"
  using ring_no_deadlock [OF pair_sems_ok demo_creation demo_init demo_mid_reachable] demo_run_pc by simp


lemma demo_start_inv: "rb_inv pair_sems (ring_sys_start (demo_ring 2))"
proof -
  note init = init_ok [OF demo_init demo_creation]
  have "rb_used pair_sems (demo_ring 2) = 0" using init(1,2) rb_contents_eq_Nil by blast
  then show ?thesis using init by (intro start_inv) auto
qed


end
