(* ===== verification/Twai_Hal.thy ===== *)
theory Twai_Hal
  imports Pcan_Msg
begin

text \<open>
  The CAN controller layer, \<open>main/twai_hal.c\<close>. ESP-IDF's TWAI driver is external: it enters as a
  record of operations \<open>twai_drv\<close> on an abstract driver state, with its documented state machine
  as the hypothesis \<open>twai_documented\<close>. The three static variables of the file are the record
  \<open>hal\<close>. The alert word is the list of the alerts whose bits are set. The transceiver standby
  pin is disabled in \<open>config.h\<close>, so \<open>twai_set_standby\<close> compiles to nothing.
\<close>

subsection \<open>The driver\<close>

datatype twai_mode = TWAI_MODE_NORMAL | TWAI_MODE_LISTEN_ONLY

datatype twai_timing = TIMING_1MBITS | TIMING_500KBITS | TIMING_250KBITS | TIMING_125KBITS
  | TIMING_100KBITS | TIMING_50KBITS

datatype twai_state = TWAI_UNINSTALLED | TWAI_STATE_STOPPED | TWAI_STATE_RUNNING
  | TWAI_STATE_BUS_OFF | TWAI_STATE_RECOVERING

datatype twai_alert =
    TWAI_ALERT_RX_DATA | TWAI_ALERT_TX_SUCCESS | TWAI_ALERT_TX_FAILED | TWAI_ALERT_RX_QUEUE_FULL
  | TWAI_ALERT_RX_FIFO_OVERRUN | TWAI_ALERT_ABOVE_ERR_WARN | TWAI_ALERT_BELOW_ERR_WARN
  | TWAI_ALERT_ERR_PASS | TWAI_ALERT_ERR_ACTIVE | TWAI_ALERT_BUS_OFF | TWAI_ALERT_BUS_RECOVERED

record twai_message =
  m_identifier :: u32
  m_extd :: bool
  m_rtr :: bool
  m_ss :: bool
  m_self :: bool
  m_dlc :: u8
  m_data :: "u8 list"

record twai_status_info =
  i_state :: twai_state
  i_tx_error_counter :: u32
  i_rx_error_counter :: u32
  i_tx_failed_count :: u32
  i_rx_missed_count :: u32
  i_rx_overrun_count :: u32
  i_arb_lost_count :: u32
  i_bus_error_count :: u32

record twai_general_config =
  g_mode :: twai_mode
  g_tx_queue_len :: u32
  g_rx_queue_len :: u32
  g_alerts :: "twai_alert list"

record 'd twai_drv =
  drv_install :: "twai_general_config \<Rightarrow> twai_timing \<Rightarrow> 'd \<Rightarrow> esp_err \<times> 'd"
  drv_start :: "'d \<Rightarrow> esp_err \<times> 'd"
  drv_stop :: "'d \<Rightarrow> esp_err \<times> 'd"
  drv_uninstall :: "'d \<Rightarrow> esp_err \<times> 'd"
  drv_recover :: "'d \<Rightarrow> esp_err \<times> 'd"
  drv_transmit :: "twai_message \<Rightarrow> u32 \<Rightarrow> 'd \<Rightarrow> esp_err \<times> 'd"
  drv_receive :: "u32 \<Rightarrow> 'd \<Rightarrow> esp_err \<times> twai_message \<times> 'd"
  drv_status :: "'d \<Rightarrow> esp_err \<times> twai_status_info"
  drv_read_alerts :: "'d \<Rightarrow> esp_err \<times> twai_alert list \<times> 'd"
  drv_state :: "'d \<Rightarrow> twai_state"

text \<open>
  The documented state machine of the driver: installing leads to the stopped state, starting
  and stopping move between stopped and running, uninstalling needs the stopped or the bus-off
  state, recovery starts from bus-off; a call that fails changes no state. \<open>drv_state\<close> is the
  state the documentation speaks of, with one more value for the absent driver.
\<close>

definition twai_documented :: "'d twai_drv \<Rightarrow> bool" where
  "twai_documented drv \<longleftrightarrow>
     (\<forall>g t d. drv_state drv (snd (drv_install drv g t d)) =
        (if fst (drv_install drv g t d) = ESP_OK then TWAI_STATE_STOPPED else drv_state drv d)) \<and>
     (\<forall>g t d. fst (drv_install drv g t d) = ESP_OK \<longrightarrow> drv_state drv d = TWAI_UNINSTALLED) \<and>
     (\<forall>d. fst (drv_start drv d) =
            (if drv_state drv d = TWAI_STATE_STOPPED then ESP_OK else ESP_ERR_INVALID_STATE)) \<and>
     (\<forall>d. drv_state drv (snd (drv_start drv d)) =
            (if drv_state drv d = TWAI_STATE_STOPPED then TWAI_STATE_RUNNING else drv_state drv d)) \<and>
     (\<forall>d. fst (drv_stop drv d) =
            (if drv_state drv d = TWAI_STATE_RUNNING then ESP_OK else ESP_ERR_INVALID_STATE)) \<and>
     (\<forall>d. drv_state drv (snd (drv_stop drv d)) =
            (if drv_state drv d = TWAI_STATE_RUNNING then TWAI_STATE_STOPPED else drv_state drv d)) \<and>
     (\<forall>d. fst (drv_uninstall drv d) =
            (if drv_state drv d \<in> {TWAI_STATE_STOPPED, TWAI_STATE_BUS_OFF} then ESP_OK
             else ESP_ERR_INVALID_STATE)) \<and>
     (\<forall>d. drv_state drv (snd (drv_uninstall drv d)) =
            (if drv_state drv d \<in> {TWAI_STATE_STOPPED, TWAI_STATE_BUS_OFF} then TWAI_UNINSTALLED
             else drv_state drv d)) \<and>
     (\<forall>d. drv_state drv (snd (drv_recover drv d)) =
            (if drv_state drv d = TWAI_STATE_BUS_OFF then TWAI_STATE_RECOVERING else drv_state drv d)) \<and>
     (\<forall>d. drv_state drv (snd (snd (drv_read_alerts drv d))) = drv_state drv d)"

subsection \<open>Bit rates\<close>

definition s_supported_bitrates :: "u32 list" where
  "s_supported_bitrates = [1000000, 500000, 250000, 125000, 100000, 50000]"

definition rate_diff :: "u32 \<Rightarrow> u32 \<Rightarrow> u32" where
  "rate_diff bitrate cand = (if bitrate > cand then bitrate - cand else cand - bitrate)"

fun nearest_loop :: "u32 \<Rightarrow> u32 list \<Rightarrow> u32 \<Rightarrow> u32 \<Rightarrow> u32" where
  "nearest_loop bitrate [] best best_diff = best"
| "nearest_loop bitrate (cand # cands) best best_diff =
     (let diff = rate_diff bitrate cand
      in if diff < best_diff then nearest_loop bitrate cands cand diff
         else nearest_loop bitrate cands best best_diff)"

definition nearest_supported_bitrate :: "u32 \<Rightarrow> u32" where
  "nearest_supported_bitrate bitrate =
     (let best = hd s_supported_bitrates
      in nearest_loop bitrate (tl s_supported_bitrates) best (rate_diff bitrate best))"

definition timing_for_bitrate :: "u32 \<Rightarrow> twai_timing option" where
  "timing_for_bitrate bitrate =
     (if bitrate = 1000000 then Some TIMING_1MBITS
      else if bitrate = 500000 then Some TIMING_500KBITS
      else if bitrate = 250000 then Some TIMING_250KBITS
      else if bitrate = 125000 then Some TIMING_125KBITS
      else if bitrate = 100000 then Some TIMING_100KBITS
      else if bitrate = 50000 then Some TIMING_50KBITS
      else None)"

fun btr_lookup :: "(u32 \<times> u8 \<times> u8) list \<Rightarrow> u8 \<Rightarrow> u8 \<Rightarrow> u32" where
  "btr_lookup [] b0 b1 = 0"
| "btr_lookup ((rate, r0, r1) # rows) b0 b1 = (if r0 = b0 \<and> r1 = b1 then rate else btr_lookup rows b0 b1)"

definition pcan_twai_btr_to_bitrate :: "u8 \<Rightarrow> u8 \<Rightarrow> u32" where
  "pcan_twai_btr_to_bitrate b0 b1 = btr_lookup PCAN_BTR_TABLE_INIT b0 b1"

subsection \<open>Life cycle\<close>

datatype pcan_twai_mode = TWAI_HAL_MODE_NORMAL | TWAI_HAL_MODE_LISTEN_ONLY

record hal =
  s_installed :: bool
  s_bitrate :: u32
  s_mode :: pcan_twai_mode

definition hal_init :: hal where
  "hal_init = \<lparr>s_installed = False, s_bitrate = PCAN_USB_DEFAULT_BITRATE, s_mode = TWAI_HAL_MODE_NORMAL\<rparr>"

definition hal_to_twai_mode :: "pcan_twai_mode \<Rightarrow> twai_mode" where
  "hal_to_twai_mode m = (if m = TWAI_HAL_MODE_LISTEN_ONLY then TWAI_MODE_LISTEN_ONLY else TWAI_MODE_NORMAL)"

definition TWAI_HAL_ALERTS :: "twai_alert list" where
  "TWAI_HAL_ALERTS =
     [TWAI_ALERT_RX_DATA, TWAI_ALERT_TX_SUCCESS, TWAI_ALERT_TX_FAILED, TWAI_ALERT_RX_QUEUE_FULL,
      TWAI_ALERT_RX_FIFO_OVERRUN, TWAI_ALERT_ABOVE_ERR_WARN, TWAI_ALERT_BELOW_ERR_WARN,
      TWAI_ALERT_ERR_PASS, TWAI_ALERT_ERR_ACTIVE, TWAI_ALERT_BUS_OFF, TWAI_ALERT_BUS_RECOVERED]"

definition CFG_TWAI_TX_QUEUE_LEN :: u32 where [simp]: "CFG_TWAI_TX_QUEUE_LEN = 32"
definition CFG_TWAI_RX_QUEUE_LEN :: u32 where [simp]: "CFG_TWAI_RX_QUEUE_LEN = 64"

type_synonym 'd can = "hal \<times> 'd"

definition pcan_twai_stop :: "'d twai_drv \<Rightarrow> 'd can \<Rightarrow> esp_err \<times> 'd can" where
  "pcan_twai_stop drv c =
     (let (h, d) = c in
      if \<not> s_installed h then (ESP_OK, h, d)
      else
        let (_, d) = drv_stop drv d; (e, d) = drv_uninstall drv d
        in if e \<noteq> ESP_OK then (e, h, d) else (ESP_OK, h\<lparr>s_installed := False\<rparr>, d))"

text \<open>Installing and starting the driver at a rate that has a timing.\<close>

definition twai_install_start ::
    "'d twai_drv \<Rightarrow> twai_timing \<Rightarrow> u32 \<Rightarrow> pcan_twai_mode \<Rightarrow> 'd can \<Rightarrow> esp_err \<times> 'd can" where
  "twai_install_start drv t snapped mode c =
     (let (h, d) = c;
          g = \<lparr>g_mode = hal_to_twai_mode mode, g_tx_queue_len = CFG_TWAI_TX_QUEUE_LEN,
               g_rx_queue_len = CFG_TWAI_RX_QUEUE_LEN, g_alerts = TWAI_HAL_ALERTS\<rparr>;
          (e, d) = drv_install drv g t d
      in if e \<noteq> ESP_OK then (e, h, d)
         else let (e, d) = drv_start drv d
              in if e \<noteq> ESP_OK then (e, h, snd (drv_uninstall drv d))
                 else (ESP_OK, h\<lparr>s_installed := True, s_bitrate := snapped, s_mode := mode\<rparr>, d))"

text \<open>The part of \<open>pcan_twai_start\<close> after the previous instance is gone.\<close>

definition twai_bring_up :: "'d twai_drv \<Rightarrow> u32 \<Rightarrow> pcan_twai_mode \<Rightarrow> 'd can \<Rightarrow> esp_err \<times> 'd can" where
  "twai_bring_up drv bitrate mode c =
     (let h = fst c;
          bitrate = (if bitrate = 0 then if s_bitrate h \<noteq> 0 then s_bitrate h else PCAN_USB_DEFAULT_BITRATE
                     else bitrate);
          snapped = nearest_supported_bitrate bitrate
      in case timing_for_bitrate snapped of
           None \<Rightarrow> (ESP_ERR_NOT_SUPPORTED, c)
         | Some t \<Rightarrow> twai_install_start drv t snapped mode c)"

definition pcan_twai_start :: "'d twai_drv \<Rightarrow> u32 \<Rightarrow> pcan_twai_mode \<Rightarrow> 'd can \<Rightarrow> esp_err \<times> 'd can" where
  "pcan_twai_start drv bitrate mode c =
     (if s_installed (fst c)
      then let (se, c) = pcan_twai_stop drv c
           in if se \<noteq> ESP_OK then (se, c) else twai_bring_up drv bitrate mode c
      else twai_bring_up drv bitrate mode c)"

definition pcan_twai_reconfigure :: "'d twai_drv \<Rightarrow> u32 \<Rightarrow> pcan_twai_mode \<Rightarrow> 'd can \<Rightarrow> esp_err \<times> 'd can" where
  "pcan_twai_reconfigure drv bitrate mode c =
     (let br = (if bitrate \<noteq> 0 then bitrate else s_bitrate (fst c)) in pcan_twai_start drv br mode c)"

subsection \<open>Transfer\<close>

definition frame_to_message :: "pcan_frame \<Rightarrow> twai_message" where
  "frame_to_message f =
     (let rtr = (fr_flags f AND PCAN_FRAME_FLAG_RTR \<noteq> 0);
          d = (if fr_dlc f > PCAN_FRAME_MAX_DLC then PCAN_FRAME_MAX_DLC else fr_dlc f)
      in \<lparr>m_identifier = fr_id f, m_extd = (fr_flags f AND PCAN_FRAME_FLAG_EXT \<noteq> 0), m_rtr = rtr,
          m_ss = (fr_flags f AND PCAN_FRAME_FLAG_SS \<noteq> 0), m_self = (fr_flags f AND PCAN_FRAME_FLAG_SRR \<noteq> 0),
          m_dlc = d, m_data = (if rtr then replicate 8 0
                               else memcpy_at (replicate 8 0) 0 (take (unat d) (fr_data f)))\<rparr>)"

definition pcan_twai_transmit :: "'d twai_drv \<Rightarrow> pcan_frame \<Rightarrow> u32 \<Rightarrow> 'd can \<Rightarrow> esp_err \<times> 'd can" where
  "pcan_twai_transmit drv frame ticks c =
     (let (h, d) = c in
      if \<not> s_installed h then (ESP_ERR_INVALID_STATE, h, d)
      else if s_mode h = TWAI_HAL_MODE_LISTEN_ONLY then (ESP_ERR_NOT_SUPPORTED, h, d)
      else let (e, d) = drv_transmit drv (frame_to_message frame) ticks d in (e, h, d))"

definition message_to_frame :: "twai_message \<Rightarrow> u16 \<Rightarrow> pcan_frame" where
  "message_to_frame m now16 =
     (let d = (if m_dlc m > PCAN_FRAME_MAX_DLC then PCAN_FRAME_MAX_DLC else m_dlc m)
      in \<lparr>fr_id = m_identifier m, fr_ts16 = now16, fr_dlc = d,
          fr_flags = (if m_extd m then PCAN_FRAME_FLAG_EXT else 0) OR
                     (if m_rtr m then PCAN_FRAME_FLAG_RTR else 0),
          fr_data = (if m_rtr m then replicate 8 0
                     else memcpy_at (replicate 8 0) 0 (take (unat d) (m_data m))),
          fr_writer_id = 0\<rparr>)"

text \<open>\<open>now16\<close> is the value of \<open>pcan_time_now16\<close> at the return of the driver; a result \<open>None\<close> leaves
  the caller's frame untouched.\<close>

definition pcan_twai_receive ::
    "'d twai_drv \<Rightarrow> u16 \<Rightarrow> u32 \<Rightarrow> 'd can \<Rightarrow> esp_err \<times> pcan_frame option \<times> 'd can" where
  "pcan_twai_receive drv now16 ticks c =
     (let (h, d) = c; (e, m, d) = drv_receive drv ticks d
      in if e \<noteq> ESP_OK then (e, None, h, d) else (ESP_OK, Some (message_to_frame m now16), h, d))"

datatype pcan_twai_state = TWAI_HAL_STATE_STOPPED | TWAI_HAL_STATE_RUNNING | TWAI_HAL_STATE_BUS_OFF
  | TWAI_HAL_STATE_RECOVERING

record pcan_twai_status =
  st_state :: pcan_twai_state
  st_tx_error_counter :: u32
  st_rx_error_counter :: u32
  st_tx_failed_count :: u32
  st_rx_missed_count :: u32
  st_rx_overrun_count :: u32
  st_arb_lost_count :: u32
  st_bus_error_count :: u32

definition pcan_twai_get_status :: "'d twai_drv \<Rightarrow> 'd can \<Rightarrow> esp_err \<times> pcan_twai_status" where
  "pcan_twai_get_status drv c =
     (let (e, info) = drv_status drv (snd c)
      in if e \<noteq> ESP_OK
         then (e, \<lparr>st_state = TWAI_HAL_STATE_STOPPED, st_tx_error_counter = 0, st_rx_error_counter = 0,
                   st_tx_failed_count = 0, st_rx_missed_count = 0, st_rx_overrun_count = 0,
                   st_arb_lost_count = 0, st_bus_error_count = 0\<rparr>)
         else
           let s = (case i_state info of
                      TWAI_STATE_RUNNING \<Rightarrow> TWAI_HAL_STATE_RUNNING
                    | TWAI_STATE_BUS_OFF \<Rightarrow> TWAI_HAL_STATE_BUS_OFF
                    | TWAI_STATE_RECOVERING \<Rightarrow> TWAI_HAL_STATE_RECOVERING
                    | _ \<Rightarrow> TWAI_HAL_STATE_STOPPED)
           in (ESP_OK, \<lparr>st_state = s, st_tx_error_counter = i_tx_error_counter info,
                 st_rx_error_counter = i_rx_error_counter info, st_tx_failed_count = i_tx_failed_count info,
                 st_rx_missed_count = i_rx_missed_count info, st_rx_overrun_count = i_rx_overrun_count info,
                 st_arb_lost_count = i_arb_lost_count info, st_bus_error_count = i_bus_error_count info\<rparr>))"

subsection \<open>Alerts\<close>

datatype tx_event = PCAN_TX_EVENT_NONE | PCAN_TX_EVENT_OK | PCAN_TX_EVENT_FAIL

text \<open>The translation of the alert word: transmit event, error mask and whether the bus state
  changed.\<close>

definition alerts_tx_event :: "twai_alert list \<Rightarrow> tx_event" where
  "alerts_tx_event al =
     (if TWAI_ALERT_TX_FAILED \<in> set al then PCAN_TX_EVENT_FAIL
      else if TWAI_ALERT_TX_SUCCESS \<in> set al then PCAN_TX_EVENT_OK else PCAN_TX_EVENT_NONE)"

definition alerts_mask :: "twai_alert list \<Rightarrow> u8" where
  "alerts_mask al =
     (if TWAI_ALERT_RX_QUEUE_FULL \<in> set al \<or> TWAI_ALERT_RX_FIFO_OVERRUN \<in> set al
      then PCAN_USB_ERROR_RXQOVR else 0) OR
     (if TWAI_ALERT_ABOVE_ERR_WARN \<in> set al then PCAN_USB_ERROR_BUS_LIGHT else 0) OR
     (if TWAI_ALERT_ERR_PASS \<in> set al then PCAN_USB_ERROR_BUS_HEAVY else 0) OR
     (if TWAI_ALERT_BUS_OFF \<in> set al then PCAN_USB_ERROR_BUS_OFF else 0)"

definition alerts_state_change :: "twai_alert list \<Rightarrow> bool" where
  "alerts_state_change al \<longleftrightarrow>
     TWAI_ALERT_ABOVE_ERR_WARN \<in> set al \<or> TWAI_ALERT_ERR_PASS \<in> set al \<or>
     TWAI_ALERT_BELOW_ERR_WARN \<in> set al \<or> TWAI_ALERT_ERR_ACTIVE \<in> set al \<or>
     TWAI_ALERT_BUS_OFF \<in> set al \<or> TWAI_ALERT_BUS_RECOVERED \<in> set al"

text \<open>The results are the return value, the error mask and the transmit event.\<close>

definition pcan_twai_service_alerts ::
    "'d twai_drv \<Rightarrow> 'd can \<Rightarrow> (bool \<times> u8 \<times> tx_event) \<times> 'd can" where
  "pcan_twai_service_alerts drv c =
     (let (h, d) = c in
      if \<not> s_installed h then ((False, 0, PCAN_TX_EVENT_NONE), h, d)
      else
        let (e, al, d) = drv_read_alerts drv d
        in if e \<noteq> ESP_OK \<or> al = [] then ((False, 0, PCAN_TX_EVENT_NONE), h, d)
           else
             let d = (if TWAI_ALERT_BUS_OFF \<in> set al then snd (drv_recover drv d) else d);
                 d = (if TWAI_ALERT_BUS_RECOVERED \<in> set al then snd (drv_start drv d) else d)
             in ((alerts_state_change al \<or> alerts_mask al \<noteq> 0, alerts_mask al, alerts_tx_event al), h, d))"

subsection \<open>The nearest rate\<close>

lemma nearest_loop_in: "nearest_loop r cands best d \<in> insert best (set cands)"
  by (induction cands arbitrary: best d) (auto simp: Let_def)

lemma nearest_loop_min:
  "d = rate_diff r best \<Longrightarrow> x \<in> insert best (set cands) \<Longrightarrow>
    rate_diff r (nearest_loop r cands best d) \<le> rate_diff r x"
proof (induction cands arbitrary: best d x)
  case Nil
  then show ?case by simp
next
  case (Cons c cs)
  have c: "rate_diff r (nearest_loop r cs c (rate_diff r c)) \<le> rate_diff r y" if "y \<in> insert c (set cs)" for y
    by (rule Cons.IH [OF refl that])
  have b: "rate_diff r (nearest_loop r cs best d) \<le> rate_diff r y" if "y \<in> insert best (set cs)" for y
    by (rule Cons.IH [OF Cons.prems(1) that])
  show ?case
    using c [of c] c [of x] b [of best] b [of x] Cons.prems by (auto simp: Let_def)
qed

lemma supported_has_timing: "r \<in> set s_supported_bitrates \<longleftrightarrow> timing_for_bitrate r \<noteq> None"
  by (auto simp: s_supported_bitrates_def timing_for_bitrate_def)

lemma nearest_supported: "nearest_supported_bitrate r \<in> set s_supported_bitrates"
  using nearest_loop_in [of r "tl s_supported_bitrates" "hd s_supported_bitrates"]
  by (simp add: nearest_supported_bitrate_def Let_def s_supported_bitrates_def)

lemma nearest_minimal:
  "x \<in> set s_supported_bitrates \<Longrightarrow> rate_diff r (nearest_supported_bitrate r) \<le> rate_diff r x"
  using nearest_loop_min [OF refl, of x "hd s_supported_bitrates" "tl s_supported_bitrates" r]
  by (simp add: nearest_supported_bitrate_def Let_def s_supported_bitrates_def)

lemma nearest_of_supported: "r \<in> set s_supported_bitrates \<Longrightarrow> nearest_supported_bitrate r = r"
proof -
  have "\<forall>r \<in> set s_supported_bitrates. nearest_supported_bitrate r = r" by code_simp
  then show "r \<in> set s_supported_bitrates \<Longrightarrow> nearest_supported_bitrate r = r" by blast
qed

subsection \<open>The mirror of the driver's life cycle\<close>

text \<open>\<open>s_installed\<close> says whether a driver is there, and the recorded rate has a timing.\<close>

definition hal_ok :: "'d twai_drv \<Rightarrow> 'd can \<Rightarrow> bool" where
  "hal_ok drv c \<longleftrightarrow> (s_installed (fst c) \<longleftrightarrow> drv_state drv (snd c) \<noteq> TWAI_UNINSTALLED) \<and>
     s_bitrate (fst c) \<in> set s_supported_bitrates"

lemma drv_laws:
  assumes "twai_documented drv"
  shows "drv_state drv (snd (drv_install drv g t d)) =
      (if fst (drv_install drv g t d) = ESP_OK then TWAI_STATE_STOPPED else drv_state drv d)"
    "fst (drv_install drv g t d) = ESP_OK \<Longrightarrow> drv_state drv d = TWAI_UNINSTALLED"
    "fst (drv_start drv d) =
      (if drv_state drv d = TWAI_STATE_STOPPED then ESP_OK else ESP_ERR_INVALID_STATE)"
    "drv_state drv (snd (drv_start drv d)) =
      (if drv_state drv d = TWAI_STATE_STOPPED then TWAI_STATE_RUNNING else drv_state drv d)"
    "drv_state drv (snd (drv_stop drv d)) =
      (if drv_state drv d = TWAI_STATE_RUNNING then TWAI_STATE_STOPPED else drv_state drv d)"
    "fst (drv_uninstall drv d) =
      (if drv_state drv d \<in> {TWAI_STATE_STOPPED, TWAI_STATE_BUS_OFF} then ESP_OK
       else ESP_ERR_INVALID_STATE)"
    "drv_state drv (snd (drv_uninstall drv d)) =
      (if drv_state drv d \<in> {TWAI_STATE_STOPPED, TWAI_STATE_BUS_OFF} then TWAI_UNINSTALLED
       else drv_state drv d)"
    "drv_state drv (snd (drv_recover drv d)) =
      (if drv_state drv d = TWAI_STATE_BUS_OFF then TWAI_STATE_RECOVERING else drv_state drv d)"
    "drv_state drv (snd (snd (drv_read_alerts drv d))) = drv_state drv d"
  using assms unfolding twai_documented_def by blast+

lemma stop_ok:
  assumes "twai_documented drv" "hal_ok drv c"
  shows "hal_ok drv (snd (pcan_twai_stop drv c))"
    "fst (pcan_twai_stop drv c) = ESP_OK \<longleftrightarrow> drv_state drv (snd c) \<noteq> TWAI_STATE_RECOVERING"
    "fst (pcan_twai_stop drv c) = ESP_OK \<Longrightarrow> \<not> s_installed (fst (snd (pcan_twai_stop drv c)))"
    "fst (snd (pcan_twai_stop drv c)) = (if fst (pcan_twai_stop drv c) = ESP_OK
       then (fst c)\<lparr>s_installed := False\<rparr> else fst c)"
  using assms(2)
  by (cases "drv_state drv (snd c)";
      simp add: pcan_twai_stop_def hal_ok_def drv_laws [OF assms(1)] split_beta Let_def)+

lemma install_start_ok:
  fixes mode t
  assumes "twai_documented drv" "hal_ok drv c" "\<not> s_installed (fst c)" "br \<in> set s_supported_bitrates"
  defines "r \<equiv> twai_install_start drv t br mode c"
  shows "hal_ok drv (snd r)"
    "fst r = ESP_OK \<Longrightarrow> drv_state drv (snd (snd r)) = TWAI_STATE_RUNNING \<and> s_installed (fst (snd r)) \<and>
      s_mode (fst (snd r)) = mode \<and> s_bitrate (fst (snd r)) = br"
    "fst r \<noteq> ESP_OK \<Longrightarrow> fst (snd r) = fst c"
  using assms(2,3,4)
  by (auto simp: r_def twai_install_start_def hal_ok_def drv_laws [OF assms(1)] split_beta Let_def
      split: if_splits)

lemma bring_up_eq:
  assumes "hal_ok drv c"
  obtains t where "twai_bring_up drv bitrate mode c = twai_install_start drv t
    (nearest_supported_bitrate (if bitrate = 0 then s_bitrate (fst c) else bitrate)) mode c"
proof -
  have nz: "s_bitrate (fst c) \<noteq> 0" using assms by (auto simp: hal_ok_def s_supported_bitrates_def)
  obtain t where t: "timing_for_bitrate (nearest_supported_bitrate
      (if bitrate = 0 then s_bitrate (fst c) else bitrate)) = Some t"
    using nearest_supported supported_has_timing by blast
  show thesis
    by (rule that [of t], cases "bitrate = 0") (use nz t in \<open>simp_all add: twai_bring_up_def Let_def\<close>)
qed

lemma bring_up_ok:
  fixes bitrate mode
  assumes "twai_documented drv" "hal_ok drv c" "\<not> s_installed (fst c)"
  defines "r \<equiv> twai_bring_up drv bitrate mode c"
  shows "hal_ok drv (snd r)"
    "fst r = ESP_OK \<Longrightarrow> drv_state drv (snd (snd r)) = TWAI_STATE_RUNNING \<and> s_installed (fst (snd r)) \<and>
      s_mode (fst (snd r)) = mode \<and>
      s_bitrate (fst (snd r)) = nearest_supported_bitrate (if bitrate = 0 then s_bitrate (fst c) else bitrate)"
    "fst r \<noteq> ESP_OK \<Longrightarrow> fst (snd r) = fst c"
proof -
  obtain t where t: "r = twai_install_start drv t
      (nearest_supported_bitrate (if bitrate = 0 then s_bitrate (fst c) else bitrate)) mode c"
    unfolding r_def by (rule bring_up_eq [OF assms(2)])
  note I = install_start_ok [OF assms(1-3) nearest_supported]
  show "hal_ok drv (snd r)"
    "fst r = ESP_OK \<Longrightarrow> drv_state drv (snd (snd r)) = TWAI_STATE_RUNNING \<and> s_installed (fst (snd r)) \<and>
      s_mode (fst (snd r)) = mode \<and>
      s_bitrate (fst (snd r)) = nearest_supported_bitrate (if bitrate = 0 then s_bitrate (fst c) else bitrate)"
    "fst r \<noteq> ESP_OK \<Longrightarrow> fst (snd r) = fst c"
    unfolding t by (rule I) (erule I, erule I)
qed

lemma alerts_ok:
  assumes "twai_documented drv" "hal_ok drv c"
  shows "hal_ok drv (snd (pcan_twai_service_alerts drv c))"
    "fst (snd (pcan_twai_service_alerts drv c)) = fst c"
  using assms(2)
  by (auto simp: pcan_twai_service_alerts_def hal_ok_def drv_laws [OF assms(1)] split_beta Let_def
      split: if_splits)

subsection \<open>The calls of the control task\<close>

datatype can_req = CallStart u32 pcan_twai_mode | CallStop | CallReconfigure u32 pcan_twai_mode | CallAlerts

fun can_call :: "'d twai_drv \<Rightarrow> can_req \<Rightarrow> 'd can \<Rightarrow> 'd can" where
  "can_call drv (CallStart r m) c = snd (pcan_twai_start drv r m c)"
| "can_call drv CallStop c = snd (pcan_twai_stop drv c)"
| "can_call drv (CallReconfigure r m) c = snd (pcan_twai_reconfigure drv r m c)"
| "can_call drv CallAlerts c = snd (pcan_twai_service_alerts drv c)"

lemma start_keeps_ok:
  assumes "twai_documented drv" "hal_ok drv c"
  shows "hal_ok drv (snd (pcan_twai_start drv r m c))"
  using stop_ok [OF assms] bring_up_ok(1) [OF assms(1)] assms(2)
  by (auto simp: pcan_twai_start_def split_beta Let_def)

lemma can_call_ok: "twai_documented drv \<Longrightarrow> hal_ok drv c \<Longrightarrow> hal_ok drv (can_call drv k c)"
  by (cases k) (auto simp: start_keeps_ok stop_ok alerts_ok pcan_twai_reconfigure_def Let_def)

subsection \<open>Properties\<close>

text \<open>Bit rates: every requested rate is served by a supported rate that has a timing, the
  closest one there is; a rate that is itself supported is never changed. So the error branch for
  a missing timing is dead.\<close>

theorem bitrate_snap_is_closest:
  "nearest_supported_bitrate r \<in> set s_supported_bitrates \<and>
    timing_for_bitrate (nearest_supported_bitrate r) \<noteq> None \<and>
    (\<forall>x \<in> set s_supported_bitrates. rate_diff r (nearest_supported_bitrate r) \<le> rate_diff r x) \<and>
    (r \<in> set s_supported_bitrates \<longrightarrow> nearest_supported_bitrate r = r)"
  using nearest_supported [of r] supported_has_timing nearest_minimal nearest_of_supported by blast

theorem bitrate_snap_is_closest_witness:
  "rate_diff 83333 (nearest_supported_bitrate 83333) \<le> rate_diff 83333 100000 \<and>
   nearest_supported_bitrate 250000 = 250000"
  using bitrate_snap_is_closest [of 83333] bitrate_snap_is_closest [of 250000]
  by (simp add: s_supported_bitrates_def)

text \<open>The host's bit-timing table: every row of the PEAK table is recognised with its own rate, and
  every pair of register values outside the table gives 0.\<close>

theorem btr_table_exact:
  "pcan_twai_btr_to_bitrate b0 b1 = r \<and> r \<noteq> 0 \<longleftrightarrow> (r, b0, b1) \<in> set PCAN_BTR_TABLE_INIT"
  by (auto simp: pcan_twai_btr_to_bitrate_def PCAN_BTR_TABLE_INIT_def split: if_splits)


text \<open>A driver that follows the documentation, for the witnesses: its state is the documented state,
  a queue of messages looped back, and the alerts to report.\<close>

type_synonym demo_drv = "twai_state \<times> twai_message list \<times> twai_alert list"

definition no_message :: twai_message where
  "no_message = \<lparr>m_identifier = 0, m_extd = False, m_rtr = False, m_ss = False, m_self = False,
     m_dlc = 0, m_data = replicate 8 0\<rparr>"

definition zero_info :: twai_status_info where
  "zero_info = \<lparr>i_state = TWAI_STATE_RUNNING, i_tx_error_counter = 0, i_rx_error_counter = 0,
     i_tx_failed_count = 0, i_rx_missed_count = 0, i_rx_overrun_count = 0, i_arb_lost_count = 0,
     i_bus_error_count = 0\<rparr>"

definition demo_move :: "twai_state list \<Rightarrow> twai_state \<Rightarrow> demo_drv \<Rightarrow> esp_err \<times> demo_drv" where
  "demo_move from to d = (if fst d \<in> set from then (ESP_OK, to, snd d) else (ESP_ERR_INVALID_STATE, d))"

definition demo_twai :: "demo_drv twai_drv" where
  "demo_twai = \<lparr>drv_install = (\<lambda>g t. demo_move [TWAI_UNINSTALLED] TWAI_STATE_STOPPED),
     drv_start = demo_move [TWAI_STATE_STOPPED] TWAI_STATE_RUNNING,
     drv_stop = demo_move [TWAI_STATE_RUNNING] TWAI_STATE_STOPPED,
     drv_uninstall = demo_move [TWAI_STATE_STOPPED, TWAI_STATE_BUS_OFF] TWAI_UNINSTALLED,
     drv_recover = demo_move [TWAI_STATE_BUS_OFF] TWAI_STATE_RECOVERING,
     drv_transmit = (\<lambda>m t (s, q, al). (ESP_OK, s, q @ [m], al)),
     drv_receive = (\<lambda>t (s, q, al). case q of [] \<Rightarrow> (ESP_ERR_TIMEOUT, no_message, s, q, al)
       | m # q \<Rightarrow> (ESP_OK, m, s, q, al)),
     drv_status = (\<lambda>d. (ESP_OK, zero_info)),
     drv_read_alerts = (\<lambda>(s, q, al). (ESP_OK, al, s, q, [])),
     drv_state = fst\<rparr>"

lemma demo_documented: "twai_documented demo_twai"
  by (auto simp: twai_documented_def demo_twai_def demo_move_def)




text \<open>Silent mode is silent: in listen-only mode no frame reaches the driver; neither does one
  before the driver is installed. In every other case the driver gets exactly the frame's
  identifier and flags, its DLC saturated at 8 and its data.\<close>

theorem silent_mode_never_transmits:
  "pcan_twai_transmit drv f ticks (h, d) =
    (if \<not> s_installed h then (ESP_ERR_INVALID_STATE, h, d)
     else if s_mode h = TWAI_HAL_MODE_LISTEN_ONLY then (ESP_ERR_NOT_SUPPORTED, h, d)
     else (fst (drv_transmit drv (frame_to_message f) ticks d), h,
           snd (drv_transmit drv (frame_to_message f) ticks d))) \<and>
   m_identifier (frame_to_message f) = fr_id f \<and> m_dlc (frame_to_message f) = sat_dlc (fr_dlc f) \<and>
   m_extd (frame_to_message f) = fr_ext f \<and> m_rtr (frame_to_message f) = fr_rtr f \<and>
   m_ss (frame_to_message f) = fr_ss f \<and> m_self (frame_to_message f) = fr_srr f"
  by (simp add: pcan_twai_transmit_def frame_to_message_def split_beta Let_def sat_dlc_def fr_ext_def
      fr_rtr_def fr_ss_def fr_srr_def)

lemma frame_to_message_eq:
  "frame_to_message f = \<lparr>m_identifier = fr_id f, m_extd = fr_ext f, m_rtr = fr_rtr f, m_ss = fr_ss f,
     m_self = fr_srr f, m_dlc = sat_dlc (fr_dlc f),
     m_data = memcpy_at (replicate 8 0) 0 (take (frame_data_bytes f) (fr_data f))\<rparr>"
  by (simp add: frame_to_message_def Let_def sat_dlc_def fr_ext_def fr_rtr_def fr_ss_def fr_srr_def
      frame_data_bytes_def)

lemma message_to_frame_eq:
  "message_to_frame m now16 = \<lparr>fr_id = m_identifier m, fr_ts16 = now16, fr_dlc = sat_dlc (m_dlc m),
     fr_flags = (if m_extd m then 1 else 0) OR (if m_rtr m then 2 else 0),
     fr_data = memcpy_at (replicate 8 0) 0 (if m_rtr m then [] else take (unat (sat_dlc (m_dlc m))) (m_data m)),
     fr_writer_id = 0\<rparr>"
  by (simp add: message_to_frame_def Let_def sat_dlc_def)

lemma sat_dlc_idem [simp]: "sat_dlc (sat_dlc d) = sat_dlc d"
  by (simp add: sat_dlc_def)

text \<open>C32. A frame sent by one device and received by another through the CAN bus keeps its identifier,
  its format, its saturated DLC and the data bytes it carries; single-shot and self-reception
  requests and the writer id stay with the sender, and the frame carries the receiver's tick.\<close>

theorem frame_over_the_bus:
  assumes "frame_ok f"
  shows "message_to_frame (frame_to_message f) now16 =
    \<lparr>fr_id = fr_id f, fr_ts16 = now16, fr_dlc = sat_dlc (fr_dlc f), fr_flags = fr_flags f AND 3,
     fr_data = memcpy_at (replicate 8 0) 0 (take (frame_data_bytes f) (fr_data f)), fr_writer_id = 0\<rparr>"
proof -
  have fl: "(if bit w 0 then 1 else 0) OR (if bit w 1 then 2 else 0) = w AND 3" for w :: u8
  proof (rule bit_word_eqI)
    fix n
    have m: "(3 :: u8) = mask 2" by (simp add: mask_eq_exp_minus_1)
    have "bit (1 :: u8) n \<longleftrightarrow> n = 0" "bit (2 :: u8) n \<longleftrightarrow> n = 1"
      by (auto simp: bit_1_iff bit_2_iff)
    then show "bit ((if bit w 0 then 1 else 0) OR (if bit w 1 then 2 else 0) :: u8) n = bit (w AND 3) n"
      unfolding m by (auto simp: bit_simps less_Suc_eq numeral_2_eq_2 simp del: mask_numeral)
  qed
  have data: "take (unat (sat_dlc x)) (memcpy_at (replicate 8 0) 0 (take (unat (sat_dlc x)) (fr_data f))) =
      take (unat (sat_dlc x)) (fr_data f)" for x
    using assms by (subst take_memcpy_at) (auto simp: frame_ok_def min_absorb2)
  show ?thesis
    unfolding frame_to_message_eq message_to_frame_eq fl [symmetric]
    using data [of "fr_dlc f"]
    by (cases "fr_rtr f") (simp_all add: frame_data_bytes_def fr_ext_def fr_rtr_def)
qed

theorem frame_over_the_bus_witness:
  "fr_data (message_to_frame (frame_to_message demo_frame) 7) = [0xDE, 0xAD, 0, 0, 0, 0, 0, 0]"
  unfolding frame_over_the_bus [OF demo_frame_ok] by code_simp

text \<open>C33. Alerts: a transmission failure reported together with a success is treated as a failure; a
  bus-off starts recovery and a completed recovery restarts the controller; the call returns
  true exactly when the error mask or the bus state has something for the host.\<close>

theorem alerts_translation:
  assumes "twai_documented drv" "s_installed h" "drv_read_alerts drv d = (ESP_OK, al, d')" "al \<noteq> []"
  shows "case pcan_twai_service_alerts drv (h, d) of ((ret, emask, tx), h', d'') \<Rightarrow>
    h' = h \<and> (ret \<longleftrightarrow> alerts_state_change al \<or> emask \<noteq> 0) \<and>
    (tx = PCAN_TX_EVENT_FAIL \<longleftrightarrow> TWAI_ALERT_TX_FAILED \<in> set al) \<and>
    (tx = PCAN_TX_EVENT_OK \<longleftrightarrow> TWAI_ALERT_TX_SUCCESS \<in> set al \<and> TWAI_ALERT_TX_FAILED \<notin> set al) \<and>
    (bit emask 1 \<longleftrightarrow> TWAI_ALERT_RX_QUEUE_FULL \<in> set al \<or> TWAI_ALERT_RX_FIFO_OVERRUN \<in> set al) \<and>
    (bit emask 2 \<longleftrightarrow> TWAI_ALERT_ABOVE_ERR_WARN \<in> set al) \<and> (bit emask 3 \<longleftrightarrow> TWAI_ALERT_ERR_PASS \<in> set al) \<and>
    (bit emask 4 \<longleftrightarrow> TWAI_ALERT_BUS_OFF \<in> set al) \<and>
    (drv_state drv d = TWAI_STATE_BUS_OFF \<and> TWAI_ALERT_BUS_OFF \<in> set al \<longrightarrow>
       drv_state drv d'' = TWAI_STATE_RECOVERING) \<and>
    (drv_state drv d = TWAI_STATE_STOPPED \<and> TWAI_ALERT_BUS_RECOVERED \<in> set al \<longrightarrow>
       drv_state drv d'' = TWAI_STATE_RUNNING)"
proof -
  have b: "drv_state drv d' = drv_state drv d" using drv_laws(9) [OF assms(1), of d] assms(3) by simp
  have m: "bit (alerts_mask al) 1 \<longleftrightarrow> TWAI_ALERT_RX_QUEUE_FULL \<in> set al \<or> TWAI_ALERT_RX_FIFO_OVERRUN \<in> set al"
    "bit (alerts_mask al) 2 \<longleftrightarrow> TWAI_ALERT_ABOVE_ERR_WARN \<in> set al"
    "bit (alerts_mask al) 3 \<longleftrightarrow> TWAI_ALERT_ERR_PASS \<in> set al"
    "bit (alerts_mask al) 4 \<longleftrightarrow> TWAI_ALERT_BUS_OFF \<in> set al"
    by (simp_all add: alerts_mask_def bit_simps)
  show ?thesis
    using assms(2-4) b m
    by (simp add: pcan_twai_service_alerts_def Let_def drv_laws [OF assms(1)] alerts_tx_event_def)
qed

theorem alerts_translation_witness:
  "fst (snd (snd (pcan_twai_service_alerts demo_twai
     (\<lparr>s_installed = True, s_bitrate = 500000, s_mode = TWAI_HAL_MODE_NORMAL\<rparr>,
      TWAI_STATE_BUS_OFF, [], [TWAI_ALERT_BUS_OFF])))) = TWAI_STATE_RECOVERING"
  using alerts_translation [OF demo_documented,
      of "\<lparr>s_installed = True, s_bitrate = 500000, s_mode = TWAI_HAL_MODE_NORMAL\<rparr>"
         "(TWAI_STATE_BUS_OFF, [], [TWAI_ALERT_BUS_OFF])" "[TWAI_ALERT_BUS_OFF]" "(TWAI_STATE_BUS_OFF, [], [])"]
  by (auto simp: demo_twai_def split_beta)

end
