(* ===== verification/Can_Tx.thy ===== *)
theory Can_Tx
  imports Twai_Hal Ring_Buf "HOL-Library.Sublist"
begin

text \<open>
  The transmit side of \<open>main/main.c\<close>: the loop body of \<open>can_tx_task\<close> with its rule that one frame at a
  time belongs to the driver, and \<open>ctrl_service_alerts\<close>, which turns driver alerts into the
  completion events that end the ownership. \<open>tx_move\<close> lets the task, the control task, the driver
  and the USB side take turns; its driver moves are what the TWAI documentation allows.

  The task outranks the control task on the same core, so a pass of its loop is one move; the
  control task can be interrupted between any two of its statements, and the bus acts at any time.
\<close>

subsection \<open>Queues and the task's state\<close>

definition EVENT_QUEUE_LEN :: nat where [simp]: "EVENT_QUEUE_LEN = 8"

text \<open>\<open>xQueueSend\<close> with a zero timeout.\<close>

definition queue_send :: "'a list \<Rightarrow> 'a \<Rightarrow> 'a list" where
  "queue_send q x = (if length q < EVENT_QUEUE_LEN then q @ [x] else q)"

datatype tx_done_event = CAN_TX_EVENT_OK | CAN_TX_EVENT_FAIL | CAN_TX_EVENT_ABORT

definition CAN_TX_CONFIRM_SLICES :: u32 where [simp]: "CAN_TX_CONFIRM_SLICES = 5"
definition TWAI_CALL_TIMEOUT_MS :: u32 where [simp]: "TWAI_CALL_TIMEOUT_MS = 20"

record tx_task =
  tk_pending :: pcan_frame
  tk_have :: bool
  tk_inflight :: bool
  tk_misses :: u32
  tk_timeout_retries :: u32
  tk_state_retries :: u32
  tk_resubmits :: u32
  tk_confirm_timeouts :: u32
  tk_listen_drops :: u32

definition tx_task_start :: tx_task where
  "tx_task_start = \<lparr>tk_pending = zero_frame, tk_have = False, tk_inflight = False, tk_misses = 0,
     tk_timeout_retries = 0, tk_state_retries = 0, tk_resubmits = 0, tk_confirm_timeouts = 0,
     tk_listen_drops = 0\<rparr>"

subsection \<open>One pass of \<open>can_tx_task\<close>\<close>

text \<open>Submitting the pending frame: stale events are drained first, and only acceptance by the driver
  makes the frame outstanding. \<open>xmit\<close> is the driver call.\<close>

definition can_tx_submit ::
    "(pcan_frame \<Rightarrow> 'c \<Rightarrow> esp_err \<times> 'c) \<Rightarrow> tx_task \<Rightarrow> 'c \<Rightarrow> tx_task \<times> tx_done_event list \<times> 'c" where
  "can_tx_submit xmit t c =
     (let (e, c) = xmit (tk_pending t) c;
          t = (if e = ESP_OK then t\<lparr>tk_inflight := True, tk_misses := 0\<rparr>
               else if e = ESP_ERR_TIMEOUT then t\<lparr>tk_timeout_retries := tk_timeout_retries t + 1\<rparr>
               else if e = ESP_ERR_INVALID_STATE then t\<lparr>tk_state_retries := tk_state_retries t + 1\<rparr>
               else if e = ESP_ERR_NOT_SUPPORTED
               then t\<lparr>tk_listen_drops := tk_listen_drops t + 1, tk_have := False\<rparr>
               else t\<lparr>tk_state_retries := tk_state_retries t + 1\<rparr>)
      in (t, [], c))"

text \<open>Waiting for the outcome of the outstanding frame, for one slice.\<close>

definition can_tx_await :: "tx_task \<Rightarrow> tx_done_event list \<Rightarrow> tx_task \<times> tx_done_event list" where
  "can_tx_await t q =
     (case q of
        ev # q \<Rightarrow>
          let t = t\<lparr>tk_inflight := False, tk_misses := 0\<rparr>
          in (if ev = CAN_TX_EVENT_OK then t\<lparr>tk_have := False\<rparr>
              else t\<lparr>tk_resubmits := tk_resubmits t + 1\<rparr>, q)
      | [] \<Rightarrow>
          let t = t\<lparr>tk_misses := tk_misses t + 1\<rparr>
          in (if tk_misses t = CAN_TX_CONFIRM_SLICES
              then t\<lparr>tk_confirm_timeouts := tk_confirm_timeouts t + 1\<rparr> else t, []))"

definition can_tx_work ::
    "(pcan_frame \<Rightarrow> 'c \<Rightarrow> esp_err \<times> 'c) \<Rightarrow> tx_task \<Rightarrow> tx_done_event list \<Rightarrow> 'c \<Rightarrow>
     tx_task \<times> tx_done_event list \<times> 'c" where
  "can_tx_work xmit t q c =
     (if \<not> tk_inflight t then can_tx_submit xmit t c
      else let (t, q) = can_tx_await t q in (t, q, c))"

text \<open>The pass after the park check. \<open>pop\<close> takes a frame from the ring, within the call timeout.\<close>

definition can_tx_pass ::
    "('r \<Rightarrow> pcan_frame option \<times> 'r) \<Rightarrow> (pcan_frame \<Rightarrow> 'c \<Rightarrow> esp_err \<times> 'c) \<Rightarrow>
     tx_task \<Rightarrow> 'r \<Rightarrow> tx_done_event list \<Rightarrow> 'c \<Rightarrow> tx_task \<times> 'r \<times> tx_done_event list \<times> 'c" where
  "can_tx_pass pop xmit t r q c =
     (if \<not> tk_have t then
        case pop r of
          (None, r) \<Rightarrow> (t, r, q, c)
        | (Some f, r) \<Rightarrow>
            let (t, q, c) = can_tx_work xmit (t\<lparr>tk_pending := f, tk_have := True\<rparr>) q c in (t, r, q, c)
      else let (t, q, c) = can_tx_work xmit t q c in (t, r, q, c))"

text \<open>The pass on the real ring and the real controller layer.\<close>

definition can_tx_task_pass ::
    "'s sem_api \<Rightarrow> 'd twai_drv \<Rightarrow> tx_task \<Rightarrow> 's pcan_ringbuf \<Rightarrow> tx_done_event list \<Rightarrow> 'd can \<Rightarrow>
     tx_task \<times> 's pcan_ringbuf \<times> tx_done_event list \<times> 'd can" where
  "can_tx_task_pass api drv =
     can_tx_pass (\<lambda>r. pcan_rb_pop api r TWAI_CALL_TIMEOUT_MS) (\<lambda>f. pcan_twai_transmit drv f TWAI_CALL_TIMEOUT_MS)"

subsection \<open>\<open>ctrl_service_alerts\<close>\<close>

text \<open>The completion events one service call posts, in this order.\<close>

definition ctrl_tx_events :: "u8 \<Rightarrow> tx_event \<Rightarrow> tx_done_event list" where
  "ctrl_tx_events pcan_err ev =
     (if ev \<noteq> PCAN_TX_EVENT_NONE
      then [if ev = PCAN_TX_EVENT_FAIL then CAN_TX_EVENT_FAIL else CAN_TX_EVENT_OK] else []) @
     (if pcan_err AND PCAN_USB_ERROR_BUS_OFF \<noteq> 0 then [CAN_TX_EVENT_ABORT] else [])"

definition ctrl_service_alerts ::
    "'d twai_drv \<Rightarrow> 'd can \<Rightarrow> u8 list \<Rightarrow> tx_done_event list \<Rightarrow> 'd can \<times> u8 list \<times> tx_done_event list" where
  "ctrl_service_alerts drv c evt done =
     (let ((_, pcan_err, ev), c) = pcan_twai_service_alerts drv c
      in (c, if pcan_err \<noteq> 0 then queue_send evt pcan_err else evt,
          fold (\<lambda>e q. queue_send q e) (ctrl_tx_events pcan_err ev) done))"

subsection \<open>The task, the control task, the driver and the host together\<close>

text \<open>The control task, seen from the transmit path: it has events of its last alert service to post;
  it has parked the TWAI tasks and has or has not yet serviced the alerts; it has torn the driver
  down and still has to post. Only in the first position can the transmit task run.\<close>

datatype tx_ctrl = KFree "tx_done_event list" | KHeld "tx_done_event list" bool | KTorn "tx_done_event list"

text \<open>The last four fields are ghosts: everything the host put into the ring, everything taken from
  it, what of that was not discarded because the bus was in listen-only mode, and the frames that
  went over the wire.\<close>

record tx_sys =
  ts_task :: tx_task
  ts_ring :: "pcan_frame list"
  ts_done :: "tx_done_event list"
  ts_state :: twai_state
  ts_copy :: "pcan_frame option"
  ts_alerts :: "twai_alert list"
  ts_ctrl :: tx_ctrl
  ts_input :: "pcan_frame list"
  ts_taken :: "pcan_frame list"
  ts_kept :: "pcan_frame list"
  ts_wire :: "pcan_frame list"

definition tx_sys_start :: tx_sys where
  "tx_sys_start = \<lparr>ts_task = tx_task_start, ts_ring = [], ts_done = [], ts_state = TWAI_STATE_RUNNING,
     ts_copy = None, ts_alerts = [], ts_ctrl = KFree [], ts_input = [], ts_taken = [], ts_kept = [], ts_wire = []\<rparr>"

definition list_pop :: "'a list \<Rightarrow> 'a option \<times> 'a list" where
  "list_pop xs = (case xs of [] \<Rightarrow> (None, []) | x # xs \<Rightarrow> (Some x, xs))"

text \<open>The driver call with outcome \<open>e\<close>: acceptance leaves a copy with the driver.\<close>

definition offer :: "esp_err \<Rightarrow> pcan_frame \<Rightarrow> pcan_frame option \<Rightarrow> esp_err \<times> pcan_frame option" where
  "offer e f c = (e, if e = ESP_OK then Some f else c)"

text \<open>A pass of the task when the driver answers \<open>e\<close>, with its ghosts.\<close>

definition task_pass :: "esp_err \<Rightarrow> tx_sys \<Rightarrow> tx_sys" where
  "task_pass e s =
     (let (t, r, q, c) = can_tx_pass list_pop (offer e) (ts_task s) (ts_ring s) (ts_done s) (ts_copy s);
          popped = (if tk_have (ts_task s) then [] else take 1 (ts_ring s));
          dropped = (\<not> tk_inflight (ts_task s) \<and> e = ESP_ERR_NOT_SUPPORTED \<and>
            (tk_have (ts_task s) \<or> popped \<noteq> []))
      in s\<lparr>ts_task := t, ts_ring := r, ts_done := q, ts_copy := c, ts_taken := ts_taken s @ popped,
           ts_kept := if dropped then butlast (ts_kept s @ popped) else ts_kept s @ popped\<rparr>)"

text \<open>The alert service seen from the transmit path.\<close>

definition service :: "tx_sys \<Rightarrow> tx_sys" where
  "service s =
     s\<lparr>ts_state := if TWAI_ALERT_BUS_OFF \<in> set (ts_alerts s) then TWAI_STATE_RECOVERING
                   else if TWAI_ALERT_BUS_RECOVERED \<in> set (ts_alerts s) then TWAI_STATE_RUNNING
                   else ts_state s,
       ts_copy := if TWAI_ALERT_BUS_OFF \<in> set (ts_alerts s) then None else ts_copy s, ts_alerts := []\<rparr>"

definition service_events :: "tx_sys \<Rightarrow> tx_done_event list" where
  "service_events s = ctrl_tx_events (alerts_mask (ts_alerts s)) (alerts_tx_event (ts_alerts s))"

text \<open>Control positions in which a completed transmission is reported in vain: after the last alert
  service and before the teardown.\<close>

fun in_window :: "tx_ctrl \<Rightarrow> bool" where
  "in_window (KHeld evs serviced) = serviced" | "in_window _ = False"

text \<open>The moves. With \<open>strict\<close> no transmission completes inside the window.\<close>

inductive tx_move :: "bool \<Rightarrow> tx_sys \<Rightarrow> tx_sys \<Rightarrow> bool" for strict where
  host: "tx_move strict s (s\<lparr>ts_ring := ts_ring s @ [f], ts_input := ts_input s @ [f]\<rparr>)"
| task: "ts_ctrl s = KFree evs \<Longrightarrow> (e = ESP_OK \<Longrightarrow> ts_state s = TWAI_STATE_RUNNING) \<Longrightarrow>
    tx_move strict s (task_pass e s)"
| complete: "ts_state s = TWAI_STATE_RUNNING \<Longrightarrow> ts_copy s = Some f \<Longrightarrow>
    (strict \<Longrightarrow> \<not> in_window (ts_ctrl s)) \<Longrightarrow>
    tx_move strict s (s\<lparr>ts_copy := None, ts_wire := ts_wire s @ [f],
      ts_alerts := ts_alerts s @ [TWAI_ALERT_TX_SUCCESS]\<rparr>)"
| fail: "ts_state s = TWAI_STATE_RUNNING \<Longrightarrow> ts_copy s = Some f \<Longrightarrow>
    tx_move strict s (s\<lparr>ts_copy := None, ts_alerts := ts_alerts s @ [TWAI_ALERT_TX_FAILED]\<rparr>)"
| bus_off: "ts_state s = TWAI_STATE_RUNNING \<Longrightarrow>
    tx_move strict s (s\<lparr>ts_state := TWAI_STATE_BUS_OFF, ts_alerts := ts_alerts s @ [TWAI_ALERT_BUS_OFF]\<rparr>)"
| recovered: "ts_state s = TWAI_STATE_RECOVERING \<Longrightarrow>
    tx_move strict s (s\<lparr>ts_state := TWAI_STATE_STOPPED, ts_alerts := ts_alerts s @ [TWAI_ALERT_BUS_RECOVERED]\<rparr>)"
| service: "ts_ctrl s = KFree [] \<Longrightarrow> tx_move strict s ((service s)\<lparr>ts_ctrl := KFree (service_events s)\<rparr>)"
| post: "ts_ctrl s = KFree (ev # evs) \<Longrightarrow>
    tx_move strict s (s\<lparr>ts_done := queue_send (ts_done s) ev, ts_ctrl := KFree evs\<rparr>)"
| hold: "ts_ctrl s = KFree [] \<Longrightarrow> tx_move strict s (s\<lparr>ts_ctrl := KHeld [] False\<rparr>)"
| held_service: "ts_ctrl s = KHeld [] False \<Longrightarrow>
    tx_move strict s ((service s)\<lparr>ts_ctrl := KHeld (service_events s) True\<rparr>)"
| held_post: "ts_ctrl s = KHeld (ev # evs) b \<Longrightarrow>
    tx_move strict s (s\<lparr>ts_done := queue_send (ts_done s) ev, ts_ctrl := KHeld evs b\<rparr>)"
| teardown: "ts_ctrl s = KHeld [] True \<Longrightarrow> ts_state s \<noteq> TWAI_STATE_RECOVERING \<Longrightarrow>
    st = TWAI_UNINSTALLED \<or> st = TWAI_STATE_RUNNING \<Longrightarrow>
    tx_move strict s (s\<lparr>ts_state := st, ts_copy := None, ts_alerts := [], ts_ctrl := KTorn [CAN_TX_EVENT_ABORT]\<rparr>)"
| teardown_refused: "ts_ctrl s = KHeld [] True \<Longrightarrow> ts_state s = TWAI_STATE_RECOVERING \<Longrightarrow>
    tx_move strict s (s\<lparr>ts_ctrl := KTorn [CAN_TX_EVENT_ABORT]\<rparr>)"
| torn_post: "ts_ctrl s = KTorn (ev # evs) \<Longrightarrow>
    tx_move strict s (s\<lparr>ts_done := queue_send (ts_done s) ev, ts_ctrl := KTorn evs\<rparr>)"
| release: "ts_ctrl s = KTorn [] \<Longrightarrow> tx_move strict s (s\<lparr>ts_ctrl := KFree []\<rparr>)"

subsection \<open>The invariant\<close>

fun posting :: "tx_ctrl \<Rightarrow> tx_done_event list" where
  "posting (KFree evs) = evs" | "posting (KHeld evs b) = evs" | "posting (KTorn evs) = evs"

fun is_free :: "tx_ctrl \<Rightarrow> bool" where
  "is_free (KFree evs) = True" | "is_free _ = False"

lemma service_events_eq:
  "service_events s =
     (if TWAI_ALERT_TX_FAILED \<in> set (ts_alerts s) then [CAN_TX_EVENT_FAIL]
      else if TWAI_ALERT_TX_SUCCESS \<in> set (ts_alerts s) then [CAN_TX_EVENT_OK] else []) @
     (if TWAI_ALERT_BUS_OFF \<in> set (ts_alerts s) then [CAN_TX_EVENT_ABORT] else [])"
proof -
  have "bit (alerts_mask (ts_alerts s)) 4 \<longleftrightarrow> TWAI_ALERT_BUS_OFF \<in> set (ts_alerts s)"
    by (simp add: alerts_mask_def bit_simps)
  then show ?thesis by (simp add: service_events_def ctrl_tx_events_def alerts_tx_event_def)
qed

text \<open>The completion alerts the control task has not read.\<close>

definition unread :: "tx_sys \<Rightarrow> bool" where
  "unread s \<longleftrightarrow> TWAI_ALERT_TX_SUCCESS \<in> set (ts_alerts s) \<or> TWAI_ALERT_TX_FAILED \<in> set (ts_alerts s)"

text \<open>All the verdicts on their way to the task, in order.\<close>

definition verdicts :: "tx_sys \<Rightarrow> tx_done_event list" where
  "verdicts s = ts_done s @ posting (ts_ctrl s) @ service_events s"

definition tx_logs_ok :: "tx_sys \<Rightarrow> bool" where
  "tx_logs_ok s \<longleftrightarrow>
     ts_input s = ts_taken s @ ts_ring s \<and> subseq (ts_kept s) (ts_taken s) \<and>
     (tk_inflight (ts_task s) \<longrightarrow> tk_have (ts_task s)) \<and>
     (tk_have (ts_task s) \<longrightarrow> ts_kept s \<noteq> [] \<and> last (ts_kept s) = tk_pending (ts_task s))"

definition tx_driver_ok :: "tx_sys \<Rightarrow> bool" where
  "tx_driver_ok s \<longleftrightarrow>
     (TWAI_ALERT_BUS_OFF \<in> set (ts_alerts s) \<longrightarrow> ts_state s = TWAI_STATE_BUS_OFF) \<and>
     (TWAI_ALERT_BUS_RECOVERED \<in> set (ts_alerts s) \<longrightarrow> ts_state s = TWAI_STATE_STOPPED) \<and>
     (ts_state s \<noteq> TWAI_STATE_RECOVERING \<or> ts_alerts s = []) \<and>
     (ts_copy s \<noteq> None \<longrightarrow> ts_state s = TWAI_STATE_RUNNING \<or> ts_state s = TWAI_STATE_BUS_OFF)"

definition outstanding :: "tx_sys \<Rightarrow> bool" where
  "outstanding s \<longleftrightarrow> tk_inflight (ts_task s) \<and> ts_copy s = None"

definition tx_events_ok :: "tx_sys \<Rightarrow> bool" where
  "tx_events_ok s \<longleftrightarrow>
     (unread s \<longrightarrow> outstanding s \<and> ts_done s = [] \<and> posting (ts_ctrl s) = []) \<and>
     (\<forall>ev evs. posting (ts_ctrl s) = ev # evs \<longrightarrow>
        evs \<in> {[], [CAN_TX_EVENT_ABORT]} \<and>
        (ev \<noteq> CAN_TX_EVENT_ABORT \<longrightarrow> outstanding s \<and> ts_done s = []) \<and>
        (ev = CAN_TX_EVENT_ABORT \<longrightarrow> evs = [])) \<and>
     (is_free (ts_ctrl s) \<and> CAN_TX_EVENT_ABORT \<in> set (posting (ts_ctrl s)) \<longrightarrow> ts_state s \<noteq> TWAI_STATE_RUNNING) \<and>
     (in_window (ts_ctrl s) \<longrightarrow> TWAI_ALERT_TX_SUCCESS \<notin> set (ts_alerts s))"

definition tx_owner_ok :: "tx_sys \<Rightarrow> bool" where
  "tx_owner_ok s \<longleftrightarrow>
     (\<not> tk_have (ts_task s) \<longrightarrow> ts_wire s = ts_kept s) \<and>
     (tk_have (ts_task s) \<and> \<not> tk_inflight (ts_task s) \<longrightarrow> ts_wire s = butlast (ts_kept s)) \<and>
     (\<not> tk_inflight (ts_task s) \<longrightarrow> ts_copy s = None) \<and>
     (\<forall>f. tk_inflight (ts_task s) \<and> ts_copy s = Some f \<longrightarrow>
        f = tk_pending (ts_task s) \<and> ts_done s = [] \<and> posting (ts_ctrl s) = [] \<and> ts_wire s = butlast (ts_kept s)) \<and>
     (outstanding s \<longrightarrow> verdicts s \<noteq> [] \<and>
        ts_wire s = (if hd (verdicts s) = CAN_TX_EVENT_OK then ts_kept s else butlast (ts_kept s)))"

definition tx_inv :: "tx_sys \<Rightarrow> bool" where
  "tx_inv s \<longleftrightarrow> tx_logs_ok s \<and> tx_driver_ok s \<and> tx_events_ok s \<and> tx_owner_ok s"

lemmas tx_inv_defs = tx_inv_def tx_logs_ok_def tx_driver_ok_def tx_events_ok_def tx_owner_ok_def

lemma tx_start_inv: "tx_inv tx_sys_start"
  by (simp add: tx_inv_defs tx_sys_start_def tx_task_start_def unread_def outstanding_def)

lemma queue_send_hd:
  "queue_send q x \<noteq> []" "hd (queue_send q x @ xs) = hd (q @ x # xs)"
  by (cases q; simp add: queue_send_def)+

text \<open>Posting moves an event from the control task into the queue; a full queue loses it, but never
  the verdict at its head.\<close>

lemma post_verdicts:
  assumes "posting (ts_ctrl s) = ev # evs" "posting k = evs"
  shows "verdicts (s\<lparr>ts_done := queue_send (ts_done s) ev, ts_ctrl := k\<rparr>) \<noteq> []"
    "hd (verdicts (s\<lparr>ts_done := queue_send (ts_done s) ev, ts_ctrl := k\<rparr>)) = hd (verdicts s)"
proof -
  have e: "service_events (s\<lparr>ts_done := q, ts_ctrl := k\<rparr>) = service_events s" for q
    by (simp add: service_events_def)
  show "verdicts (s\<lparr>ts_done := queue_send (ts_done s) ev, ts_ctrl := k\<rparr>) \<noteq> []"
    "hd (verdicts (s\<lparr>ts_done := queue_send (ts_done s) ev, ts_ctrl := k\<rparr>)) = hd (verdicts s)"
    using assms queue_send_hd [of "ts_done s" ev] by (simp_all add: verdicts_def e)
qed

lemma post_inv:
  assumes "tx_inv s" "posting (ts_ctrl s) = ev # evs" "posting k = evs"
    and "is_free k = is_free (ts_ctrl s)" "in_window k = in_window (ts_ctrl s)"
  shows "tx_inv (s\<lparr>ts_done := queue_send (ts_done s) ev, ts_ctrl := k\<rparr>)"
proof -
  define s' where "s' = s\<lparr>ts_done := queue_send (ts_done s) ev, ts_ctrl := k\<rparr>"
  have k: "ts_task s' = ts_task s" "ts_copy s' = ts_copy s" "ts_state s' = ts_state s" "ts_alerts s' = ts_alerts s"
    "ts_kept s' = ts_kept s" "ts_wire s' = ts_wire s" "ts_taken s' = ts_taken s" "ts_ring s' = ts_ring s"
    "ts_input s' = ts_input s" "ts_ctrl s' = k" "unread s' = unread s" "outstanding s' = outstanding s"
    by (simp_all add: s'_def unread_def outstanding_def)
  have I: "tx_logs_ok s" "tx_driver_ok s" "tx_events_ok s" "tx_owner_ok s" using assms(1) by (simp_all add: tx_inv_def)
  have u: "\<not> unread s" using I(3) assms(2) by (auto simp: tx_events_ok_def)
  have c: "\<not> (tk_inflight (ts_task s) \<and> ts_copy s = Some f)" for f
    using I(4) assms(2) by (auto simp: tx_owner_ok_def)
  have ev: "evs = [] \<and> ev = CAN_TX_EVENT_ABORT \<or> evs \<in> {[], [CAN_TX_EVENT_ABORT]} \<and> outstanding s"
    using I(3) assms(2) by (auto simp: tx_events_ok_def)
  have st: "is_free k \<longrightarrow> CAN_TX_EVENT_ABORT \<in> set (ev # evs) \<longrightarrow> ts_state s \<noteq> TWAI_STATE_RUNNING"
    using I(3) assms(2,4) by (simp add: tx_events_ok_def)
  have "tx_logs_ok s'" using I(1) unfolding tx_logs_ok_def k .
  moreover have "tx_driver_ok s'" using I(2) unfolding tx_driver_ok_def k .
  moreover have "tx_events_ok s'"
    using u ev st assms(3,5) I(3) unfolding tx_events_ok_def k by auto
  moreover have "ts_copy s = None" using c I(4) by (cases "ts_copy s") (auto simp: tx_owner_ok_def)
  then have "tx_owner_ok s'"
    using I(4) post_verdicts [OF assms(2,3), folded s'_def] unfolding tx_owner_ok_def k by simp
  ultimately have "tx_inv s'" by (simp add: tx_inv_def)
  then show ?thesis by (simp add: s'_def)
qed

end
