(* ===== verification/Pcan_Cmd.thy ===== *)
theory Pcan_Cmd
  imports Twai_Hal Ring_Buf
begin

text \<open>
  The command channel, \<open>main/pcan_cmd.c\<close>: the device-state mirror \<open>pcan_dev_state_t\<close>, the handler of
  the 16-byte commands of EP1 OUT with the replies of EP1 IN, and the accessors of the control task.
  The FreeRTOS mutex enters through the record \<open>sem_api\<close> of \<open>Ring_Buf\<close>. The handler's switch is
  \<open>cmd_switch\<close>; the abstract command set a host can ask for, with its effect, is \<open>host_cmd\<close> and
  \<open>apply_cmd\<close>, and the handler refines it.
\<close>

subsection \<open>State\<close>

record 's pcan_dev_state =
  dv_lock :: "'s option"
  dv_state :: u32
  dv_serial :: u32
  dv_channel_id :: u8
  dv_btr0 :: u8
  dv_btr1 :: u8
  dv_bitrate :: u32
  dv_bus_on :: bool
  dv_silent :: bool
  dv_ext_vcc :: bool
  dv_err_mask :: u8
  dv_led_on :: bool
  dv_reconfig_pending :: bool

definition zero_dev :: "'s pcan_dev_state" where
  "zero_dev = \<lparr>dv_lock = None, dv_state = 0, dv_serial = 0, dv_channel_id = 0, dv_btr0 = 0, dv_btr1 = 0,
     dv_bitrate = 0, dv_bus_on = False, dv_silent = False, dv_ext_vcc = False, dv_err_mask = 0,
     dv_led_on = False, dv_reconfig_pending = False\<rparr>"

definition cmd_lock :: "'s sem_api \<Rightarrow> 's pcan_dev_state \<Rightarrow> bool \<times> 's pcan_dev_state" where
  "cmd_lock api st =
     (case dv_lock st of
        None \<Rightarrow> (False, st)
      | Some l \<Rightarrow> let (got, l) = sem_take api l portMAX_DELAY in (got, st\<lparr>dv_lock := Some l\<rparr>))"

definition cmd_unlock :: "'s sem_api \<Rightarrow> 's pcan_dev_state \<Rightarrow> 's pcan_dev_state" where
  "cmd_unlock api st = st\<lparr>dv_lock := map_option (sem_give api) (dv_lock st)\<rparr>"

text \<open>\<open>mutex\<close> is the result of \<open>xSemaphoreCreateMutex\<close>.\<close>

definition pcan_cmd_init :: "'s option \<Rightarrow> bool \<times> 's pcan_dev_state" where
  "pcan_cmd_init mutex =
     (let st = zero_dev\<lparr>dv_lock := mutex\<rparr>
      in if dv_lock st = None then (False, st)
         else (True, st\<lparr>dv_state := PCAN_USB_STATE_CONNECTED, dv_serial := PCAN_USB_DEFAULT_SERIAL,
                        dv_channel_id := PCAN_USB_DEFAULT_DEVID, dv_bitrate := PCAN_USB_DEFAULT_BITRATE,
                        dv_btr0 := 0x00, dv_btr1 := 0x1C, dv_bus_on := False, dv_silent := False,
                        dv_ext_vcc := False, dv_err_mask := PCAN_USB_BERR_MASK, dv_led_on := False,
                        dv_reconfig_pending := False\<rparr>))"

subsection \<open>The handler\<close>

definition reply_begin :: "u8 \<Rightarrow> u8 \<Rightarrow> u8 list" where
  "reply_begin func num =
     (replicate PCAN_USB_CMD_LEN 0)[PCAN_USB_CMD_FUNC := func, PCAN_USB_CMD_NUM := num]"

text \<open>The switch over the function byte: whether the command is recognised, the reply if there is one,
  the new state.\<close>

definition cmd_switch ::
    "u8 \<Rightarrow> u8 \<Rightarrow> u8 list \<Rightarrow> 's pcan_dev_state \<Rightarrow> bool \<times> u8 list option \<times> 's pcan_dev_state" where
  "cmd_switch func num args st =
     (if func = PCAN_USB_CMD_SN then
        (if num = PCAN_USB_GET
         then (True, Some (memcpy_at (reply_begin func num) PCAN_USB_CMD_ARGS (pcan_put_le32 (dv_serial st))), st)
         else (True, None, st))
      else if func = PCAN_USB_CMD_DEVID then
        (if num = PCAN_USB_GET
         then (True, Some ((reply_begin func num)[PCAN_USB_CMD_ARGS := dv_channel_id st]), st)
         else if num = PCAN_USB_SET then (True, None, st\<lparr>dv_channel_id := args ! 0\<rparr>)
         else (True, None, st))
      else if func = PCAN_USB_CMD_BITRATE then
        (let st = st\<lparr>dv_btr1 := args ! 0, dv_btr0 := args ! 1\<rparr>;
             br = pcan_twai_btr_to_bitrate (dv_btr0 st) (dv_btr1 st);
             st = (if br \<noteq> 0 then st\<lparr>dv_bitrate := br\<rparr> else st)
         in (True, None, st\<lparr>dv_reconfig_pending := True\<rparr>))
      else if func = PCAN_USB_CMD_SET_BUS then
        (if num = PCAN_USB_BUS_XCVER then
           let st = st\<lparr>dv_bus_on := args ! 0 \<noteq> 0\<rparr>;
               st = (if dv_bus_on st then st\<lparr>dv_state := dv_state st OR PCAN_USB_STATE_STARTED\<rparr>
                     else st\<lparr>dv_state := dv_state st AND NOT PCAN_USB_STATE_STARTED\<rparr>)
           in (True, None, st\<lparr>dv_reconfig_pending := True\<rparr>)
         else if num = PCAN_USB_BUS_SILENT_MODE then
           (True, None, st\<lparr>dv_silent := args ! 0 \<noteq> 0, dv_reconfig_pending := True\<rparr>)
         else (False, None, st))
      else if func = PCAN_USB_CMD_EXT_VCC then
        (True, None, if num = PCAN_USB_SET then st\<lparr>dv_ext_vcc := args ! 0 \<noteq> 0\<rparr> else st)
      else if func = PCAN_USB_CMD_ERR_FR then
        (True, None, if num = PCAN_USB_SET then st\<lparr>dv_err_mask := args ! 0 AND PCAN_USB_BERR_MASK\<rparr> else st)
      else if func = PCAN_USB_CMD_LED then
        (True, None, if num = PCAN_USB_SET then st\<lparr>dv_led_on := args ! 0 \<noteq> 0\<rparr> else st)
      else if func = PCAN_USB_CMD_REGISTER then (True, None, st)
      else (False, None, st))"

definition pcan_cmd_handle ::
    "'s sem_api \<Rightarrow> 's pcan_dev_state \<Rightarrow> u8 list \<Rightarrow> bool \<times> u8 list option \<times> 's pcan_dev_state" where
  "pcan_cmd_handle api st cmd =
     (if length cmd < PCAN_USB_CMD_LEN then (False, None, st)
      else
        let func = cmd ! PCAN_USB_CMD_FUNC; num = cmd ! PCAN_USB_CMD_NUM; args = drop PCAN_USB_CMD_ARGS cmd;
            (got, st) = cmd_lock api st
        in if \<not> got then (False, None, st)
           else let (recognized, reply, st) = cmd_switch func num args st
                in (recognized, reply, cmd_unlock api st))"

text \<open>The snapshot \<open>(bitrate, silent, bus_on)\<close> of the control task and the end of a reconfiguration.\<close>

definition pcan_cmd_snapshot ::
    "'s sem_api \<Rightarrow> 's pcan_dev_state \<Rightarrow> (u32 \<times> bool \<times> bool) \<times> 's pcan_dev_state" where
  "pcan_cmd_snapshot api st =
     (let (got, st) = cmd_lock api st
      in if \<not> got then ((0, False, False), st)
         else ((dv_bitrate st, dv_silent st, dv_bus_on st), cmd_unlock api st))"

definition pcan_cmd_clear_reconfig :: "'s sem_api \<Rightarrow> 's pcan_dev_state \<Rightarrow> 's pcan_dev_state" where
  "pcan_cmd_clear_reconfig api st =
     (let (got, st) = cmd_lock api st
      in if \<not> got then st else cmd_unlock api (st\<lparr>dv_reconfig_pending := False\<rparr>))"

subsection \<open>The mutex around the state\<close>

text \<open>No branch of the handler touches the mutex, so the guarded body can be read on its own.\<close>

lemma switch_lock:
  "cmd_switch func num args (st\<lparr>dv_lock := l\<rparr>) =
     (fst (cmd_switch func num args st), fst (snd (cmd_switch func num args st)),
      (snd (snd (cmd_switch func num args st)))\<lparr>dv_lock := l\<rparr>)"
  by (cases st) (simp add: cmd_switch_def Let_def)

lemma cmd_lock_free:
  assumes "counting_sems api" "sem_is api (dv_lock st) 1 1"
  obtains l where "cmd_lock api st = (True, st\<lparr>dv_lock := Some l\<rparr>)"
    "sem_is api (Some (sem_give api l)) 1 1"
proof -
  obtain k where k: "dv_lock st = Some k" "sem_count api k = 1" "sem_max api k = 1"
    using assms(2) by (auto simp: sem_is_def split: option.splits)
  define l where "l = snd (sem_take api k portMAX_DELAY)"
  have t: "sem_take api k portMAX_DELAY = (True, l)"
    unfolding l_def using k(2) by (intro counting_take_yes [OF assms(1)]) simp
  have "sem_count api l = 0" "sem_max api l = 1"
    using counting_take [OF assms(1), of k portMAX_DELAY] k t by simp_all
  then have "sem_is api (Some (sem_give api l)) 1 1"
    using counting_give [OF assms(1), of l] by (simp add: sem_is_def)
  then show ?thesis using that k(1) t by (simp add: cmd_lock_def)
qed

text \<open>With the mutex free a guarded operation is its body, and the mutex is free again.\<close>

lemma cmd_handle_body:
  assumes "counting_sems api" "sem_is api (dv_lock st) 1 1" "length cmd \<ge> PCAN_USB_CMD_LEN"
  defines "r \<equiv> cmd_switch (cmd ! 0) (cmd ! 1) (drop 2 cmd) st"
  obtains l where "pcan_cmd_handle api st cmd = (fst r, fst (snd r), (snd (snd r))\<lparr>dv_lock := l\<rparr>)"
    "sem_is api l 1 1"
proof -
  obtain k where k: "cmd_lock api st = (True, st\<lparr>dv_lock := Some k\<rparr>)"
    "sem_is api (Some (sem_give api k)) 1 1" by (rule cmd_lock_free [OF assms(1,2)])
  have "pcan_cmd_handle api st cmd =
      (fst r, fst (snd r), (snd (snd r))\<lparr>dv_lock := Some (sem_give api k)\<rparr>)"
    using assms(3)
    by (simp add: pcan_cmd_handle_def k(1) switch_lock split_beta Let_def cmd_unlock_def r_def not_less)
  with k(2) show ?thesis by (rule that [rotated])
qed

lemma cmd_snapshot_body:
  assumes "counting_sems api" "sem_is api (dv_lock st) 1 1"
  obtains l where "pcan_cmd_snapshot api st =
      ((dv_bitrate st, dv_silent st, dv_bus_on st), st\<lparr>dv_lock := l\<rparr>)" "sem_is api l 1 1"
proof -
  obtain k where "cmd_lock api st = (True, st\<lparr>dv_lock := Some k\<rparr>)"
    "sem_is api (Some (sem_give api k)) 1 1" by (rule cmd_lock_free [OF assms(1,2)])
  then show ?thesis
    by (intro that [of "Some (sem_give api k)"]) (simp_all add: pcan_cmd_snapshot_def cmd_unlock_def)
qed

lemma cmd_clear_body:
  assumes "counting_sems api" "sem_is api (dv_lock st) 1 1"
  obtains l where "pcan_cmd_clear_reconfig api st = st\<lparr>dv_reconfig_pending := False, dv_lock := l\<rparr>"
    "sem_is api l 1 1"
proof -
  obtain k where "cmd_lock api st = (True, st\<lparr>dv_lock := Some k\<rparr>)"
    "sem_is api (Some (sem_give api k)) 1 1" by (rule cmd_lock_free [OF assms(1,2)])
  then show ?thesis
    by (intro that [of "Some (sem_give api k)"]) (simp_all add: pcan_cmd_clear_reconfig_def cmd_unlock_def)
qed

subsection \<open>The invariant of the mirror\<close>

definition rate_listed :: "u32 \<Rightarrow> bool" where
  "rate_listed r \<longleftrightarrow> r \<in> set (map fst PCAN_BTR_TABLE_INIT)"

definition dev_ok :: "'s sem_api \<Rightarrow> 's pcan_dev_state \<Rightarrow> bool" where
  "dev_ok api st \<longleftrightarrow>
     sem_is api (dv_lock st) 1 1 \<and>
     rate_listed (dv_bitrate st) \<and>
     pcan_twai_btr_to_bitrate (dv_btr0 st) (dv_btr1 st) \<in> {0, dv_bitrate st} \<and>
     dv_err_mask st AND NOT PCAN_USB_BERR_MASK = 0 \<and>
     (bit (dv_state st) 1 \<longleftrightarrow> dv_bus_on st) \<and> bit (dv_state st) 0 \<and>
     dv_serial st = PCAN_USB_DEFAULT_SERIAL"

lemma btr_lookup_listed: "btr_lookup rows b0 b1 \<in> insert 0 (set (map fst rows))"
  by (induction rows b0 b1 rule: btr_lookup.induct) auto

lemma btr_rate_listed:
  "pcan_twai_btr_to_bitrate b0 b1 \<noteq> 0 \<Longrightarrow> rate_listed (pcan_twai_btr_to_bitrate b0 b1)"
  using btr_lookup_listed [of PCAN_BTR_TABLE_INIT b0 b1]
  by (simp add: rate_listed_def pcan_twai_btr_to_bitrate_def)

lemma bit_two: "bit (2 :: u32) n \<longleftrightarrow> n = 1"
  using bit_exp_iff [of 1 n, where ?'a = "32 word"] by auto

lemma started_bits:
  fixes w :: u32
  shows "bit (w OR 2) (Suc 0)" "\<not> bit (w AND - 3) (Suc 0)" "bit (w OR 2) 0 \<longleftrightarrow> bit w 0"
    "bit (w AND - 3) 0 \<longleftrightarrow> bit w 0"
proof -
  have e: "(- 3 :: u32) = NOT 2" by simp
  show "bit (w OR 2) (Suc 0)" "bit (w OR 2) 0 \<longleftrightarrow> bit w 0" unfolding bit_or_iff bit_two by simp_all
  show "\<not> bit (w AND - 3) (Suc 0)" "bit (w AND - 3) 0 \<longleftrightarrow> bit w 0"
    unfolding e bit_and_iff bit_not_iff bit_two by simp_all
qed

lemma err_mask_bits: "((a :: u8) AND 6) AND - 7 = 0"
  by (simp add: and.assoc)

lemma dev_ok_bus:
  "dev_ok api st \<Longrightarrow> dev_ok api (st\<lparr>dv_bus_on := True, dv_state := dv_state st OR 2\<rparr>)"
  "dev_ok api st \<Longrightarrow> dev_ok api (st\<lparr>dv_bus_on := False, dv_state := dv_state st AND - 3\<rparr>)"
  by (simp_all add: dev_ok_def started_bits)

lemma dev_ok_bitrate:
  assumes "dev_ok api st"
  shows "pcan_twai_btr_to_bitrate b0 b1 \<noteq> 0 \<Longrightarrow>
      dev_ok api (st\<lparr>dv_btr1 := b1, dv_btr0 := b0, dv_bitrate := pcan_twai_btr_to_bitrate b0 b1\<rparr>)"
    "pcan_twai_btr_to_bitrate b0 b1 = 0 \<Longrightarrow> dev_ok api (st\<lparr>dv_btr1 := b1, dv_btr0 := b0\<rparr>)"
  using assms btr_rate_listed [of b0 b1] by (simp_all add: dev_ok_def)

lemma dev_ok_other [simp]:
  "dev_ok api (st\<lparr>dv_reconfig_pending := p\<rparr>) \<longleftrightarrow> dev_ok api st"
  "dev_ok api (st\<lparr>dv_silent := b\<rparr>) \<longleftrightarrow> dev_ok api st"
  "dev_ok api (st\<lparr>dv_ext_vcc := b\<rparr>) \<longleftrightarrow> dev_ok api st"
  "dev_ok api (st\<lparr>dv_led_on := b\<rparr>) \<longleftrightarrow> dev_ok api st"
  "dev_ok api (st\<lparr>dv_channel_id := c\<rparr>) \<longleftrightarrow> dev_ok api st"
  by (simp_all add: dev_ok_def)

lemma dev_ok_err_mask:
  "dev_ok api st \<Longrightarrow> dev_ok api (st\<lparr>dv_err_mask := a AND 6\<rparr>)"
  "dev_ok api st \<Longrightarrow> dev_ok api (st\<lparr>dv_err_mask := 0\<rparr>)"
  by (simp_all add: dev_ok_def err_mask_bits)

lemmas dev_ok_updates = dev_ok_bus dev_ok_bitrate dev_ok_err_mask

lemma switch_dev_ok:
  assumes "dev_ok api st"
  shows "dev_ok api (snd (snd (cmd_switch func num args st)))"
  unfolding cmd_switch_def Let_def using assms by (auto simp: dev_ok_updates)

lemma dev_ok_lock: "dev_ok api st \<Longrightarrow> sem_is api l 1 1 \<Longrightarrow> dev_ok api (st\<lparr>dv_lock := l\<rparr>)"
  by (simp add: dev_ok_def)

lemma init_dev_ok:
  assumes "pcan_cmd_init mutex = (True, st)" "sem_is api mutex 1 1"
  shows "dev_ok api st"
proof -
  have "pcan_twai_btr_to_bitrate 0 0x1C = 500000" "rate_listed 500000"
    by (simp_all add: rate_listed_def pcan_twai_btr_to_bitrate_def PCAN_BTR_TABLE_INIT_def)
  then show ?thesis using assms
    by (auto simp: pcan_cmd_init_def Let_def zero_dev_def dev_ok_def split: if_splits)
qed

text \<open>The calls the USB glue and the control task make on the mirror.\<close>

datatype dev_call = Command "u8 list" | Snapshot | ClearReconfig

fun dev_do :: "'s sem_api \<Rightarrow> dev_call \<Rightarrow> 's pcan_dev_state \<Rightarrow> 's pcan_dev_state" where
  "dev_do api (Command c) st = snd (snd (pcan_cmd_handle api st c))"
| "dev_do api Snapshot st = snd (pcan_cmd_snapshot api st)"
| "dev_do api ClearReconfig st = pcan_cmd_clear_reconfig api st"

lemma dev_do_ok:
  assumes "counting_sems api" "dev_ok api st"
  shows "dev_ok api (dev_do api c st)"
proof -
  have free: "sem_is api (dv_lock st) 1 1" using assms(2) by (simp add: dev_ok_def)
  show ?thesis
  proof (cases c)
    case (Command xs)
    show ?thesis
    proof (cases "length xs < PCAN_USB_CMD_LEN")
      case True
      then show ?thesis using Command assms(2) by (simp add: pcan_cmd_handle_def)
    next
      case False
      then show ?thesis
        using Command cmd_handle_body [OF assms(1) free, of xs] dev_ok_lock switch_dev_ok [OF assms(2)]
        by (metis dev_do.simps(1) linorder_not_less snd_conv)
    qed
  next
    case Snapshot
    then show ?thesis using cmd_snapshot_body [OF assms(1) free] dev_ok_lock [OF assms(2)]
      by (metis dev_do.simps(2) snd_conv)
  next
    case ClearReconfig
    obtain l where "pcan_cmd_clear_reconfig api st = st\<lparr>dv_reconfig_pending := False, dv_lock := l\<rparr>"
      "sem_is api l 1 1" by (rule cmd_clear_body [OF assms(1) free])
    then show ?thesis using ClearReconfig assms(2) by (simp add: dev_ok_def)
  qed
qed

subsection \<open>What the commands promise\<close>

text \<open>C31. From power-on, whatever commands and control-task calls follow, the mirror stays consistent:
  the mutex is free, the rate is one of the table's, the BTR registers are either exotic or stand
  for that rate, the error mask has only its two bits, the STARTED bit tells whether the bus is on.\<close>

theorem dev_mirror_invariant:
  assumes "counting_sems api" "sem_is api mutex 1 1" "pcan_cmd_init mutex = (True, st)"
  shows "dev_ok api (fold (dev_do api) calls st)"
  using init_dev_ok [OF assms(3,2)]
  by (induction calls arbitrary: st) (simp_all add: dev_do_ok [OF assms(1)])

definition demo_dev :: "(nat \<times> nat) pcan_dev_state" where
  "demo_dev = snd (pcan_cmd_init (Some (1, 1)))"

definition cmd16 :: "u8 list \<Rightarrow> u8 list" where
  "cmd16 xs = xs @ replicate (16 - length xs) 0"

lemma demo_dev_init: "pcan_cmd_init (Some (1 :: nat, 1 :: nat)) = (True, demo_dev)"
  by (simp add: demo_dev_def pcan_cmd_init_def Let_def zero_dev_def)

lemma demo_mutex: "sem_is pair_sems (Some (1, 1)) 1 1"
  by (simp add: sem_is_def pair_sems_def)

theorem dev_mirror_invariant_witness:
  "dev_ok pair_sems (fold (dev_do pair_sems) [Command (cmd16 [1, 0, 0x14, 0]), Command (cmd16 [3, 2, 1]),
     Snapshot, ClearReconfig] demo_dev)"
  by (rule dev_mirror_invariant [OF pair_sems_ok demo_mutex demo_dev_init])

text \<open>The two requests that are answered, and the reply each gets.\<close>

definition cmd_answer :: "u8 \<Rightarrow> u8 \<Rightarrow> 's pcan_dev_state \<Rightarrow> u8 list option" where
  "cmd_answer func num st =
     (if num = PCAN_USB_GET \<and> func = PCAN_USB_CMD_SN
      then Some ([func, num] @ pcan_put_le32 (dv_serial st) @ replicate 10 0)
      else if num = PCAN_USB_GET \<and> func = PCAN_USB_CMD_DEVID
      then Some ([func, num, dv_channel_id st] @ replicate 13 0)
      else None)"

definition cmd_reconfigures :: "u8 \<Rightarrow> u8 \<Rightarrow> bool" where
  "cmd_reconfigures func num \<longleftrightarrow>
     func = PCAN_USB_CMD_BITRATE \<or>
     func = PCAN_USB_CMD_SET_BUS \<and> (num = PCAN_USB_BUS_XCVER \<or> num = PCAN_USB_BUS_SILENT_MODE)"

lemma replicate_16: "replicate 16 (0 :: u8) = [0, 0] @ replicate 14 0" "replicate 14 (0 :: u8) = 0 # replicate 13 0"
  "replicate 14 (0 :: u8) = [0, 0, 0, 0] @ replicate 10 0"
  by (simp_all add: numeral_eq_Suc)

lemma switch_answer: "fst (snd (cmd_switch func num args st)) = cmd_answer func num st"
  by (auto simp: cmd_switch_def cmd_answer_def Let_def reply_begin_def memcpy_at_def replicate_16)

text \<open>Equality of two mirrors up to the mutex.\<close>

definition same_dev :: "'s pcan_dev_state \<Rightarrow> 's pcan_dev_state \<Rightarrow> bool" where
  "same_dev a b \<longleftrightarrow> a\<lparr>dv_lock := None\<rparr> = b\<lparr>dv_lock := None\<rparr>"

definition dev_config :: "'s pcan_dev_state \<Rightarrow> u32 \<times> bool \<times> bool" where
  "dev_config st = (dv_bitrate st, dv_silent st, dv_bus_on st)"

lemma switch_answered:
  assumes "cmd_answer func num st \<noteq> None"
  shows "fst (cmd_switch func num args st) \<and> snd (snd (cmd_switch func num args st)) = st"
proof -
  have "num = 1 \<and> (func = 6 \<or> func = 4)"
    using assms by (simp add: cmd_answer_def split: if_splits)
  then show ?thesis by (elim conjE disjE) (simp_all add: cmd_switch_def)
qed

lemma switch_known:
  "fst (cmd_switch func num args st) \<longleftrightarrow>
     func \<in> {1, 4, 6, 9, 10, 11, 12} \<or> func = 3 \<and> num \<in> {2, 3}"
  unfolding cmd_switch_def Let_def by simp

lemma switch_unknown:
  "\<not> fst (cmd_switch func num args st) \<Longrightarrow> snd (snd (cmd_switch func num args st)) = st"
  unfolding switch_known by (auto simp: cmd_switch_def)

lemma switch_pending:
  "dv_reconfig_pending (snd (snd (cmd_switch func num args st))) \<longleftrightarrow>
     dv_reconfig_pending st \<or> cmd_reconfigures func num"
  by (auto simp: cmd_switch_def cmd_reconfigures_def Let_def)

lemma switch_config:
  "\<not> cmd_reconfigures func num \<Longrightarrow> dev_config (snd (snd (cmd_switch func num args st))) = dev_config st"
  by (auto simp: cmd_switch_def cmd_reconfigures_def dev_config_def Let_def)

text \<open>C18. The contract of the handler for a full command: the serial number and the channel id are
  the only things answered, with a 16-byte reply; a command that is not recognised or that is
  answered changes nothing; the reconfiguration flag is raised exactly by the rate, bus and silent
  commands, so whatever the control task would read differently afterwards is flagged; the mutex is
  released.\<close>

theorem cmd_handle_contract:
  assumes "counting_sems api" "sem_is api (dv_lock st) 1 1" "PCAN_USB_CMD_LEN \<le> length cmd"
    and "pcan_cmd_handle api st cmd = (known, reply, st')"
  shows "reply = cmd_answer (cmd ! 0) (cmd ! 1) st \<and> (\<forall>r. reply = Some r \<longrightarrow> length r = PCAN_USB_CMD_LEN) \<and>
    (reply \<noteq> None \<longrightarrow> known \<and> same_dev st' st) \<and> (\<not> known \<longrightarrow> same_dev st' st) \<and>
    (dv_reconfig_pending st' \<longleftrightarrow> dv_reconfig_pending st \<or> cmd_reconfigures (cmd ! 0) (cmd ! 1)) \<and>
    (dev_config st' \<noteq> dev_config st \<longrightarrow> dv_reconfig_pending st') \<and> sem_is api (dv_lock st') 1 1"
proof -
  define r where "r = cmd_switch (cmd ! 0) (cmd ! 1) (drop 2 cmd) st"
  obtain l where l: "pcan_cmd_handle api st cmd = (fst r, fst (snd r), (snd (snd r))\<lparr>dv_lock := l\<rparr>)"
    "sem_is api l 1 1"
    unfolding r_def by (rule cmd_handle_body [OF assms(1,2,3)])
  then have e: "known = fst r" "reply = fst (snd r)" "st' = (snd (snd r))\<lparr>dv_lock := l\<rparr>"
    using assms(4) by simp_all
  have c: "dev_config st' = dev_config (snd (snd r))" by (simp add: e dev_config_def)
  have len: "length x = PCAN_USB_CMD_LEN" if "reply = Some x" for x
    using that by (auto simp: e r_def switch_answer cmd_answer_def split: if_splits)
  show ?thesis
    using switch_answered [of "cmd ! 0" "cmd ! 1" st "drop 2 cmd"] switch_unknown [of "cmd ! 0" "cmd ! 1" "drop 2 cmd" st] switch_config [of "cmd ! 0" "cmd ! 1"]
      switch_pending [of "cmd ! 0" "cmd ! 1" "drop 2 cmd" st] l(2) len c
    by (auto simp: e r_def switch_answer same_dev_def)
qed

theorem cmd_handle_contract_witness:
  "fst (snd (pcan_cmd_handle pair_sems demo_dev (cmd16 [6, 1]))) =
     Some ([6, 1, 0xEE, 0xFF, 0xC0, 0] @ replicate 10 0) \<and>
   same_dev (snd (snd (pcan_cmd_handle pair_sems demo_dev (cmd16 [6, 1])))) demo_dev"
proof -
  have l: "sem_is pair_sems (dv_lock demo_dev) 1 1"
    using init_dev_ok [OF demo_dev_init demo_mutex] by (simp add: dev_ok_def)
  have s: "dv_serial demo_dev = 0x00C0FFEE" by (simp add: demo_dev_def pcan_cmd_init_def Let_def zero_dev_def)
  obtain known reply st' where h: "pcan_cmd_handle pair_sems demo_dev (cmd16 [6, 1]) = (known, reply, st')"
    by (cases "pcan_cmd_handle pair_sems demo_dev (cmd16 [6, 1])") auto
  have c: "cmd16 [6, 1] ! 0 = 6" "cmd16 [6, 1] ! 1 = 1" "PCAN_USB_CMD_LEN \<le> length (cmd16 [6, 1])"
    by (simp_all add: cmd16_def)
  have "cmd_answer 6 1 demo_dev = Some ([6, 1, 0xEE, 0xFF, 0xC0, 0] @ replicate 10 0)"
    by (simp add: cmd_answer_def s wire)
  with cmd_handle_contract [OF pair_sems_ok l c(3) h] c h show ?thesis by simp
qed

end
