(* ===== verification/Usb_Glue.thy ===== *)
theory Usb_Glue
  imports Pcan_Cmd
begin

text \<open>
  The USB side, \<open>main/usb_glue.c\<close> with the descriptors of \<open>main/usb_descriptors.c\<close>. TinyUSB is
  external: its device stack is the record \<open>usbd\<close> of the calls the glue makes, on an abstract state.
  The statics of the file are the record \<open>glue\<close>. Every callback and every deferred function runs in the
  TinyUSB task and the critical sections of the other tasks exclude each other, so each function is one
  atomic operation of the model; \<open>usb_tx_task\<close> runs on the same core at a lower priority.
\<close>

subsection \<open>State\<close>

record usb_glue_stats =
  us_tx_backpressure_retries :: u32
  us_tx_pending_reset_drops :: u32
  us_cmd_out_rearm_failures :: u32
  us_msg_out_rearm_failures :: u32
  us_msg_in_failed_retries :: u32
  us_msg_in_reset_drops :: u32

definition zero_stats :: usb_glue_stats where
  "zero_stats = \<lparr>us_tx_backpressure_retries = 0, us_tx_pending_reset_drops = 0, us_cmd_out_rearm_failures = 0,
     us_msg_out_rearm_failures = 0, us_msg_in_failed_retries = 0, us_msg_in_reset_drops = 0\<rparr>"

definition PCAN_TX_MAX_FRAMES_PER_BATCH :: nat where [simp]: "PCAN_TX_MAX_FRAMES_PER_BATCH = 32"
definition PCAN_USB_EP_CMDOUT :: u8 where [simp]: "PCAN_USB_EP_CMDOUT = 0x01"
definition PCAN_USB_EP_CMDIN :: u8 where [simp]: "PCAN_USB_EP_CMDIN = 0x81"
definition PCAN_USB_EP_MSGOUT :: u8 where [simp]: "PCAN_USB_EP_MSGOUT = 0x02"
definition PCAN_USB_EP_MSGIN :: u8 where [simp]: "PCAN_USB_EP_MSGIN = 0x82"
definition PCAN_USB_EP_MPS :: nat where [simp]: "PCAN_USB_EP_MPS = 64"
definition PCAN_USB_MAX_CMD_LEN :: nat where [simp]: "PCAN_USB_MAX_CMD_LEN = 32"

datatype msg_in_state = MSG_IN_IDLE | MSG_IN_QUEUED | MSG_IN_SUBMITTED | MSG_IN_COMPLETE | MSG_IN_RETRY | MSG_IN_DROPPED

text \<open>\<open>gl_bound\<close> says whether \<open>usb_glue_bind\<close> has set the two pointers.\<close>

record glue =
  gl_bound :: bool
  gl_rhport :: u8
  gl_itf_open :: bool
  gl_cmd_in :: "u8 list"
  gl_msg_in :: "u8 list"
  gl_pending :: "pcan_frame list"
  gl_pending_count :: u8
  gl_pending_index :: u8
  gl_msg_out_needs_rearm :: bool
  gl_generation :: u32
  gl_cmd_out_needs_rearm :: bool
  gl_in_state :: msg_in_state
  gl_in_len :: nat
  gl_in_generation :: u32
  gl_stats :: usb_glue_stats

definition glue_zero :: glue where
  "glue_zero = \<lparr>gl_bound = False, gl_rhport = 0, gl_itf_open = False, gl_cmd_in = replicate PCAN_USB_CMD_LEN 0,
     gl_msg_in = replicate PCAN_USB_EP_MPS 0, gl_pending = replicate PCAN_TX_MAX_FRAMES_PER_BATCH zero_frame,
     gl_pending_count = 0, gl_pending_index = 0, gl_msg_out_needs_rearm = False, gl_generation = 0,
     gl_cmd_out_needs_rearm = False, gl_in_state = MSG_IN_IDLE, gl_in_len = 0, gl_in_generation = 0,
     gl_stats = zero_stats\<rparr>"

text \<open>The functions handed to \<open>usbd_defer_func\<close>, with the generation they carry.\<close>

datatype glue_call = MsgOutDeferred u32 | CmdOutDeferred u32 | MsgInDeferred u32

text \<open>The calls into TinyUSB: \<open>usbd_edpt_xfer\<close> gets the endpoint and the bytes to send (for an OUT
  endpoint: nothing), \<open>usbd_edpt_open\<close> the endpoint descriptor.\<close>

record 'u usbd =
  edpt_xfer :: "u8 \<Rightarrow> u8 list \<Rightarrow> 'u \<Rightarrow> bool \<times> 'u"
  edpt_claim :: "u8 \<Rightarrow> 'u \<Rightarrow> bool \<times> 'u"
  edpt_release :: "u8 \<Rightarrow> 'u \<Rightarrow> 'u"
  edpt_open :: "u8 list \<Rightarrow> 'u \<Rightarrow> bool \<times> 'u"
  defer_func :: "glue_call \<Rightarrow> 'u \<Rightarrow> 'u"
  mounted :: "'u \<Rightarrow> bool"

definition usb_glue_bind :: "glue \<Rightarrow> glue" where
  "usb_glue_bind g = g\<lparr>gl_bound := True\<rparr>"

text \<open>\<open>install\<close> is the result of \<open>tinyusb_driver_install\<close> for these descriptors.\<close>

definition usb_glue_install :: "u8 list option \<Rightarrow> u8 list option \<Rightarrow> (u8 list \<Rightarrow> u8 list \<Rightarrow> esp_err) \<Rightarrow> esp_err" where
  "usb_glue_install dev_desc cfg_desc install =
     (case (dev_desc, cfg_desc) of
        (Some d, Some c) \<Rightarrow> install d c
      | _ \<Rightarrow> ESP_ERR_INVALID_STATE)"

definition usb_glue_mounted :: "'u usbd \<Rightarrow> glue \<Rightarrow> 'u \<Rightarrow> bool" where
  "usb_glue_mounted usb g u \<longleftrightarrow> mounted usb u \<and> gl_itf_open g"

definition usb_glue_take_stats :: "glue \<Rightarrow> usb_glue_stats \<times> glue" where
  "usb_glue_take_stats g = (gl_stats g, g\<lparr>gl_stats := zero_stats\<rparr>)"

subsection \<open>Commands\<close>

definition usb_glue_send_cmd_reply :: "'u usbd \<Rightarrow> u8 list \<Rightarrow> glue \<Rightarrow> 'u \<Rightarrow> nat \<times> glue \<times> 'u" where
  "usb_glue_send_cmd_reply usb reply g u =
     (let len = length reply in
      if len = 0 \<or> len > PCAN_USB_MAX_CMD_LEN \<or> len > length (gl_cmd_in g) then (0, g, u)
      else if \<not> gl_itf_open g then (0, g, u)
      else
        let (claimed, u) = edpt_claim usb PCAN_USB_EP_CMDIN u in
        if \<not> claimed then (0, g, u)
        else
          let g = g\<lparr>gl_cmd_in := memcpy_at (gl_cmd_in g) 0 reply\<rparr>;
              (ok, u) = edpt_xfer usb PCAN_USB_EP_CMDIN (take len (gl_cmd_in g)) u
          in if \<not> ok then (0, g, edpt_release usb PCAN_USB_EP_CMDIN u) else (len, g, u))"

text \<open>The loop over the 16-byte units of a transfer.\<close>

function cmd_loop ::
    "'s sem_api \<Rightarrow> 'u usbd \<Rightarrow> u8 list \<Rightarrow> 's pcan_dev_state \<Rightarrow> glue \<Rightarrow> 'u \<Rightarrow> 's pcan_dev_state \<times> glue \<times> 'u" where
  "cmd_loop api usb buf st g u =
     (if length buf < PCAN_USB_CMD_LEN then (st, g, u)
      else
        let (_, reply, st) = pcan_cmd_handle api st (take PCAN_USB_CMD_LEN buf);
            (g, u) = (case reply of None \<Rightarrow> (g, u) | Some r \<Rightarrow> snd (usb_glue_send_cmd_reply usb r g u))
        in cmd_loop api usb (drop PCAN_USB_CMD_LEN buf) st g u)"
  by pat_completeness auto
termination by (relation "measure (\<lambda>(api, usb, buf, st, g, u). length buf)") auto

declare cmd_loop.simps [simp del]

definition usb_glue_handle_cmd ::
    "'s sem_api \<Rightarrow> 'u usbd \<Rightarrow> u8 list \<Rightarrow> 's pcan_dev_state \<Rightarrow> glue \<Rightarrow> 'u \<Rightarrow> 's pcan_dev_state \<times> glue \<times> 'u" where
  "usb_glue_handle_cmd api usb buf st g u =
     (if \<not> gl_bound g then (st, g, u) else cmd_loop api usb buf st g u)"

subsection \<open>Host frames\<close>

definition pending_left :: "glue \<Rightarrow> u32" where
  "pending_left g = ucast (gl_pending_count g) - ucast (gl_pending_index g)"

definition count_reset_drops :: "glue \<Rightarrow> glue" where
  "count_reset_drops g =
     g\<lparr>gl_stats := (gl_stats g)\<lparr>us_tx_pending_reset_drops := us_tx_pending_reset_drops (gl_stats g) + pending_left g\<rparr>\<rparr>"

text \<open>\<open>buf\<close> is the OUT buffer, \<open>len\<close> the number of bytes the transfer wrote.\<close>

definition usb_glue_handle_msg :: "u8 list \<Rightarrow> nat \<Rightarrow> glue \<Rightarrow> glue" where
  "usb_glue_handle_msg buf len g =
     (let frames = (case pcan_msg_decode_tx buf len (int PCAN_TX_MAX_FRAMES_PER_BATCH) of None \<Rightarrow> [] | Some fs \<Rightarrow> fs);
          g = (if gl_pending_index g < gl_pending_count g then count_reset_drops g else g)
      in g\<lparr>gl_pending := memcpy_at (gl_pending g) 0 frames, gl_pending_index := 0,
           gl_pending_count := word_of_nat (length frames), gl_msg_out_needs_rearm := True\<rparr>)"

text \<open>The re-arm of EP2 OUT once every frame is in the ring.\<close>

definition msg_out_rearm :: "'u usbd \<Rightarrow> u32 \<Rightarrow> glue \<Rightarrow> 'u \<Rightarrow> glue \<times> 'u" where
  "msg_out_rearm usb generation g u =
     (let (armed, u) = edpt_xfer usb PCAN_USB_EP_MSGOUT [] u
      in (if gl_itf_open g \<and> generation = gl_generation g
          then if armed then g\<lparr>gl_msg_out_needs_rearm := False\<rparr>
               else g\<lparr>gl_stats := (gl_stats g)\<lparr>us_msg_out_rearm_failures := us_msg_out_rearm_failures (gl_stats g) + 1\<rparr>\<rparr>
          else g, u))"

definition pending_advance :: "glue \<Rightarrow> glue" where
  "pending_advance g =
     (let g = g\<lparr>gl_pending_index := gl_pending_index g + 1\<rparr>
      in if gl_pending_index g \<ge> gl_pending_count g
         then g\<lparr>gl_pending_index := 0, gl_pending_count := 0\<rparr> else g)"

text \<open>\<open>push\<close> is \<open>pcan_rb_try_push\<close> on the transmit ring \<open>r\<close>.\<close>

function usb_glue_msg_out_deferred ::
    "(pcan_frame \<Rightarrow> 'r \<Rightarrow> bool \<times> 'r) \<Rightarrow> 'u usbd \<Rightarrow> u32 \<Rightarrow> glue \<Rightarrow> 'r \<Rightarrow> 'u \<Rightarrow> glue \<times> 'r \<times> 'u" where
  "usb_glue_msg_out_deferred push usb generation g r u =
     (if \<not> gl_itf_open g \<or> generation \<noteq> gl_generation g \<or> \<not> gl_msg_out_needs_rearm g then (g, r, u)
      else if gl_pending_index g < gl_pending_count g then
        let (pushed, r) = push (gl_pending g ! unat (gl_pending_index g)) r in
        if \<not> pushed then
          (if generation = gl_generation g
           then g\<lparr>gl_stats := (gl_stats g)\<lparr>us_tx_backpressure_retries := us_tx_backpressure_retries (gl_stats g) + 1\<rparr>\<rparr>
           else g, r, u)
        else usb_glue_msg_out_deferred push usb generation
          (if generation = gl_generation g \<and> gl_pending_index g < gl_pending_count g then pending_advance g else g) r u
      else let (g, u) = msg_out_rearm usb generation g u in (g, r, u))"
  by pat_completeness auto
termination
proof (relation "measure (\<lambda>(push, usb, generation, g, r, u). unat (gl_pending_count g) - unat (gl_pending_index g))", goal_cases)
  case (2 push usb generation g r u x pushed y)
  then have a: "gl_pending_index g < gl_pending_count g" by blast
  have "unat (gl_pending_index g) + 1 < 256" using a unat_u8_less [of "gl_pending_count g"] by (simp add: word_less_nat_alt)
  then have "unat (gl_pending_index g + 1) = unat (gl_pending_index g) + 1" by (simp add: unat_word_ariths)
  then have "unat (gl_pending_count (pending_advance g)) - unat (gl_pending_index (pending_advance g)) <
      unat (gl_pending_count g) - unat (gl_pending_index g)"
    using a by (auto simp: pending_advance_def Let_def word_less_nat_alt word_le_nat_alt)
  then show ?case using 2 by auto
qed auto

declare usb_glue_msg_out_deferred.simps [simp del]

definition usb_glue_cmd_out_deferred :: "'u usbd \<Rightarrow> u32 \<Rightarrow> glue \<Rightarrow> 'u \<Rightarrow> glue \<times> 'u" where
  "usb_glue_cmd_out_deferred usb generation g u =
     (if \<not> (gl_itf_open g \<and> generation = gl_generation g \<and> gl_cmd_out_needs_rearm g) then (g, u)
      else
        let (armed, u) = edpt_xfer usb PCAN_USB_EP_CMDOUT [] u
        in (if gl_itf_open g \<and> generation = gl_generation g
            then if armed then g\<lparr>gl_cmd_out_needs_rearm := False\<rparr>
                 else g\<lparr>gl_stats := (gl_stats g)\<lparr>us_cmd_out_rearm_failures := us_cmd_out_rearm_failures (gl_stats g) + 1\<rparr>\<rparr>
            else g, u))"

definition usb_glue_service :: "'u usbd \<Rightarrow> glue \<Rightarrow> 'u \<Rightarrow> 'u" where
  "usb_glue_service usb g u =
     (let generation = gl_generation g;
          schedule_cmd = (gl_itf_open g \<and> gl_cmd_out_needs_rearm g);
          schedule_msg = (gl_bound g \<and> gl_itf_open g \<and> gl_msg_out_needs_rearm g);
          u = (if schedule_cmd then defer_func usb (CmdOutDeferred generation) u else u)
      in if schedule_msg then defer_func usb (MsgOutDeferred generation) u else u)"

subsection \<open>Batches to the host\<close>

definition usb_glue_msg_in_deferred :: "'u usbd \<Rightarrow> u32 \<Rightarrow> glue \<Rightarrow> 'u \<Rightarrow> glue \<times> 'u" where
  "usb_glue_msg_in_deferred usb generation g u =
     (let len = (if gl_itf_open g \<and> generation = gl_generation g \<and> gl_in_state g = MSG_IN_QUEUED \<and>
                   gl_in_generation g = generation then gl_in_len g else 0)
      in if len = 0 then (g, u)
         else
           let (claimed, u) = edpt_claim usb PCAN_USB_EP_MSGIN u;
               (submitted, u) = (if claimed then edpt_xfer usb PCAN_USB_EP_MSGIN (take len (gl_msg_in g)) u else (False, u));
               u = (if claimed \<and> \<not> submitted then edpt_release usb PCAN_USB_EP_MSGIN u else u)
           in (if generation = gl_generation g \<and> gl_in_state g = MSG_IN_QUEUED \<and> gl_in_generation g = generation
               then if submitted then g\<lparr>gl_in_state := MSG_IN_SUBMITTED\<rparr>
                    else g\<lparr>gl_in_state := MSG_IN_RETRY, gl_stats := (gl_stats g)
                       \<lparr>us_msg_in_failed_retries := us_msg_in_failed_retries (gl_stats g) + 1\<rparr>\<rparr>
               else g, u))"

text \<open>The state machine of a batch, seen from the sender; the result is the length that was accepted.\<close>

definition usb_glue_send_msg_batch :: "'u usbd \<Rightarrow> u8 list \<Rightarrow> glue \<Rightarrow> 'u \<Rightarrow> nat \<times> glue \<times> 'u" where
  "usb_glue_send_msg_batch usb buf g u =
     (let len = length buf in
      if len = 0 \<or> len > PCAN_USB_TX_BUFFER_SIZE then (0, g, u)
      else case gl_in_state g of
        MSG_IN_COMPLETE \<Rightarrow>
          if len = gl_in_len g then (len, g\<lparr>gl_in_state := MSG_IN_IDLE, gl_in_len := 0\<rparr>, u) else (0, g, u)
      | MSG_IN_DROPPED \<Rightarrow>
          if len = gl_in_len g then (len, g\<lparr>gl_in_state := MSG_IN_IDLE, gl_in_len := 0\<rparr>, u) else (0, g, u)
      | MSG_IN_IDLE \<Rightarrow>
          if gl_itf_open g
          then (0, g\<lparr>gl_msg_in := memcpy_at (gl_msg_in g) 0 buf, gl_in_len := len,
                     gl_in_generation := gl_generation g, gl_in_state := MSG_IN_QUEUED\<rparr>,
                defer_func usb (MsgInDeferred (gl_generation g)) u)
          else (0, g, u)
      | MSG_IN_RETRY \<Rightarrow>
          if gl_itf_open g \<and> gl_in_generation g = gl_generation g
          then (0, g\<lparr>gl_in_state := MSG_IN_QUEUED\<rparr>, defer_func usb (MsgInDeferred (gl_generation g)) u)
          else (0, g, u)
      | _ \<Rightarrow> (0, g, u))"

subsection \<open>The class driver\<close>

text \<open>What every change of the connection forgets.\<close>

definition drop_session :: "glue \<Rightarrow> glue" where
  "drop_session g = g\<lparr>gl_pending_count := 0, gl_pending_index := 0, gl_msg_out_needs_rearm := False,
     gl_cmd_out_needs_rearm := False\<rparr>"

definition pcan_drv_init :: "glue \<Rightarrow> glue" where
  "pcan_drv_init g =
     (drop_session (g\<lparr>gl_itf_open := False, gl_generation := gl_generation g + 1\<rparr>))
       \<lparr>gl_in_state := MSG_IN_IDLE, gl_in_len := 0, gl_stats := zero_stats\<rparr>"

definition in_busy :: "msg_in_state \<Rightarrow> bool" where
  "in_busy s \<longleftrightarrow> s = MSG_IN_QUEUED \<or> s = MSG_IN_SUBMITTED \<or> s = MSG_IN_RETRY"

definition pcan_drv_deinit :: "glue \<Rightarrow> glue" where
  "pcan_drv_deinit g =
     (let g = drop_session (count_reset_drops (g\<lparr>gl_itf_open := False, gl_generation := gl_generation g + 1\<rparr>))
      in if in_busy (gl_in_state g)
         then g\<lparr>gl_in_state := MSG_IN_DROPPED, gl_stats := (gl_stats g)\<lparr>us_msg_in_reset_drops := us_msg_in_reset_drops (gl_stats g) + 1\<rparr>\<rparr>
         else g)"

definition pcan_drv_reset :: "glue \<Rightarrow> glue" where
  "pcan_drv_reset g =
     (let g = drop_session (count_reset_drops (g\<lparr>gl_itf_open := False, gl_generation := gl_generation g + 1\<rparr>))
      in if in_busy (gl_in_state g) then g\<lparr>gl_in_state := MSG_IN_RETRY, gl_in_generation := gl_generation g\<rparr> else g)"

text \<open>Descriptors as TinyUSB reads them: \<open>bLength\<close> first, then the type; the interface descriptor has
  \<open>bNumEndpoints\<close> at offset 4 and \<open>bInterfaceClass\<close> at offset 5.\<close>

definition TUSB_DESC_ENDPOINT :: u8 where [simp]: "TUSB_DESC_ENDPOINT = 5"
definition TUSB_DESC_INTERFACE :: u8 where [simp]: "TUSB_DESC_INTERFACE = 4"
definition TUSB_CLASS_VENDOR_SPECIFIC :: u8 where [simp]: "TUSB_CLASS_VENDOR_SPECIFIC = 0xFF"

definition desc_next :: "u8 list \<Rightarrow> u8 list" where
  "desc_next d = drop (unat (d ! 0)) d"

fun open_endpoints :: "'u usbd \<Rightarrow> nat \<Rightarrow> u8 list \<Rightarrow> 'u \<Rightarrow> bool \<times> 'u" where
  "open_endpoints usb 0 d u = (True, u)"
| "open_endpoints usb (Suc n) d u =
     (if d ! 1 \<noteq> TUSB_DESC_ENDPOINT then (False, u)
      else let (ok, u) = edpt_open usb (take (unat (d ! 0)) d) u
           in if \<not> ok then (False, u) else open_endpoints usb n (desc_next d) u)"

text \<open>The part of \<open>pcan_drv_open\<close> after the endpoints are open.\<close>

definition arm_out_endpoints :: "'u usbd \<Rightarrow> glue \<Rightarrow> 'u \<Rightarrow> glue \<times> 'u" where
  "arm_out_endpoints usb g u =
     (let (ok, u) = edpt_xfer usb PCAN_USB_EP_CMDOUT [] u;
          g = (if ok then g else g\<lparr>gl_cmd_out_needs_rearm := True,
                 gl_stats := (gl_stats g)\<lparr>us_cmd_out_rearm_failures := us_cmd_out_rearm_failures (gl_stats g) + 1\<rparr>\<rparr>);
          (ok, u) = edpt_xfer usb PCAN_USB_EP_MSGOUT [] u;
          g = (if ok then g else g\<lparr>gl_msg_out_needs_rearm := True,
                 gl_stats := (gl_stats g)\<lparr>us_msg_out_rearm_failures := us_msg_out_rearm_failures (gl_stats g) + 1\<rparr>\<rparr>)
      in (g, u))"

definition drv_session_begin :: "u8 \<Rightarrow> glue \<Rightarrow> glue" where
  "drv_session_begin rhport g =
     (let g = drop_session (g\<lparr>gl_rhport := rhport, gl_itf_open := True, gl_generation := gl_generation g + 1\<rparr>)
      in if gl_in_state g = MSG_IN_RETRY then g\<lparr>gl_in_generation := gl_generation g\<rparr> else g)"

definition pcan_drv_open :: "'u usbd \<Rightarrow> u8 \<Rightarrow> u8 list \<Rightarrow> nat \<Rightarrow> glue \<Rightarrow> 'u \<Rightarrow> nat \<times> glue \<times> 'u" where
  "pcan_drv_open usb rhport itf_desc max_len g u =
     (let n = itf_desc ! 4; drv_len = 9 + unat n * 7 in
      if itf_desc ! 5 \<noteq> TUSB_CLASS_VENDOR_SPECIFIC then (0, g, u)
      else if n \<noteq> 4 then (0, g, u)
      else if max_len < drv_len then (0, g, u)
      else
        let (ok, u) = open_endpoints usb (unat n) (desc_next itf_desc) u in
        if \<not> ok then (0, g, u)
        else let (g, u) = arm_out_endpoints usb (drv_session_begin rhport g) u in (drv_len, g, u))"

definition pcan_drv_control_xfer_cb :: "u8 \<Rightarrow> u8 \<Rightarrow> u8 list \<Rightarrow> bool" where
  "pcan_drv_control_xfer_cb rhport stage request = False"

text \<open>The completion callback; \<open>cmd_buf\<close> and \<open>msg_buf\<close> are the contents of the OUT buffers and \<open>n\<close> is
  \<open>xferred_bytes\<close>, which the code narrows to 16 bits.\<close>

definition cmd_out_complete ::
    "'s sem_api \<Rightarrow> 'u usbd \<Rightarrow> bool \<Rightarrow> u32 \<Rightarrow> u8 list \<Rightarrow> 's pcan_dev_state \<Rightarrow> glue \<Rightarrow> 'u \<Rightarrow> 's pcan_dev_state \<times> glue \<times> 'u" where
  "cmd_out_complete api usb success n cmd_buf st g u =
     (let (st, g, u) = (if success \<and> n > 0
            then usb_glue_handle_cmd api usb (take (unat (ucast n :: u16)) cmd_buf) st g u else (st, g, u));
          (ok, u) = edpt_xfer usb PCAN_USB_EP_CMDOUT [] u
      in (st, if ok then g else g\<lparr>gl_cmd_out_needs_rearm := True,
            gl_stats := (gl_stats g)\<lparr>us_cmd_out_rearm_failures := us_cmd_out_rearm_failures (gl_stats g) + 1\<rparr>\<rparr>, u))"

definition msg_out_complete :: "bool \<Rightarrow> u32 \<Rightarrow> u8 list \<Rightarrow> glue \<Rightarrow> glue" where
  "msg_out_complete success n msg_buf g =
     (if success \<and> n > 0 then usb_glue_handle_msg msg_buf (unat (ucast n :: u16)) g
      else g\<lparr>gl_msg_out_needs_rearm := True\<rparr>)"

definition msg_in_complete :: "bool \<Rightarrow> glue \<Rightarrow> glue" where
  "msg_in_complete success g =
     (if gl_in_state g = MSG_IN_SUBMITTED
      then if success then g\<lparr>gl_in_state := MSG_IN_COMPLETE\<rparr>
           else g\<lparr>gl_in_state := MSG_IN_RETRY, gl_stats := (gl_stats g)
                \<lparr>us_msg_in_failed_retries := us_msg_in_failed_retries (gl_stats g) + 1\<rparr>\<rparr>
      else g)"

definition pcan_drv_xfer_cb ::
    "'s sem_api \<Rightarrow> 'u usbd \<Rightarrow> u8 \<Rightarrow> bool \<Rightarrow> u32 \<Rightarrow> u8 list \<Rightarrow> u8 list \<Rightarrow> 's pcan_dev_state \<Rightarrow> glue \<Rightarrow> 'u \<Rightarrow>
     bool \<times> 's pcan_dev_state \<times> glue \<times> 'u" where
  "pcan_drv_xfer_cb api usb ep success n cmd_buf msg_buf st g u =
     (if ep = PCAN_USB_EP_CMDOUT then (True, cmd_out_complete api usb success n cmd_buf st g u)
      else if ep = PCAN_USB_EP_MSGOUT then (True, st, msg_out_complete success n msg_buf g, u)
      else if ep = PCAN_USB_EP_CMDIN then (True, st, g, u)
      else if ep = PCAN_USB_EP_MSGIN then (True, st, msg_in_complete success g, u)
      else (False, st, g, u))"

end
