(* ===== verification/Ctrl_Task.thy ===== *)
theory Ctrl_Task
  imports Can_Tx Usb_Glue
begin

text \<open>
  The control task of \<open>main/main.c\<close> and what surrounds it: the bring-up, the passes of its loop
  (pending reconfiguration, alerts, status LED, statistics), the loop body of \<open>twai_rx_task\<close>, the
  choice of the operating mode and the start-up sequence. Whether both TWAI tasks parked in time is
  an input of a pass, since \<open>Quiesce\<close> models the handshake; so are the commands that the USB side
  handles while the pass is at work, the clock and the glue's counters.
\<close>

subsection \<open>Statistics\<close>

text \<open>The counters that are only ever incremented by their task, and the copies of the last report.\<close>

record bridge_counters =
  bc_usb_in_busy :: u32
  bc_can_tx_timeout :: u32
  bc_can_tx_state :: u32
  bc_can_tx_resubmits :: u32
  bc_can_tx_confirm_timeouts :: u32
  bc_can_tx_listen_drops :: u32

definition zero_counters :: bridge_counters where
  "zero_counters = \<lparr>bc_usb_in_busy = 0, bc_can_tx_timeout = 0, bc_can_tx_state = 0, bc_can_tx_resubmits = 0,
     bc_can_tx_confirm_timeouts = 0, bc_can_tx_listen_drops = 0\<rparr>"

definition sample_counters :: "u32 \<Rightarrow> tx_task \<Rightarrow> bridge_counters" where
  "sample_counters usb_in_busy t =
     \<lparr>bc_usb_in_busy = usb_in_busy, bc_can_tx_timeout = tk_timeout_retries t, bc_can_tx_state = tk_state_retries t,
      bc_can_tx_resubmits = tk_resubmits t, bc_can_tx_confirm_timeouts = tk_confirm_timeouts t,
      bc_can_tx_listen_drops = tk_listen_drops t\<rparr>"

definition counters_delta :: "bridge_counters \<Rightarrow> bridge_counters \<Rightarrow> bridge_counters" where
  "counters_delta now old =
     \<lparr>bc_usb_in_busy = bc_usb_in_busy now - bc_usb_in_busy old,
      bc_can_tx_timeout = bc_can_tx_timeout now - bc_can_tx_timeout old,
      bc_can_tx_state = bc_can_tx_state now - bc_can_tx_state old,
      bc_can_tx_resubmits = bc_can_tx_resubmits now - bc_can_tx_resubmits old,
      bc_can_tx_confirm_timeouts = bc_can_tx_confirm_timeouts now - bc_can_tx_confirm_timeouts old,
      bc_can_tx_listen_drops = bc_can_tx_listen_drops now - bc_can_tx_listen_drops old\<rparr>"

record stats_report =
  rp_delta :: bridge_counters
  rp_usb :: usb_glue_stats
  rp_rx_ring_drops :: u32
  rp_tx_ring_drops :: u32
  rp_rx_missed :: u32
  rp_rx_overrun :: u32
  rp_tx_failed :: u32

text \<open>The statics of \<open>bridge_log_stats\<close>: the last counters and the last controller status.\<close>

record stats_last =
  sl_counters :: bridge_counters
  sl_twai :: pcan_twai_status

definition twai_changed :: "pcan_twai_status option \<Rightarrow> pcan_twai_status \<Rightarrow> bool" where
  "twai_changed twai last_twai =
     (case twai of
        None \<Rightarrow> False
      | Some t \<Rightarrow> st_rx_missed_count t \<noteq> st_rx_missed_count last_twai \<or>
                  st_rx_overrun_count t \<noteq> st_rx_overrun_count last_twai \<or>
                  st_tx_failed_count t \<noteq> st_tx_failed_count last_twai)"

text \<open>\<open>bridge_log_stats\<close> on the values it reads: the warning it prints, if any, and the new statics.\<close>

definition bridge_stats ::
    "u32 \<Rightarrow> u32 \<Rightarrow> usb_glue_stats \<Rightarrow> bridge_counters \<Rightarrow> pcan_twai_status option \<Rightarrow> stats_last \<Rightarrow>
     stats_report option \<times> stats_last" where
  "bridge_stats rx_ring_drops tx_ring_drops usb now twai old =
     (let delta = counters_delta now (sl_counters old);
          changed = (rx_ring_drops \<noteq> 0 \<or> tx_ring_drops \<noteq> 0 \<or>
            us_tx_backpressure_retries usb \<noteq> 0 \<or> us_tx_pending_reset_drops usb \<noteq> 0 \<or>
            us_cmd_out_rearm_failures usb \<noteq> 0 \<or> us_msg_out_rearm_failures usb \<noteq> 0 \<or>
            us_msg_in_failed_retries usb \<noteq> 0 \<or> us_msg_in_reset_drops usb \<noteq> 0 \<or>
            bc_usb_in_busy delta \<noteq> 0 \<or> bc_can_tx_timeout delta \<noteq> 0 \<or> bc_can_tx_state delta \<noteq> 0 \<or>
            bc_can_tx_resubmits delta \<noteq> 0 \<or> bc_can_tx_confirm_timeouts delta \<noteq> 0 \<or>
            bc_can_tx_listen_drops delta \<noteq> 0 \<or> twai_changed twai (sl_twai old))
      in (if changed
          then Some \<lparr>rp_delta = delta, rp_usb = usb, rp_rx_ring_drops = rx_ring_drops, rp_tx_ring_drops = tx_ring_drops,
                     rp_rx_missed = (case twai of None \<Rightarrow> 0 | Some t \<Rightarrow> st_rx_missed_count t),
                     rp_rx_overrun = (case twai of None \<Rightarrow> 0 | Some t \<Rightarrow> st_rx_overrun_count t),
                     rp_tx_failed = (case twai of None \<Rightarrow> 0 | Some t \<Rightarrow> st_tx_failed_count t)\<rparr>
          else None,
          \<lparr>sl_counters = now, sl_twai = (case twai of None \<Rightarrow> sl_twai old | Some t \<Rightarrow> t)\<rparr>))"

subsection \<open>The control task\<close>

definition CTRL_PERIOD_MS :: u32 where [simp]: "CTRL_PERIOD_MS = 1"
definition BRIDGE_STATS_MS :: u64 where [simp]: "BRIDGE_STATS_MS = 1000"

text \<open>\<open>bg_gpio\<close> is the level of the LED pin, \<open>bg_result\<close> a ghost: the result of the last
  reconfiguration that was carried out.\<close>

record ('s, 'd) bridge =
  bg_dev :: "'s pcan_dev_state"
  bg_can :: "'d can"
  bg_evt :: "u8 list"
  bg_done :: "tx_done_event list"
  bg_rx_ring :: "'s pcan_ringbuf"
  bg_tx_ring :: "'s pcan_ringbuf"
  bg_usb_in_busy :: u32
  bg_task :: tx_task
  bg_last_led :: bool
  bg_gpio :: bool
  bg_last_stats_us :: u64
  bg_last :: stats_last
  bg_reports :: "stats_report list"
  bg_result :: "esp_err option"

text \<open>The inputs of a pass: whether the tasks parked in time, the commands the USB task handles after
  the flag is cleared and before the snapshot, those it handles after the snapshot, the clock and
  the glue's counters.\<close>

record ctrl_env =
  ce_parked :: bool
  ce_before :: "u8 list list"
  ce_after :: "u8 list list"
  ce_now_us :: u64
  ce_usb :: usb_glue_stats

definition host_command :: "'s sem_api \<Rightarrow> u8 list \<Rightarrow> 's pcan_dev_state \<Rightarrow> 's pcan_dev_state" where
  "host_command api cmd st = snd (snd (pcan_cmd_handle api st cmd))"

definition bridge_alerts :: "'d twai_drv \<Rightarrow> ('s, 'd) bridge \<Rightarrow> ('s, 'd) bridge" where
  "bridge_alerts drv b =
     (let (c, evt, done) = ctrl_service_alerts drv (bg_can b) (bg_evt b) (bg_done b)
      in b\<lparr>bg_can := c, bg_evt := evt, bg_done := done\<rparr>)"

definition ctrl_reconfigure ::
    "'s sem_api \<Rightarrow> 'd twai_drv \<Rightarrow> ctrl_env \<Rightarrow> ('s, 'd) bridge \<Rightarrow> ('s, 'd) bridge" where
  "ctrl_reconfigure api drv env b =
     (if dv_reconfig_pending (bg_dev b) \<and> ce_parked env then
        let b = b\<lparr>bg_dev := pcan_cmd_clear_reconfig api (bg_dev b)\<rparr>;
            b = bridge_alerts drv b;
            dev = fold (host_command api) (ce_before env) (bg_dev b);
            ((bitrate, silent, bus_on), dev) = pcan_cmd_snapshot api dev;
            mode = (if silent then TWAI_HAL_MODE_LISTEN_ONLY else TWAI_HAL_MODE_NORMAL);
            (e, can) = (if bus_on then pcan_twai_reconfigure drv bitrate mode (bg_can b)
                        else pcan_twai_stop drv (bg_can b))
        in b\<lparr>bg_dev := fold (host_command api) (ce_after env) dev, bg_can := can,
             bg_done := queue_send (bg_done b) CAN_TX_EVENT_ABORT, bg_result := Some e\<rparr>
      else b)"

definition bridge_led :: "('s, 'd) bridge \<Rightarrow> ('s, 'd) bridge" where
  "bridge_led b =
     (if dv_led_on (bg_dev b) \<noteq> bg_last_led b
      then b\<lparr>bg_last_led := dv_led_on (bg_dev b), bg_gpio := dv_led_on (bg_dev b)\<rparr> else b)"

definition bridge_log_stats ::
    "'s sem_api \<Rightarrow> 'd twai_drv \<Rightarrow> usb_glue_stats \<Rightarrow> ('s, 'd) bridge \<Rightarrow> ('s, 'd) bridge" where
  "bridge_log_stats api drv usb b =
     (let (rx_drops, rx) = pcan_rb_take_dropped api (bg_rx_ring b);
          (tx_drops, tx) = pcan_rb_take_dropped api (bg_tx_ring b);
          (e, status) = pcan_twai_get_status drv (bg_can b);
          (report, old) = bridge_stats rx_drops tx_drops usb (sample_counters (bg_usb_in_busy b) (bg_task b))
            (if e = ESP_OK then Some status else None) (bg_last b)
      in b\<lparr>bg_rx_ring := rx, bg_tx_ring := tx, bg_last := old,
           bg_reports := bg_reports b @ (case report of None \<Rightarrow> [] | Some r \<Rightarrow> [r])\<rparr>)"

definition ctrl_pass ::
    "'s sem_api \<Rightarrow> 'd twai_drv \<Rightarrow> ctrl_env \<Rightarrow> ('s, 'd) bridge \<Rightarrow> ('s, 'd) bridge" where
  "ctrl_pass api drv env b =
     (let b = ctrl_reconfigure api drv env b;
          b = bridge_alerts drv b;
          b = bridge_led b
      in if ce_now_us env - bg_last_stats_us b \<ge> BRIDGE_STATS_MS * 1000
         then (bridge_log_stats api drv (ce_usb env) b)\<lparr>bg_last_stats_us := ce_now_us env\<rparr> else b)"

text \<open>The bring-up before the loop: listen-only until the host opens the bus.\<close>

definition ctrl_start :: "'d twai_drv \<Rightarrow> ('s, 'd) bridge \<Rightarrow> ('s, 'd) bridge" where
  "ctrl_start drv b =
     b\<lparr>bg_can := snd (pcan_twai_start drv PCAN_USB_DEFAULT_BITRATE TWAI_HAL_MODE_LISTEN_ONLY (bg_can b)),
       bg_last_led := False\<rparr>"

subsection \<open>The receive task\<close>

text \<open>The pass of \<open>twai_rx_task\<close> after the park check; \<open>now16\<close> is the stamp of the arrival.\<close>

definition twai_rx_pass ::
    "'s sem_api \<Rightarrow> 'd twai_drv \<Rightarrow> u16 \<Rightarrow> 's pcan_ringbuf \<Rightarrow> 'd can \<Rightarrow> 's pcan_ringbuf \<times> 'd can" where
  "twai_rx_pass api drv now16 ring c =
     (let (e, f, c) = pcan_twai_receive drv now16 TWAI_CALL_TIMEOUT_MS c
      in (case f of
            Some f \<Rightarrow> if e = ESP_OK then snd (pcan_rb_push api ring f) else ring
          | None \<Rightarrow> ring, c))"

subsection \<open>Commands keep what they do not flag\<close>

lemma host_command_ok: "counting_sems api \<Longrightarrow> dev_ok api st \<Longrightarrow> dev_ok api (host_command api cmd st)"
  using dev_do_ok [of api st "Command cmd"] by (simp add: host_command_def)

lemma host_command_flags:
  assumes "counting_sems api" "dev_ok api st"
  shows "dv_reconfig_pending (host_command api cmd st) \<or>
    \<not> dv_reconfig_pending st \<and> dev_config (host_command api cmd st) = dev_config st"
proof (cases "length cmd < PCAN_USB_CMD_LEN")
  case True
  then show ?thesis by (auto simp: host_command_def pcan_cmd_handle_def)
next
  case False
  have free: "sem_is api (dv_lock st) 1 1" using assms(2) by (simp add: dev_ok_def)
  let ?st = "snd (snd (cmd_switch (cmd ! 0) (cmd ! 1) (drop 2 cmd) st))"
  obtain l where "host_command api cmd st = ?st\<lparr>dv_lock := l\<rparr>"
    using cmd_handle_body [OF assms(1) free, of cmd] False by (metis host_command_def linorder_not_less snd_conv)
  then have "dv_reconfig_pending (host_command api cmd st) = dv_reconfig_pending ?st"
    "dev_config (host_command api cmd st) = dev_config ?st"
    by (simp_all add: dev_config_def)
  then show ?thesis using switch_pending [of "cmd ! 0" "cmd ! 1"] switch_config [of "cmd ! 0" "cmd ! 1"] by metis
qed

lemma host_commands_ok:
  assumes "counting_sems api" "dev_ok api st"
  shows "dev_ok api (fold (host_command api) cmds st)"
    and "dv_reconfig_pending (fold (host_command api) cmds st) \<or>
      \<not> dv_reconfig_pending st \<and> dev_config (fold (host_command api) cmds st) = dev_config st"
  using assms(2)
proof (induction cmds arbitrary: st)
  case Nil
  case 1
  then show ?case by simp
  case 2
  then show ?case by auto
next
  case (Cons c cs)
  note ok = host_command_ok [OF assms(1)]
  case 1
  then show ?case using Cons.IH(1) [OF ok] by simp
  case 2
  then show ?case using Cons.IH(2) [OF ok, of st c] host_command_flags [OF assms(1), of st c] by auto
qed

subsection \<open>The driver follows the mirror\<close>

definition mode_of :: "bool \<Rightarrow> pcan_twai_mode" where
  "mode_of silent = (if silent then TWAI_HAL_MODE_LISTEN_ONLY else TWAI_HAL_MODE_NORMAL)"

text \<open>The controller runs with the settings \<open>(bitrate, silent, bus_on)\<close>.\<close>

definition runs_with :: "hal \<Rightarrow> u32 \<times> bool \<times> bool \<Rightarrow> bool" where
  "runs_with h cfg \<longleftrightarrow>
     (case cfg of (bitrate, silent, bus_on) \<Rightarrow>
        if bus_on then s_installed h \<and> s_mode h = mode_of silent \<and> s_bitrate h = nearest_supported_bitrate bitrate
        else \<not> s_installed h)"

definition settled :: "('s, 'd) bridge \<Rightarrow> bool" where
  "settled b \<longleftrightarrow> dv_reconfig_pending (bg_dev b) \<or> runs_with (fst (bg_can b)) (dev_config (bg_dev b))"

lemma bridge_alerts_keeps:
  assumes "twai_documented drv" "hal_ok drv (bg_can b)"
  shows "hal_ok drv (bg_can (bridge_alerts drv b))" "fst (bg_can (bridge_alerts drv b)) = fst (bg_can b)"
  using alerts_ok [OF assms] by (simp_all add: bridge_alerts_def ctrl_service_alerts_def split_beta Let_def)

lemma bridge_alerts_fields:
  "bg_dev (bridge_alerts drv b) = bg_dev b" "bg_result (bridge_alerts drv b) = bg_result b"
  "bg_gpio (bridge_alerts drv b) = bg_gpio b" "bg_last_led (bridge_alerts drv b) = bg_last_led b"
  by (simp_all add: bridge_alerts_def split_beta Let_def)

lemma start_runs:
  assumes "twai_documented drv" "hal_ok drv c" "fst (pcan_twai_start drv r m c) = ESP_OK" "r \<noteq> 0"
  defines "h \<equiv> fst (snd (pcan_twai_start drv r m c))"
  shows "s_installed h \<and> s_mode h = m \<and> s_bitrate h = nearest_supported_bitrate r"
proof (cases "s_installed (fst c)")
  case True
  let ?c = "snd (pcan_twai_stop drv c)"
  have e: "fst (pcan_twai_stop drv c) = ESP_OK"
    using assms(3) True by (auto simp: pcan_twai_start_def split_beta Let_def split: if_splits)
  have "pcan_twai_start drv r m c = twai_bring_up drv r m ?c"
    using True e by (simp add: pcan_twai_start_def split_beta Let_def)
  moreover note stop_ok(1,3) [OF assms(1,2)]
  ultimately show ?thesis
    using bring_up_ok(2) [OF assms(1), of ?c r m] e assms(3,4) by (simp add: h_def)
next
  case False
  then have "pcan_twai_start drv r m c = twai_bring_up drv r m c" by (simp add: pcan_twai_start_def)
  then show ?thesis using bring_up_ok(2) [OF assms(1,2) False, of r m] assms(3,4) by (simp add: h_def)
qed

text \<open>Carrying out a snapshot.\<close>

definition apply_config :: "'d twai_drv \<Rightarrow> u32 \<times> bool \<times> bool \<Rightarrow> 'd can \<Rightarrow> esp_err \<times> 'd can" where
  "apply_config drv cfg c =
     (case cfg of (bitrate, silent, bus_on) \<Rightarrow>
        if bus_on then pcan_twai_reconfigure drv bitrate (mode_of silent) c else pcan_twai_stop drv c)"

lemma apply_config_ok:
  assumes "twai_documented drv" "hal_ok drv c"
  shows "hal_ok drv (snd (apply_config drv cfg c))"
    "fst (apply_config drv cfg c) = ESP_OK \<Longrightarrow> fst cfg \<noteq> 0 \<Longrightarrow> runs_with (fst (snd (apply_config drv cfg c))) cfg"
proof -
  obtain r m on where cfg: "cfg = (r, m, on)" by (cases cfg)
  show "hal_ok drv (snd (apply_config drv cfg c))"
    using start_keeps_ok [OF assms] stop_ok(1) [OF assms]
    by (simp add: cfg apply_config_def pcan_twai_reconfigure_def Let_def)
  show "runs_with (fst (snd (apply_config drv cfg c))) cfg"
    if "fst (apply_config drv cfg c) = ESP_OK" "fst cfg \<noteq> 0"
    using that start_runs [OF assms, of r "mode_of m"] stop_ok(3) [OF assms]
    by (auto simp: cfg apply_config_def runs_with_def pcan_twai_reconfigure_def Let_def split: if_splits)
qed

lemma dev_rate_nonzero: "dev_ok api st \<Longrightarrow> fst (dev_config st) \<noteq> 0"
  by (auto simp: dev_ok_def rate_listed_def dev_config_def PCAN_BTR_TABLE_INIT_def)

text \<open>What a reconfiguration does: the settings it carries out are those of a mirror \<open>dev\<close> that the
  later commands start from.\<close>

lemma reconfigure_acts:
  assumes "counting_sems api" "dev_ok api (bg_dev b)" "dv_reconfig_pending (bg_dev b)" "ce_parked env"
  obtains dev where "dev_ok api dev"
    "dv_reconfig_pending dev \<or> dev_config dev = dev_config (bg_dev b)" "ce_before env = [] \<Longrightarrow> \<not> dv_reconfig_pending dev"
    "dev_config dev = dev_config (fold (host_command api) (ce_before env) (pcan_cmd_clear_reconfig api (bg_dev b)))"
    "bg_dev (ctrl_reconfigure api drv env b) = fold (host_command api) (ce_after env) dev"
    "bg_can (ctrl_reconfigure api drv env b) = snd (apply_config drv (dev_config dev) (bg_can (bridge_alerts drv b)))"
    "bg_result (ctrl_reconfigure api drv env b) =
       Some (fst (apply_config drv (dev_config dev) (bg_can (bridge_alerts drv b))))"
proof -
  have free: "sem_is api (dv_lock (bg_dev b)) 1 1" using assms(2) by (simp add: dev_ok_def)
  obtain l where l: "pcan_cmd_clear_reconfig api (bg_dev b) = (bg_dev b)\<lparr>dv_reconfig_pending := False, dv_lock := l\<rparr>"
    by (rule cmd_clear_body [OF assms(1) free])
  define cleared where "cleared = pcan_cmd_clear_reconfig api (bg_dev b)"
  have c: "dev_ok api cleared" using dev_do_ok [OF assms(1,2), of ClearReconfig] by (simp add: cleared_def)
  have cc: "\<not> dv_reconfig_pending cleared" "dev_config cleared = dev_config (bg_dev b)"
    by (simp_all add: cleared_def l dev_config_def)
  define d where "d = fold (host_command api) (ce_before env) cleared"
  have d: "dev_ok api d" "dv_reconfig_pending d \<or> dev_config d = dev_config (bg_dev b)"
    using host_commands_ok [OF assms(1) c, of "ce_before env"] cc by (auto simp: d_def)
  have free2: "sem_is api (dv_lock d) 1 1" using d(1) by (simp add: dev_ok_def)
  obtain k where k: "pcan_cmd_snapshot api d = ((dv_bitrate d, dv_silent d, dv_bus_on d), d\<lparr>dv_lock := k\<rparr>)"
    "sem_is api k 1 1"
    by (rule cmd_snapshot_body [OF assms(1) free2])
  define dev where "dev = d\<lparr>dv_lock := k\<rparr>"
  have dev: "dev_config dev = (dv_bitrate d, dv_silent d, dv_bus_on d)" "dv_reconfig_pending dev = dv_reconfig_pending d"
    by (simp_all add: dev_def dev_config_def)
  have bd: "bg_dev (bridge_alerts drv (b\<lparr>bg_dev := cleared\<rparr>)) = cleared"
    "bg_can (bridge_alerts drv (b\<lparr>bg_dev := cleared\<rparr>)) = bg_can (bridge_alerts drv b)"
    by (simp_all add: bridge_alerts_def split_beta Let_def)
  have "ctrl_reconfigure api drv env b =
      (let b2 = bridge_alerts drv (b\<lparr>bg_dev := cleared\<rparr>);
           r = apply_config drv (dev_config dev) (bg_can b2)
       in b2\<lparr>bg_dev := fold (host_command api) (ce_after env) dev, bg_can := snd r,
             bg_done := queue_send (bg_done b2) CAN_TX_EVENT_ABORT, bg_result := Some (fst r)\<rparr>)"
    using assms(3,4)
    by (simp add: ctrl_reconfigure_def cleared_def [symmetric] bd d_def [symmetric] k dev_def [symmetric] dev
        apply_config_def mode_of_def split_beta Let_def)
  then have "bg_dev (ctrl_reconfigure api drv env b) = fold (host_command api) (ce_after env) dev"
    "bg_can (ctrl_reconfigure api drv env b) = snd (apply_config drv (dev_config dev) (bg_can (bridge_alerts drv b)))"
    "bg_result (ctrl_reconfigure api drv env b) =
       Some (fst (apply_config drv (dev_config dev) (bg_can (bridge_alerts drv b))))"
    by (simp_all add: Let_def bd)
  moreover have "dev_ok api dev" using d(1) k(2) dev_ok_lock by (simp add: dev_def)
  moreover have "dv_reconfig_pending dev \<or> dev_config dev = dev_config (bg_dev b)"
    using d(2) dev by (auto simp: dev_config_def)
  moreover have "dev_config dev = dev_config (fold (host_command api) (ce_before env) (pcan_cmd_clear_reconfig api (bg_dev b)))"
    using dev(1) by (simp add: d_def cleared_def dev_config_def)
  moreover have "\<not> dv_reconfig_pending dev" if "ce_before env = []" using that cc(1) dev(2) by (simp add: d_def)
  ultimately show ?thesis using that by blast
qed

lemma reconfigure_idle:
  "\<not> (dv_reconfig_pending (bg_dev b) \<and> ce_parked env) \<Longrightarrow> ctrl_reconfigure api drv env b = b"
  by (auto simp: ctrl_reconfigure_def)

lemma reconfigure_led:
  "bg_gpio (ctrl_reconfigure api drv env b) = bg_gpio b"
  "bg_last_led (ctrl_reconfigure api drv env b) = bg_last_led b"
  by (simp_all add: ctrl_reconfigure_def bridge_alerts_fields split_beta Let_def)

text \<open>The rest of a pass touches neither the mirror nor the controller's recorded settings.\<close>

lemma pass_tail:
  fixes b :: "('s, 'd) bridge"
  assumes "twai_documented drv" "hal_ok drv (bg_can (ctrl_reconfigure api drv env b))"
  defines "b1 \<equiv> ctrl_reconfigure api drv env b" and "b2 \<equiv> ctrl_pass api drv env b"
  shows "bg_dev b2 = bg_dev b1" "fst (bg_can b2) = fst (bg_can b1)" "hal_ok drv (bg_can b2)"
    "bg_result b2 = bg_result b1" "bg_gpio b1 = bg_last_led b1 \<Longrightarrow> bg_gpio b2 = dv_led_on (bg_dev b2) \<and> bg_last_led b2 = bg_gpio b2"
proof -
  have s: "bg_dev (bridge_log_stats api drv u x) = bg_dev x" "bg_can (bridge_log_stats api drv u x) = bg_can x"
    "bg_result (bridge_log_stats api drv u x) = bg_result x" "bg_gpio (bridge_log_stats api drv u x) = bg_gpio x"
    "bg_last_led (bridge_log_stats api drv u x) = bg_last_led x" for u and x :: "('s, 'd) bridge"
    by (simp_all add: bridge_log_stats_def split_beta Let_def)
  have l: "bg_dev (bridge_led x) = bg_dev x" "bg_can (bridge_led x) = bg_can x" "bg_result (bridge_led x) = bg_result x"
    "bg_gpio x = bg_last_led x \<Longrightarrow> bg_gpio (bridge_led x) = dv_led_on (bg_dev x) \<and> bg_last_led (bridge_led x) = bg_gpio (bridge_led x)"
    for x :: "('s, 'd) bridge"
    by (auto simp: bridge_led_def)
  note a = bridge_alerts_keeps [OF assms(1,2)]
  show "bg_dev b2 = bg_dev b1" "fst (bg_can b2) = fst (bg_can b1)" "hal_ok drv (bg_can b2)" "bg_result b2 = bg_result b1"
    using a by (simp_all add: b1_def b2_def ctrl_pass_def Let_def s l bridge_alerts_fields)
  show "bg_gpio b2 = dv_led_on (bg_dev b2) \<and> bg_last_led b2 = bg_gpio b2" if "bg_gpio b1 = bg_last_led b1"
    using that l(4) [of "bridge_alerts drv b1"]
    by (simp add: b1_def b2_def ctrl_pass_def Let_def s l bridge_alerts_fields)
qed

subsection \<open>Histories\<close>

text \<open>What can happen after the bring-up: a host command, a pass of the control task, a change of the
  driver's own state that neither installs nor removes it.\<close>

datatype 'd bridge_event = HostCmd "u8 list" | CtrlPass ctrl_env | DriverMoves 'd

fun bridge_do :: "'s sem_api \<Rightarrow> 'd twai_drv \<Rightarrow> 'd bridge_event \<Rightarrow> ('s, 'd) bridge \<Rightarrow> ('s, 'd) bridge" where
  "bridge_do api drv (HostCmd cmd) b = b\<lparr>bg_dev := host_command api cmd (bg_dev b)\<rparr>"
| "bridge_do api drv (CtrlPass env) b = ctrl_pass api drv env b"
| "bridge_do api drv (DriverMoves d) b =
     (if (drv_state drv d = TWAI_UNINSTALLED) = (drv_state drv (snd (bg_can b)) = TWAI_UNINSTALLED)
      then b\<lparr>bg_can := (fst (bg_can b), d)\<rparr> else b)"

definition bridge_boot :: "'s pcan_dev_state \<Rightarrow> 's pcan_ringbuf \<Rightarrow> 's pcan_ringbuf \<Rightarrow> 'd \<Rightarrow> ('s, 'd) bridge" where
  "bridge_boot dev rx tx d =
     \<lparr>bg_dev = dev, bg_can = (hal_init, d), bg_evt = [], bg_done = [], bg_rx_ring = rx, bg_tx_ring = tx,
      bg_usb_in_busy = 0, bg_task = tx_task_start, bg_last_led = False, bg_gpio = False, bg_last_stats_us = 0,
      bg_last = \<lparr>sl_counters = zero_counters,
        sl_twai = \<lparr>st_state = TWAI_HAL_STATE_STOPPED, st_tx_error_counter = 0, st_rx_error_counter = 0,
                   st_tx_failed_count = 0, st_rx_missed_count = 0, st_rx_overrun_count = 0,
                   st_arb_lost_count = 0, st_bus_error_count = 0\<rparr>\<rparr>,
      bg_reports = [], bg_result = None\<rparr>"

definition bridge_ok :: "'s sem_api \<Rightarrow> 'd twai_drv \<Rightarrow> ('s, 'd) bridge \<Rightarrow> bool" where
  "bridge_ok api drv b \<longleftrightarrow>
     dev_ok api (bg_dev b) \<and> hal_ok drv (bg_can b) \<and> bg_gpio b = bg_last_led b \<and>
     (bg_result b = Some ESP_OK \<longrightarrow> settled b)"

lemma pass_bridge_ok:
  assumes "counting_sems api" "twai_documented drv" "bridge_ok api drv b"
  shows "bridge_ok api drv (ctrl_pass api drv env b)"
proof -
  have B: "dev_ok api (bg_dev b)" "hal_ok drv (bg_can b)" "bg_gpio b = bg_last_led b"
    "bg_result b = Some ESP_OK \<Longrightarrow> settled b"
    using assms(3) by (simp_all add: bridge_ok_def)
  let ?r = "ctrl_reconfigure api drv env b"
  have r: "dev_ok api (bg_dev ?r) \<and> hal_ok drv (bg_can ?r) \<and> (bg_result ?r = Some ESP_OK \<longrightarrow> settled ?r)"
  proof (cases "dv_reconfig_pending (bg_dev b) \<and> ce_parked env")
    case True
    note a = bridge_alerts_keeps [OF assms(2) B(2)]
    note ap = apply_config_ok [OF assms(2) a(1)]
    obtain dev where dev: "dev_ok api dev"
      "bg_dev ?r = fold (host_command api) (ce_after env) dev"
      "bg_can ?r = snd (apply_config drv (dev_config dev) (bg_can (bridge_alerts drv b)))"
      "bg_result ?r = Some (fst (apply_config drv (dev_config dev) (bg_can (bridge_alerts drv b))))"
      by (rule reconfigure_acts [where drv = drv, OF assms(1) B(1) conjunct1 [OF True] conjunct2 [OF True]])
    have "settled ?r" if "bg_result ?r = Some ESP_OK"
      using ap(2) [OF _ dev_rate_nonzero [OF dev(1)]] that host_commands_ok(2) [OF assms(1) dev(1), of "ce_after env"] dev
      by (auto simp: settled_def)
    then show ?thesis
      using host_commands_ok(1) [OF assms(1) dev(1)] ap(1) dev by simp
  next
    case False
    then show ?thesis using B by (simp add: reconfigure_idle)
  qed
  note t = pass_tail [OF assms(2), of api env b]
  show ?thesis
    using r t B(3) by (simp add: bridge_ok_def settled_def reconfigure_led)
qed

lemma bridge_do_ok:
  assumes "counting_sems api" "twai_documented drv" "bridge_ok api drv b"
  shows "bridge_ok api drv (bridge_do api drv ev b)"
proof (cases ev)
  case (HostCmd cmd)
  have d: "dev_ok api (bg_dev b)" using assms(3) by (simp add: bridge_ok_def)
  show ?thesis
    using assms(3) HostCmd host_command_ok [OF assms(1) d] host_command_flags [OF assms(1) d, of cmd]
    by (auto simp: bridge_ok_def settled_def)
next
  case (CtrlPass env)
  then show ?thesis using pass_bridge_ok [OF assms] by simp
next
  case (DriverMoves d)
  then show ?thesis using assms(3) by (auto simp: bridge_ok_def hal_ok_def settled_def)
qed

lemma boot_ok:
  assumes "twai_documented drv" "dev_ok api dev" "drv_state drv d = TWAI_UNINSTALLED"
  shows "bridge_ok api drv (ctrl_start drv (bridge_boot dev rx tx d))"
proof -
  have "hal_ok drv (hal_init, d)" using assms(3) by (simp add: hal_ok_def hal_init_def s_supported_bitrates_def)
  then show ?thesis
    using start_keeps_ok [OF assms(1)] assms(2) by (simp add: bridge_ok_def ctrl_start_def bridge_boot_def)
qed

lemma bridge_history_ok:
  assumes "counting_sems api" "twai_documented drv" "bridge_ok api drv b"
  shows "bridge_ok api drv (fold (bridge_do api drv) events b)"
  using assms(3) by (induction events arbitrary: b) (simp_all add: bridge_do_ok [OF assms(1,2)])

subsection \<open>Properties\<close>


definition demo_env :: ctrl_env where
  "demo_env = \<lparr>ce_parked = True, ce_before = [], ce_after = [], ce_now_us = 0, ce_usb = zero_stats\<rparr>"

definition demo_bridge :: "(nat \<times> nat, demo_drv) bridge" where
  "demo_bridge = fold (bridge_do pair_sems demo_twai)
     [HostCmd (cmd16 [1, 2, 0x1C, 1]), HostCmd (cmd16 [3, 2, 1]), CtrlPass demo_env]
     (ctrl_start demo_twai (bridge_boot demo_dev zero_rb zero_rb (TWAI_UNINSTALLED, [], [])))"

lemma demo_bridge_result:
  "bg_result demo_bridge = Some ESP_OK" "\<not> dv_reconfig_pending (bg_dev demo_bridge)"
  "dev_config (bg_dev demo_bridge) = (250000, False, True)"
  by code_simp+


lemma apply_config_recovering:
  assumes "twai_documented drv" "hal_ok drv c" "drv_state drv (snd c) = TWAI_STATE_RECOVERING"
  shows "fst (apply_config drv cfg c) \<noteq> ESP_OK \<and> fst (snd (apply_config drv cfg c)) = fst c"
proof -
  have "s_installed (fst c)" using assms(2,3) by (simp add: hal_ok_def)
  moreover have "fst (pcan_twai_stop drv c) \<noteq> ESP_OK" using stop_ok(2) [OF assms(1,2)] assms(3) by simp
  moreover from this have "fst (snd (pcan_twai_stop drv c)) = fst c" using stop_ok(4) [OF assms(1,2)] by simp
  ultimately show ?thesis
    by (cases cfg) (simp add: apply_config_def pcan_twai_reconfigure_def pcan_twai_start_def split_beta Let_def)
qed

text \<open>Without a flag and without commands nothing happens to the settings.\<close>

definition forgotten :: "'d twai_drv \<Rightarrow> 's pcan_dev_state \<Rightarrow> hal \<Rightarrow> ('s, 'd) bridge \<Rightarrow> bool" where
  "forgotten drv dev h b \<longleftrightarrow>
     bg_result b \<noteq> Some ESP_OK \<and> \<not> dv_reconfig_pending (bg_dev b) \<and>
     dev_config (bg_dev b) = dev_config dev \<and> fst (bg_can b) = h \<and> hal_ok drv (bg_can b)"

lemma quiet_event:
  assumes "twai_documented drv" "forgotten drv dev h b" "\<And>cmd. ev \<noteq> HostCmd cmd"
  shows "forgotten drv dev h (bridge_do api drv ev b)"
proof (cases ev)
  case (CtrlPass env)
  have r: "ctrl_reconfigure api drv env b = b" using assms(2) by (intro reconfigure_idle) (simp add: forgotten_def)
  then have "hal_ok drv (bg_can (ctrl_reconfigure api drv env b))" using assms(2) by (simp add: forgotten_def)
  from pass_tail [OF assms(1) this] show ?thesis using assms(2) CtrlPass r by (simp add: forgotten_def)
next
  case (DriverMoves d)
  then show ?thesis using assms(2) by (auto simp: forgotten_def hal_ok_def)
qed (use assms(3) in blast)

lemma quiet_history:
  assumes "twai_documented drv" "forgotten drv dev h b" "\<And>ev cmd. ev \<in> set events \<Longrightarrow> ev \<noteq> HostCmd cmd"
  shows "forgotten drv dev h (fold (bridge_do api drv) events b)"
  using assms(2,3) by (induction events arbitrary: b) (simp_all add: quiet_event [OF assms(1)])

text \<open>C34. A reconfiguration that fails is forgotten: its flag was cleared before the attempt, so no later
  pass repeats it, however many follow and whatever the driver does meanwhile (it may long have
  recovered), until the host sends another command; the controller keeps the settings the failed
  attempt left.\<close>

theorem failed_reconfigure_is_forgotten:
  fixes api :: "'s sem_api" and drv :: "'d twai_drv" and later :: "'d bridge_event list"
  assumes "counting_sems api" "twai_documented drv" "bridge_ok api drv b"
    and "dv_reconfig_pending (bg_dev b)" "ce_parked env" "ce_before env = []" "ce_after env = []"
    and "drv_state drv (snd (bg_can (bridge_alerts drv b))) = TWAI_STATE_RECOVERING"
    and "\<And>ev cmd. ev \<in> set later \<Longrightarrow> ev \<noteq> HostCmd cmd"
  defines "b' \<equiv> fold (bridge_do api drv) later (ctrl_pass api drv env b)"
  shows "bg_result b' \<noteq> Some ESP_OK \<and> \<not> dv_reconfig_pending (bg_dev b') \<and>
    dev_config (bg_dev b') = dev_config (bg_dev b) \<and> fst (bg_can b') = fst (bg_can b)"
proof -
  have B: "dev_ok api (bg_dev b)" "hal_ok drv (bg_can b)" using assms(3) by (simp_all add: bridge_ok_def)
  note a = bridge_alerts_keeps [OF assms(2) B(2)]
  let ?r = "ctrl_reconfigure api drv env b"
  obtain dev where dev: "dv_reconfig_pending dev \<or> dev_config dev = dev_config (bg_dev b)" "\<not> dv_reconfig_pending dev"
    "bg_dev ?r = dev" "bg_can ?r = snd (apply_config drv (dev_config dev) (bg_can (bridge_alerts drv b)))"
    "bg_result ?r = Some (fst (apply_config drv (dev_config dev) (bg_can (bridge_alerts drv b))))"
    using assms(6,7) by (rule_tac reconfigure_acts [where drv = drv, OF assms(1) B(1) assms(4,5)]) auto
  note f = apply_config_recovering [OF assms(2) a(1) assms(8), of "dev_config dev"]
  have "hal_ok drv (bg_can ?r)" using apply_config_ok(1) [OF assms(2) a(1)] dev(4) by simp
  note t = pass_tail [OF assms(2) this]
  have "forgotten drv (bg_dev b) (fst (bg_can b)) (ctrl_pass api drv env b)"
    using t dev f a(2) by (simp add: forgotten_def)
  then have "forgotten drv (bg_dev b) (fst (bg_can b)) b'"
    unfolding b'_def using assms(9) by (rule quiet_history [OF assms(2)])
  then show ?thesis by (simp add: forgotten_def)
qed

definition demo_recovering :: "(nat \<times> nat, demo_drv) bridge" where
  "demo_recovering = fold (bridge_do pair_sems demo_twai)
     [HostCmd (cmd16 [1, 2, 0x1C, 1]), HostCmd (cmd16 [3, 2, 1]), CtrlPass demo_env,
      DriverMoves (TWAI_STATE_BUS_OFF, [], [TWAI_ALERT_BUS_OFF]), CtrlPass demo_env, HostCmd (cmd16 [1, 2, 0x1C, 3])]
     (ctrl_start demo_twai (bridge_boot demo_dev zero_rb zero_rb (TWAI_UNINSTALLED, [], [])))"

definition demo_later :: "demo_drv bridge_event list" where
  "demo_later = [DriverMoves (TWAI_STATE_STOPPED, [], [TWAI_ALERT_BUS_RECOVERED]), CtrlPass demo_env, CtrlPass demo_env]"

lemma demo_recovering_facts:
  "dv_reconfig_pending (bg_dev demo_recovering)" "dev_config (bg_dev demo_recovering) = (125000, False, True)"
  "drv_state demo_twai (snd (bg_can (bridge_alerts demo_twai demo_recovering))) = TWAI_STATE_RECOVERING"
  "s_bitrate (fst (bg_can demo_recovering)) = 250000"
  by code_simp+

lemma demo_after_running:
  "drv_state demo_twai (snd (bg_can (fold (bridge_do pair_sems demo_twai) demo_later
     (ctrl_pass pair_sems demo_twai demo_env demo_recovering)))) = TWAI_STATE_RUNNING"
  by code_simp

theorem failed_reconfigure_is_forgotten_witness:
  "let b = fold (bridge_do pair_sems demo_twai) demo_later (ctrl_pass pair_sems demo_twai demo_env demo_recovering)
   in \<not> dv_reconfig_pending (bg_dev b) \<and> dev_config (bg_dev b) = (125000, False, True) \<and>
      s_bitrate (fst (bg_can b)) = 250000 \<and> drv_state demo_twai (snd (bg_can b)) = TWAI_STATE_RUNNING"
proof -
  have u: "drv_state demo_twai (TWAI_UNINSTALLED, [], []) = TWAI_UNINSTALLED" by (simp add: demo_twai_def)
  have ok: "bridge_ok pair_sems demo_twai demo_recovering"
    unfolding demo_recovering_def
    by (rule bridge_history_ok [OF pair_sems_ok demo_documented boot_ok [OF demo_documented init_dev_ok [OF demo_dev_init demo_mutex] u]])
  have e: "ce_parked demo_env" "ce_before demo_env = []" "ce_after demo_env = []" by (simp_all add: demo_env_def)
  have l: "\<And>ev cmd. ev \<in> set demo_later \<Longrightarrow> ev \<noteq> HostCmd cmd" by (auto simp: demo_later_def)
  show ?thesis
    using failed_reconfigure_is_forgotten [OF pair_sems_ok demo_documented ok demo_recovering_facts(1) e
        demo_recovering_facts(3) l] demo_recovering_facts(2,4) demo_after_running
    by (simp add: Let_def)
qed

text \<open>Commands that open the bus.\<close>

definition opens_bus :: "u8 list \<Rightarrow> bool" where
  "opens_bus cmd \<longleftrightarrow> PCAN_USB_CMD_LEN \<le> length cmd \<and> cmd ! 0 = PCAN_USB_CMD_SET_BUS \<and>
     cmd ! 1 = PCAN_USB_BUS_XCVER \<and> cmd ! 2 \<noteq> 0"

fun event_opens_bus :: "'d bridge_event \<Rightarrow> bool" where
  "event_opens_bus (HostCmd cmd) = opens_bus cmd"
| "event_opens_bus (CtrlPass env) = (list_ex opens_bus (ce_before env) \<or> list_ex opens_bus (ce_after env))"
| "event_opens_bus (DriverMoves d) = False"

lemma switch_keeps_closed:
  "\<not> dv_bus_on st \<Longrightarrow> \<not> (func = PCAN_USB_CMD_SET_BUS \<and> num = PCAN_USB_BUS_XCVER \<and> args ! 0 \<noteq> 0) \<Longrightarrow>
    \<not> dv_bus_on (snd (snd (cmd_switch func num args st)))"
  by (auto simp: cmd_switch_def Let_def)

lemma host_command_keeps_closed:
  assumes "counting_sems api" "dev_ok api st" "\<not> opens_bus cmd" "\<not> dv_bus_on st"
  shows "\<not> dv_bus_on (host_command api cmd st)"
proof (cases "length cmd < PCAN_USB_CMD_LEN")
  case True
  then show ?thesis using assms(4) by (simp add: host_command_def pcan_cmd_handle_def)
next
  case False
  have free: "sem_is api (dv_lock st) 1 1" using assms(2) by (simp add: dev_ok_def)
  let ?st = "snd (snd (cmd_switch (cmd ! 0) (cmd ! 1) (drop 2 cmd) st))"
  obtain l where "host_command api cmd st = ?st\<lparr>dv_lock := l\<rparr>"
    using cmd_handle_body [OF assms(1) free, of cmd] False by (metis host_command_def linorder_not_less snd_conv)
  moreover have "drop 2 cmd ! 0 = cmd ! 2" using False by simp
  then have "\<not> dv_bus_on ?st"
    using assms(3,4) False by (intro switch_keeps_closed) (auto simp: opens_bus_def)
  ultimately show ?thesis by simp
qed

lemma host_commands_keep_closed:
  assumes "counting_sems api" "dev_ok api st" "\<not> list_ex opens_bus cmds" "\<not> dv_bus_on st"
  shows "\<not> dv_bus_on (fold (host_command api) cmds st)"
  using assms(2-)
  by (induction cmds arbitrary: st)
    (simp_all add: host_command_ok [OF assms(1)] host_command_keeps_closed [OF assms(1)])

definition closed_and_silent :: "('s, 'd) bridge \<Rightarrow> bool" where
  "closed_and_silent b \<longleftrightarrow>
     \<not> dv_bus_on (bg_dev b) \<and> (s_installed (fst (bg_can b)) \<longrightarrow> s_mode (fst (bg_can b)) = TWAI_HAL_MODE_LISTEN_ONLY)"

lemma pass_closed:
  assumes "counting_sems api" "twai_documented drv" "bridge_ok api drv b" "closed_and_silent b"
    and "\<not> event_opens_bus (CtrlPass env :: 'd bridge_event)"
  shows "closed_and_silent (ctrl_pass api drv env b)"
proof -
  have B: "dev_ok api (bg_dev b)" "hal_ok drv (bg_can b)" using assms(3) by (simp_all add: bridge_ok_def)
  note a = bridge_alerts_keeps [OF assms(2) B(2)]
  let ?r = "ctrl_reconfigure api drv env b"
  have "closed_and_silent ?r \<and> hal_ok drv (bg_can ?r)"
  proof (cases "dv_reconfig_pending (bg_dev b) \<and> ce_parked env")
    case True
    have free: "sem_is api (dv_lock (bg_dev b)) 1 1" using B(1) by (simp add: dev_ok_def)
    have cl: "dev_ok api (pcan_cmd_clear_reconfig api (bg_dev b))"
      using dev_do_ok [OF assms(1) B(1), of ClearReconfig] by simp
    have "\<not> dv_bus_on (pcan_cmd_clear_reconfig api (bg_dev b))"
      using assms(4) by (auto simp: closed_and_silent_def pcan_cmd_clear_reconfig_def cmd_lock_def cmd_unlock_def
          split_beta Let_def split: option.splits)
    from host_commands_keep_closed [OF assms(1) cl _ this, of "ce_before env"]
    have bf: "\<not> dv_bus_on (fold (host_command api) (ce_before env) (pcan_cmd_clear_reconfig api (bg_dev b)))"
      using assms(5) by simp
    obtain dev where dev: "dev_ok api dev"
      "dev_config dev = dev_config (fold (host_command api) (ce_before env) (pcan_cmd_clear_reconfig api (bg_dev b)))"
      "bg_dev ?r = fold (host_command api) (ce_after env) dev"
      "bg_can ?r = snd (apply_config drv (dev_config dev) (bg_can (bridge_alerts drv b)))"
      by (rule reconfigure_acts [where drv = drv, OF assms(1) B(1) conjunct1 [OF True] conjunct2 [OF True]])
    have off: "\<not> dv_bus_on dev" using dev(2) bf by (simp add: dev_config_def)
    then have c: "bg_can ?r = snd (pcan_twai_stop drv (bg_can (bridge_alerts drv b)))"
      by (simp add: dev(4) apply_config_def dev_config_def)
    have "\<not> dv_bus_on (bg_dev ?r)"
      unfolding dev(3) using host_commands_keep_closed [OF assms(1) dev(1) _ off, of "ce_after env"] assms(5) by simp
    then show ?thesis
      using c stop_ok(1,4) [OF assms(2) a(1)] a(2) assms(4) by (simp add: closed_and_silent_def)
  next
    case False
    then show ?thesis using assms(4) B by (simp add: reconfigure_idle)
  qed
  then show ?thesis using pass_tail(1,2) [OF assms(2), of api env b] by (simp add: closed_and_silent_def)
qed

lemma start_closed:
  assumes "twai_documented drv" "dev_ok api dev" "\<not> dv_bus_on dev" "drv_state drv d = TWAI_UNINSTALLED"
  shows "closed_and_silent (ctrl_start drv (bridge_boot dev rx tx d))"
proof -
  have ok: "hal_ok drv (hal_init, d)" using assms(4) by (simp add: hal_ok_def hal_init_def s_supported_bitrates_def)
  have n: "\<not> s_installed (fst (hal_init, d))" by (simp add: hal_init_def)
  let ?r = "pcan_twai_start drv PCAN_USB_DEFAULT_BITRATE TWAI_HAL_MODE_LISTEN_ONLY (hal_init, d)"
  have "?r = twai_bring_up drv PCAN_USB_DEFAULT_BITRATE TWAI_HAL_MODE_LISTEN_ONLY (hal_init, d)"
    using n by (simp add: pcan_twai_start_def)
  then have "s_installed (fst (snd ?r)) \<Longrightarrow> s_mode (fst (snd ?r)) = TWAI_HAL_MODE_LISTEN_ONLY"
    using bring_up_ok(2,3) [OF assms(1) ok n, of PCAN_USB_DEFAULT_BITRATE TWAI_HAL_MODE_LISTEN_ONLY] n
    by (cases "fst ?r = ESP_OK") auto
  then show ?thesis using assms(3) by (simp add: closed_and_silent_def ctrl_start_def bridge_boot_def)
qed

lemma closed_history:
  fixes events :: "'d bridge_event list"
  assumes "counting_sems api" "twai_documented drv" "bridge_ok api drv b" "closed_and_silent b"
    and "\<not> list_ex event_opens_bus events"
  shows "closed_and_silent (fold (bridge_do api drv) events b)"
  using assms(3-)
proof (induction events arbitrary: b)
  case (Cons ev events)
  have d: "dev_ok api (bg_dev b)" using Cons.prems(1) by (simp add: bridge_ok_def)
  have "closed_and_silent (bridge_do api drv ev b)"
  proof (cases ev)
    case (HostCmd cmd)
    then show ?thesis using Cons.prems(2,3) host_command_keeps_closed [OF assms(1) d] by (simp add: closed_and_silent_def)
  next
    case (CtrlPass env)
    then show ?thesis using pass_closed [OF assms(1,2) Cons.prems(1,2), of env] Cons.prems(3) by simp
  next
    case (DriverMoves x)
    then show ?thesis using Cons.prems(2) by (simp add: closed_and_silent_def)
  qed
  then show ?case using Cons.IH [OF bridge_do_ok [OF assms(1,2) Cons.prems(1)]] Cons.prems(3) by simp
qed simp

text \<open>C17. Until the host opens the bus the adapter is silent: whatever other commands, passes and driver
  events there are after power-on, a transmit request is refused and never reaches the driver.\<close>

theorem silent_until_opened:
  fixes api :: "'s sem_api" and drv :: "'d twai_drv" and events :: "'d bridge_event list"
    and rx tx :: "'s pcan_ringbuf"
  assumes "counting_sems api" "twai_documented drv" "sem_is api mutex 1 1"
    and "pcan_cmd_init mutex = (True, dev)" "drv_state drv d = TWAI_UNINSTALLED"
    and "\<not> list_ex event_opens_bus events"
  defines "b \<equiv> fold (bridge_do api drv) events (ctrl_start drv (bridge_boot dev rx tx d))"
  shows "pcan_twai_transmit drv frame ticks (bg_can b) =
    (if s_installed (fst (bg_can b)) then ESP_ERR_NOT_SUPPORTED else ESP_ERR_INVALID_STATE, bg_can b)"
proof -
  have ok: "dev_ok api dev" by (rule init_dev_ok [OF assms(4,3)])
  have off: "\<not> dv_bus_on dev" using assms(4) by (auto simp: pcan_cmd_init_def Let_def split: if_splits)
  have "closed_and_silent b"
    unfolding b_def by (rule closed_history [OF assms(1,2) boot_ok [OF assms(2) ok assms(5)] start_closed
        [OF assms(2) ok off assms(5)] assms(6)])
  then show ?thesis by (cases "bg_can b") (auto simp: closed_and_silent_def pcan_twai_transmit_def)
qed

theorem silent_until_opened_witness:
  "fst (pcan_twai_transmit demo_twai zero_frame 20
     (bg_can (fold (bridge_do pair_sems demo_twai) [HostCmd (cmd16 [1, 2, 0x1C, 1])]
       (ctrl_start demo_twai (bridge_boot demo_dev zero_rb zero_rb (TWAI_UNINSTALLED, [], [])))))) = ESP_ERR_NOT_SUPPORTED"
proof -
  have u: "drv_state demo_twai (TWAI_UNINSTALLED, [], []) = TWAI_UNINSTALLED" by (simp add: demo_twai_def)
  have n: "\<not> list_ex event_opens_bus [HostCmd (cmd16 [1, 2, 0x1C, 1]) :: demo_drv bridge_event]"
    by (simp add: opens_bus_def cmd16_def)
  have i: "s_installed (fst (bg_can (fold (bridge_do pair_sems demo_twai) [HostCmd (cmd16 [1, 2, 0x1C, 1])]
       (ctrl_start demo_twai (bridge_boot demo_dev zero_rb zero_rb (TWAI_UNINSTALLED, [], []))))))"
    by code_simp
  show ?thesis
    using silent_until_opened [OF pair_sems_ok demo_documented demo_mutex demo_dev_init u n, of zero_frame 20 zero_rb zero_rb] i
    by simp
qed

subsection \<open>Nothing that was counted goes unreported\<close>

record stats_sample =
  sm_rx_drops :: u32
  sm_tx_drops :: u32
  sm_usb :: usb_glue_stats
  sm_counters :: bridge_counters
  sm_twai :: "pcan_twai_status option"

fun stats_run :: "stats_sample list \<Rightarrow> stats_last \<Rightarrow> stats_report list \<times> stats_last" where
  "stats_run [] old = ([], old)"
| "stats_run (s # ss) old =
     (let (r, old) = bridge_stats (sm_rx_drops s) (sm_tx_drops s) (sm_usb s) (sm_counters s) (sm_twai s) old;
          (rs, old) = stats_run ss old
      in ((case r of None \<Rightarrow> [] | Some r \<Rightarrow> [r]) @ rs, old))"

definition counters_add :: "bridge_counters \<Rightarrow> bridge_counters \<Rightarrow> bridge_counters" where
  "counters_add a b =
     \<lparr>bc_usb_in_busy = bc_usb_in_busy a + bc_usb_in_busy b, bc_can_tx_timeout = bc_can_tx_timeout a + bc_can_tx_timeout b,
      bc_can_tx_state = bc_can_tx_state a + bc_can_tx_state b, bc_can_tx_resubmits = bc_can_tx_resubmits a + bc_can_tx_resubmits b,
      bc_can_tx_confirm_timeouts = bc_can_tx_confirm_timeouts a + bc_can_tx_confirm_timeouts b,
      bc_can_tx_listen_drops = bc_can_tx_listen_drops a + bc_can_tx_listen_drops b\<rparr>"

definition stats_add :: "usb_glue_stats \<Rightarrow> usb_glue_stats \<Rightarrow> usb_glue_stats" where
  "stats_add a b =
     \<lparr>us_tx_backpressure_retries = us_tx_backpressure_retries a + us_tx_backpressure_retries b,
      us_tx_pending_reset_drops = us_tx_pending_reset_drops a + us_tx_pending_reset_drops b,
      us_cmd_out_rearm_failures = us_cmd_out_rearm_failures a + us_cmd_out_rearm_failures b,
      us_msg_out_rearm_failures = us_msg_out_rearm_failures a + us_msg_out_rearm_failures b,
      us_msg_in_failed_retries = us_msg_in_failed_retries a + us_msg_in_failed_retries b,
      us_msg_in_reset_drops = us_msg_in_reset_drops a + us_msg_in_reset_drops b\<rparr>"

lemma counters_add_zero [simp]: "counters_add zero_counters c = c"
  by (cases c) (simp add: counters_add_def zero_counters_def)

lemma stats_add_zero [simp]: "stats_add zero_stats u = u"
  by (cases u) (simp add: stats_add_def zero_stats_def)

lemma delta_chain: "counters_add (counters_delta b a) (counters_delta c b) = counters_delta c a"
  by (simp add: counters_add_def counters_delta_def)

lemma delta_self: "counters_delta a a = zero_counters"
  by (simp add: counters_delta_def zero_counters_def)

lemma bridge_stats_silent:
  assumes "fst (bridge_stats rx tx usb now twai old) = None"
  shows "rx = 0" "tx = 0" "usb = zero_stats" "counters_delta now (sl_counters old) = zero_counters"
  using assms by (cases usb; simp add: bridge_stats_def Let_def zero_stats_def counters_delta_def zero_counters_def split: if_splits)+

lemma bridge_stats_report:
  "fst (bridge_stats rx tx usb now twai old) = Some r \<Longrightarrow>
     rp_delta r = counters_delta now (sl_counters old) \<and> rp_usb r = usb \<and> rp_rx_ring_drops r = rx \<and> rp_tx_ring_drops r = tx"
  by (auto simp: bridge_stats_def Let_def split: if_splits)

lemma bridge_stats_last: "sl_counters (snd (bridge_stats rx tx usb now twai old)) = now"
  by (simp add: bridge_stats_def Let_def)

text \<open>The statistics lose nothing: over any series of samples the drops, the glue's counts and the
  counter increments in the printed reports add up (in 32-bit arithmetic, so across wrap-around) to
  exactly what was sampled, because a sample is left out only when it has nothing to say.\<close>

theorem stats_account_for_everything:
  assumes "stats_run samples old = (reports, old')"
  shows "foldr counters_add (map rp_delta reports) zero_counters =
      counters_delta (sl_counters old') (sl_counters old) \<and>
    foldr stats_add (map rp_usb reports) zero_stats = foldr stats_add (map sm_usb samples) zero_stats \<and>
    sum_list (map rp_rx_ring_drops reports) = sum_list (map sm_rx_drops samples) \<and>
    sum_list (map rp_tx_ring_drops reports) = sum_list (map sm_tx_drops samples)"
  using assms
proof (induction samples arbitrary: old reports old')
  case Nil
  then show ?case by (simp add: delta_self)
next
  case (Cons s ss)
  obtain r old1 where b: "bridge_stats (sm_rx_drops s) (sm_tx_drops s) (sm_usb s) (sm_counters s) (sm_twai s) old = (r, old1)"
    by fastforce
  obtain rs old2 where t: "stats_run ss old1 = (rs, old2)" by fastforce
  have e: "reports = (case r of None \<Rightarrow> [] | Some r \<Rightarrow> [r]) @ rs" "old' = old2" using Cons.prems by (simp_all add: b t)
  note IH = Cons.IH [OF t]
  have c: "sl_counters old1 = sm_counters s" using bridge_stats_last b by (metis snd_conv)
  show ?case
  proof (cases r)
    case None
    then have "fst (bridge_stats (sm_rx_drops s) (sm_tx_drops s) (sm_usb s) (sm_counters s) (sm_twai s) old) = None"
      by (simp add: b)
    note S = bridge_stats_silent [OF this]
    have "counters_delta (sl_counters old2) (sl_counters old) = counters_delta (sl_counters old2) (sl_counters old1)"
      using delta_chain [of "sl_counters old1" "sl_counters old" "sl_counters old2"] S(4) c by simp
    then show ?thesis using IH S(1-3) None e by simp
  next
    case (Some q)
    then have "fst (bridge_stats (sm_rx_drops s) (sm_tx_drops s) (sm_usb s) (sm_counters s) (sm_twai s) old) = Some q"
      by (simp add: b)
    note R = bridge_stats_report [OF this]
    show ?thesis
      using IH R Some e c delta_chain [of "sl_counters old1" "sl_counters old" "sl_counters old2"] by simp
  qed
qed

definition demo_samples :: "stats_sample list" where
  "demo_samples =
     [\<lparr>sm_rx_drops = 3, sm_tx_drops = 0, sm_usb = zero_stats, sm_counters = zero_counters, sm_twai = None\<rparr>,
      \<lparr>sm_rx_drops = 0, sm_tx_drops = 0, sm_usb = zero_stats, sm_counters = zero_counters, sm_twai = None\<rparr>]"

theorem stats_account_for_everything_witness:
  "let rs = fst (stats_run demo_samples (bg_last (bridge_boot demo_dev zero_rb zero_rb ())))
   in length rs = 1 \<and> sum_list (map rp_rx_ring_drops rs) = 3"
proof -
  have l: "length (fst (stats_run demo_samples (bg_last (bridge_boot demo_dev zero_rb zero_rb ())))) = 1"
    by (simp add: demo_samples_def bridge_stats_def Let_def bridge_boot_def counters_delta_def zero_counters_def
        zero_stats_def twai_changed_def)
  show ?thesis
    using stats_account_for_everything [OF surjective_pairing, of demo_samples "bg_last (bridge_boot demo_dev zero_rb zero_rb ())"] l
    by (simp add: demo_samples_def Let_def)
qed

end
