(* ===== verification/Isotp.thy ===== *)
theory Isotp
  imports Pcan_Proto
begin

text \<open>
  The transport of the bench mode, \<open>main/isotp.c\<close>: ISO-TP on classic CAN frames, one link with a
  send side and a receive side. The platform hooks are external: \<open>can_tx\<close> is a function on an
  abstract environment, and every call gets the value of \<open>millis\<close>, which no call reads twice.
  Buffers are lists of \<open>ISOTP_MAX_MSG\<close> bytes; lengths and offsets are \<open>nat\<close>, bounded by
  \<open>link_ok\<close>; sequence numbers, block counters and times are words and wrap.
\<close>

subsection \<open>Constants and state\<close>

definition ISOTP_CAN_DL :: nat where [simp]: "ISOTP_CAN_DL = 8"
definition ISOTP_MAX_MSG :: nat where [simp]: "ISOTP_MAX_MSG = 4095"
definition ISOTP_NO_FUNC_ID :: u32 where [simp]: "ISOTP_NO_FUNC_ID = 0xFFFFFFFF"
definition ISOTP_PCI_SF :: u8 where [simp]: "ISOTP_PCI_SF = 0"
definition ISOTP_PCI_FF :: u8 where [simp]: "ISOTP_PCI_FF = 1"
definition ISOTP_PCI_CF :: u8 where [simp]: "ISOTP_PCI_CF = 2"
definition ISOTP_PCI_FC :: u8 where [simp]: "ISOTP_PCI_FC = 3"
definition ISOTP_FS_CTS :: u8 where [simp]: "ISOTP_FS_CTS = 0"
definition ISOTP_FS_WAIT :: u8 where [simp]: "ISOTP_FS_WAIT = 1"
definition ISOTP_FS_OVFLW :: u8 where [simp]: "ISOTP_FS_OVFLW = 2"
definition SF_MAX_DATA :: nat where [simp]: "SF_MAX_DATA = 7"
definition FF_FIRST_DATA :: nat where [simp]: "FF_FIRST_DATA = 6"
definition CF_MAX_DATA :: nat where [simp]: "CF_MAX_DATA = 7"
definition DEF_N_MS :: u32 where [simp]: "DEF_N_MS = 1000"
definition DEF_WFT_MAX :: u8 where [simp]: "DEF_WFT_MAX = 8"

datatype isotp_ret = ISOTP_OK | ISOTP_ERROR | ISOTP_INPROGRESS | ISOTP_OVERFLOW | ISOTP_WRONG_SN
  | ISOTP_NO_DATA | ISOTP_TIMEOUT | ISOTP_LENGTH | ISOTP_NOSPACE

datatype isotp_phase = ISOTP_IDLE | ISOTP_SEND | ISOTP_WAIT_FC | ISOTP_RECV

record isotp_cfg =
  n_as_ms :: u32
  n_ar_ms :: u32
  n_bs_ms :: u32
  n_cr_ms :: u32
  cfg_bs :: u8
  cfg_stmin :: u8
  wft_max :: u8
  pad_byte :: u8

record isotp_link =
  tx_id :: u32
  rx_id :: u32
  func_id :: u32
  lcfg :: isotp_cfg
  tx_buf :: "u8 list"
  tx_len :: nat
  tx_off :: nat
  tx_sn :: u8
  tx_bs_left :: u8
  tx_stmin :: u8
  tx_wft :: u8
  tx_phase :: isotp_phase
  tx_timer :: u32
  tx_st_timer :: u32
  rx_buf :: "u8 list"
  rx_len :: nat
  rx_off :: nat
  rx_sn :: u8
  rx_block_cf :: u8
  rx_phase :: isotp_phase
  rx_timer :: u32
  rx_result :: isotp_ret
  rx_complete :: bool
  rx_functional :: bool

text \<open>Queueing one CAN frame: identifier and data; the result tells whether it was accepted.\<close>

type_synonym 'e can_tx = "u32 \<Rightarrow> u8 list \<Rightarrow> 'e \<Rightarrow> bool \<times> 'e"

subsection \<open>Utilities\<close>

definition PCI_TYPE :: "u8 \<Rightarrow> u8" where "PCI_TYPE b0 = drop_bit 4 b0"
definition PCI_LOW :: "u8 \<Rightarrow> u8" where "PCI_LOW b0 = b0 AND 0x0F"

definition elapsed :: "u32 \<Rightarrow> u32 \<Rightarrow> u32" where "elapsed now start = now - start"

definition stmin_to_ms :: "u8 \<Rightarrow> u32" where
  "stmin_to_ms raw = (if raw \<le> 0x7F then ucast raw else if 0xF1 \<le> raw \<and> raw \<le> 0xF9 then 1 else 0x7F)"

definition tx_frame :: "'e can_tx \<Rightarrow> isotp_link \<Rightarrow> u8 list \<Rightarrow> 'e \<Rightarrow> bool \<times> 'e" where
  "tx_frame can_tx l buf e =
     can_tx (tx_id l)
       (if pad_byte (lcfg l) \<noteq> 0xFF then buf @ replicate (ISOTP_CAN_DL - length buf) (pad_byte (lcfg l)) else buf)
       e"

definition send_fc :: "'e can_tx \<Rightarrow> isotp_link \<Rightarrow> u8 \<Rightarrow> 'e \<Rightarrow> 'e" where
  "send_fc can_tx l fs e =
     snd (tx_frame can_tx l [push_bit 4 ISOTP_PCI_FC OR (fs AND 0x0F), cfg_bs (lcfg l), cfg_stmin (lcfg l)] e)"

definition tx_reset :: "isotp_link \<Rightarrow> isotp_link" where
  "tx_reset l = l\<lparr>tx_phase := ISOTP_IDLE, tx_len := 0, tx_off := 0, tx_sn := 0, tx_bs_left := 0,
     tx_stmin := 0, tx_wft := 0\<rparr>"

definition rx_reset :: "isotp_link \<Rightarrow> isotp_link" where
  "rx_reset l = l\<lparr>rx_phase := ISOTP_IDLE, rx_len := 0, rx_off := 0, rx_sn := 0, rx_block_cf := 0\<rparr>"

text \<open>\<open>isotp_init\<close>: every timer and the WAIT limit left at 0 gets its default; no configuration at
  all also selects the pad byte.\<close>

definition zero_cfg :: isotp_cfg where
  "zero_cfg = \<lparr>n_as_ms = 0, n_ar_ms = 0, n_bs_ms = 0, n_cr_ms = 0, cfg_bs = 0, cfg_stmin = 0,
     wft_max = 0, pad_byte = 0\<rparr>"

definition cfg_defaults :: "isotp_cfg \<Rightarrow> isotp_cfg" where
  "cfg_defaults c =
     c\<lparr>n_as_ms := if n_as_ms c = 0 then DEF_N_MS else n_as_ms c,
       n_ar_ms := if n_ar_ms c = 0 then DEF_N_MS else n_ar_ms c,
       n_bs_ms := if n_bs_ms c = 0 then DEF_N_MS else n_bs_ms c,
       n_cr_ms := if n_cr_ms c = 0 then DEF_N_MS else n_cr_ms c,
       wft_max := if wft_max c = 0 then DEF_WFT_MAX else wft_max c\<rparr>"

definition isotp_init :: "u32 \<Rightarrow> u32 \<Rightarrow> u32 \<Rightarrow> isotp_cfg option \<Rightarrow> isotp_link" where
  "isotp_init tx rx func cfg =
     \<lparr>tx_id = tx, rx_id = rx, func_id = func,
      lcfg = (case cfg of
                Some c \<Rightarrow> cfg_defaults c
              | None \<Rightarrow> (cfg_defaults zero_cfg)\<lparr>pad_byte := 0xCC, cfg_bs := 0, cfg_stmin := 0\<rparr>),
      tx_buf = replicate ISOTP_MAX_MSG 0, tx_len = 0, tx_off = 0, tx_sn = 0, tx_bs_left = 0, tx_stmin = 0,
      tx_wft = 0, tx_phase = ISOTP_IDLE, tx_timer = 0, tx_st_timer = 0,
      rx_buf = replicate ISOTP_MAX_MSG 0, rx_len = 0, rx_off = 0, rx_sn = 0, rx_block_cf = 0,
      rx_phase = ISOTP_IDLE, rx_timer = 0, rx_result = ISOTP_OK, rx_complete = False, rx_functional = False\<rparr>"

subsection \<open>Sending\<close>

definition isotp_send ::
    "'e can_tx \<Rightarrow> u32 \<Rightarrow> isotp_link \<Rightarrow> u8 list \<Rightarrow> 'e \<Rightarrow> isotp_ret \<times> isotp_link \<times> 'e" where
  "isotp_send can_tx now l dat e =
     (let size = length dat in
      if tx_phase l \<noteq> ISOTP_IDLE then (ISOTP_NOSPACE, l, e)
      else if size = 0 \<or> size > ISOTP_MAX_MSG then (ISOTP_LENGTH, l, e)
      else
        let l = l\<lparr>tx_buf := memcpy_at (tx_buf l) 0 dat, tx_len := size, tx_off := 0, tx_wft := 0\<rparr>
        in if size \<le> SF_MAX_DATA then
             let f = (push_bit 4 ISOTP_PCI_SF OR (word_of_nat size AND 0x0F)) # take size (tx_buf l);
                 (sent, e) = tx_frame can_tx l f e
             in (if \<not> sent then ISOTP_ERROR else ISOTP_OK, tx_reset l, e)
           else
             let f = [push_bit 4 ISOTP_PCI_FF OR (word_of_nat (size div 256) AND 0x0F), word_of_nat (size mod 256)]
                     @ take FF_FIRST_DATA (tx_buf l);
                 (sent, e) = tx_frame can_tx l f e
             in if \<not> sent then (ISOTP_ERROR, tx_reset l, e)
                else (ISOTP_INPROGRESS,
                      l\<lparr>tx_off := FF_FIRST_DATA, tx_sn := 1, tx_phase := ISOTP_WAIT_FC, tx_timer := now\<rparr>, e))"

subsection \<open>Receiving\<close>

text \<open>A frame is the list of its \<open>dlc\<close> data bytes.\<close>

definition handle_sf :: "isotp_link \<Rightarrow> u8 list \<Rightarrow> bool \<Rightarrow> isotp_link" where
  "handle_sf l dat functional =
     (let len = unat (PCI_LOW (dat ! 0)) in
      if len = 0 \<or> len > SF_MAX_DATA then l
      else if len > length dat - 1 then l
      else if functional \<and> (rx_phase l = ISOTP_RECV \<or> rx_complete l) then l
      else l\<lparr>rx_buf := memcpy_at (rx_buf l) 0 (take len (drop 1 dat)), rx_len := len, rx_off := len,
             rx_phase := ISOTP_IDLE, rx_result := ISOTP_OK, rx_functional := functional,
             rx_complete := True\<rparr>)"

definition handle_ff :: "'e can_tx \<Rightarrow> u32 \<Rightarrow> isotp_link \<Rightarrow> u8 list \<Rightarrow> 'e \<Rightarrow> isotp_link \<times> 'e" where
  "handle_ff can_tx now l dat e =
     (if length dat \<noteq> ISOTP_CAN_DL then (l, e)
      else
        let ff_dl = unat (PCI_LOW (dat ! 0)) * 256 + unat (dat ! 1)
        in if ff_dl \<le> SF_MAX_DATA then (l, e)
           else if ff_dl > ISOTP_MAX_MSG then let e = send_fc can_tx l ISOTP_FS_OVFLW e in (rx_reset l, e)
           else
             let l = l\<lparr>rx_buf := memcpy_at (rx_buf l) 0 (take FF_FIRST_DATA (drop 2 dat)), rx_len := ff_dl,
                       rx_off := FF_FIRST_DATA, rx_sn := 1, rx_block_cf := 0, rx_phase := ISOTP_RECV,
                       rx_result := ISOTP_OK, rx_functional := False, rx_timer := now\<rparr>
             in (l, send_fc can_tx l ISOTP_FS_CTS e))"

text \<open>How many bytes of a consecutive frame belong to the message.\<close>

definition cf_take :: "nat \<Rightarrow> nat \<Rightarrow> nat" where
  "cf_take remaining avail =
     (let n = (if remaining < CF_MAX_DATA then remaining else CF_MAX_DATA)
      in if n > avail then avail else n)"

definition handle_cf :: "'e can_tx \<Rightarrow> u32 \<Rightarrow> isotp_link \<Rightarrow> u8 list \<Rightarrow> 'e \<Rightarrow> isotp_link \<times> 'e" where
  "handle_cf can_tx now l dat e =
     (if rx_phase l \<noteq> ISOTP_RECV then (l, e)
      else if PCI_LOW (dat ! 0) \<noteq> rx_sn l then (rx_reset (l\<lparr>rx_result := ISOTP_WRONG_SN\<rparr>), e)
      else
        let remaining = rx_len l - rx_off l; avail = length dat - 1
        in if remaining > CF_MAX_DATA \<and> avail < CF_MAX_DATA
           then (rx_reset (l\<lparr>rx_result := ISOTP_LENGTH\<rparr>), e)
           else
             let n = cf_take remaining avail;
                 l = l\<lparr>rx_buf := memcpy_at (rx_buf l) (rx_off l) (take n (drop 1 dat)),
                       rx_off := rx_off l + n, rx_sn := (rx_sn l + 1) AND 0x0F,
                       rx_block_cf := rx_block_cf l + 1, rx_timer := now\<rparr>
             in if rx_off l \<ge> rx_len l
                then (l\<lparr>rx_result := ISOTP_OK, rx_complete := True, rx_phase := ISOTP_IDLE\<rparr>, e)
                else if cfg_bs (lcfg l) \<noteq> 0 \<and> rx_block_cf l \<ge> cfg_bs (lcfg l)
                then let l = l\<lparr>rx_block_cf := 0\<rparr> in (l, send_fc can_tx l ISOTP_FS_CTS e)
                else (l, e))"

definition handle_fc :: "u32 \<Rightarrow> isotp_link \<Rightarrow> u8 list \<Rightarrow> isotp_link" where
  "handle_fc now l dat =
     (if tx_phase l \<noteq> ISOTP_WAIT_FC then l
      else
        let fs = PCI_LOW (dat ! 0)
        in if fs = ISOTP_FS_CTS then
             l\<lparr>tx_bs_left := if length dat > 1 then dat ! 1 else 0,
               tx_stmin := if length dat > 2 then dat ! 2 else 0,
               tx_wft := 0, tx_phase := ISOTP_SEND, tx_st_timer := now\<rparr>
           else if fs = ISOTP_FS_WAIT then
             let l = l\<lparr>tx_wft := tx_wft l + 1\<rparr>
             in if tx_wft l > wft_max (lcfg l) then tx_reset l else l\<lparr>tx_timer := now\<rparr>
           else tx_reset l)"

definition isotp_on_can_frame ::
    "'e can_tx \<Rightarrow> u32 \<Rightarrow> isotp_link \<Rightarrow> u32 \<Rightarrow> u8 list \<Rightarrow> 'e \<Rightarrow> isotp_link \<times> 'e" where
  "isotp_on_can_frame can_tx now l cid dat e =
     (if length dat < 1 \<or> length dat > ISOTP_CAN_DL then (l, e)
      else if cid \<noteq> rx_id l \<and> \<not> (func_id l \<noteq> ISOTP_NO_FUNC_ID \<and> cid = func_id l) then (l, e)
      else
        let functional = (cid \<noteq> rx_id l); t = PCI_TYPE (dat ! 0)
        in if t = ISOTP_PCI_SF then (handle_sf l dat functional, e)
           else if t = ISOTP_PCI_FF then if \<not> functional then handle_ff can_tx now l dat e else (l, e)
           else if t = ISOTP_PCI_CF then if \<not> functional then handle_cf can_tx now l dat e else (l, e)
           else if t = ISOTP_PCI_FC then (if \<not> functional then handle_fc now l dat else l, e)
           else (l, e))"

subsection \<open>Polling\<close>

text \<open>The send side; the flag tells whether the call returns before it looks at the receive side.\<close>

definition poll_tx :: "'e can_tx \<Rightarrow> u32 \<Rightarrow> isotp_link \<Rightarrow> 'e \<Rightarrow> bool \<times> isotp_link \<times> 'e" where
  "poll_tx can_tx now l e =
     (if tx_phase l = ISOTP_WAIT_FC then
        (False, if elapsed now (tx_timer l) \<ge> n_bs_ms (lcfg l) then tx_reset l else l, e)
      else if tx_phase l = ISOTP_SEND then
        (if elapsed now (tx_st_timer l) \<ge> stmin_to_ms (tx_stmin l) then
           let remaining = tx_len l - tx_off l;
               n = (if remaining < CF_MAX_DATA then remaining else CF_MAX_DATA);
               f = (push_bit 4 ISOTP_PCI_CF OR (tx_sn l AND 0x0F)) # take n (drop (tx_off l) (tx_buf l));
               (sent, e) = tx_frame can_tx l f e
           in if \<not> sent then (True, tx_reset l, e)
              else
                let l = l\<lparr>tx_off := tx_off l + n, tx_sn := (tx_sn l + 1) AND 0x0F, tx_st_timer := now\<rparr>
                in if tx_off l \<ge> tx_len l then (True, tx_reset l, e)
                   else if tx_bs_left l \<noteq> 0 then
                     let l = l\<lparr>tx_bs_left := tx_bs_left l - 1\<rparr>
                     in (False, if tx_bs_left l = 0 then l\<lparr>tx_phase := ISOTP_WAIT_FC, tx_timer := now\<rparr> else l, e)
                   else (False, l, e)
         else (False, l, e))
      else (False, l, e))"

definition poll_rx :: "u32 \<Rightarrow> isotp_link \<Rightarrow> isotp_link" where
  "poll_rx now l =
     (if rx_phase l = ISOTP_RECV \<and> elapsed now (rx_timer l) \<ge> n_cr_ms (lcfg l)
      then rx_reset (l\<lparr>rx_result := ISOTP_TIMEOUT\<rparr>) else l)"

definition isotp_poll :: "'e can_tx \<Rightarrow> u32 \<Rightarrow> isotp_link \<Rightarrow> 'e \<Rightarrow> isotp_link \<times> 'e" where
  "isotp_poll can_tx now l e =
     (let (returned, l, e) = poll_tx can_tx now l e in (if returned then l else poll_rx now l, e))"

text \<open>\<open>isotp_receive\<close>: the message and whether it came from the functional address.\<close>

definition isotp_receive :: "isotp_link \<Rightarrow> nat \<Rightarrow> isotp_ret \<times> (u8 list \<times> bool) option \<times> isotp_link" where
  "isotp_receive l out_cap =
     (if \<not> rx_complete l then (ISOTP_NO_DATA, None, l)
      else if rx_len l > out_cap then (ISOTP_NOSPACE, None, l)
      else (ISOTP_OK, Some (take (rx_len l) (rx_buf l), rx_functional l), l\<lparr>rx_complete := False\<rparr>))"

subsection \<open>The invariant of a link\<close>

definition tx_side_ok :: "isotp_link \<Rightarrow> bool" where
  "tx_side_ok l \<longleftrightarrow>
     length (tx_buf l) = ISOTP_MAX_MSG \<and> tx_len l \<le> ISOTP_MAX_MSG \<and>
     (if tx_phase l = ISOTP_IDLE then tx_len l = 0 \<and> tx_off l = 0
      else (tx_phase l = ISOTP_SEND \<or> tx_phase l = ISOTP_WAIT_FC) \<and>
           (\<exists>k. tx_off l = FF_FIRST_DATA + CF_MAX_DATA * k \<and> tx_off l < tx_len l \<and>
                tx_sn l = word_of_nat ((k + 1) mod 16)))"

definition rx_side_ok :: "isotp_link \<Rightarrow> bool" where
  "rx_side_ok l \<longleftrightarrow>
     length (rx_buf l) = ISOTP_MAX_MSG \<and> rx_off l \<le> rx_len l \<and> rx_len l \<le> ISOTP_MAX_MSG \<and>
     (rx_phase l = ISOTP_IDLE \<or> rx_phase l = ISOTP_RECV \<and> FF_FIRST_DATA \<le> rx_off l \<and> rx_off l < rx_len l)"

definition link_ok :: "isotp_link \<Rightarrow> bool" where
  "link_ok l \<longleftrightarrow> tx_side_ok l \<and> rx_side_ok l"

text \<open>The two sides depend on their own fields only.\<close>

lemma tx_side_rx_update [simp]:
  "tx_side_ok (l\<lparr>rx_buf := a\<rparr>) = tx_side_ok l" "tx_side_ok (l\<lparr>rx_len := n\<rparr>) = tx_side_ok l"
  "tx_side_ok (l\<lparr>rx_off := n\<rparr>) = tx_side_ok l" "tx_side_ok (l\<lparr>rx_sn := w\<rparr>) = tx_side_ok l"
  "tx_side_ok (l\<lparr>rx_block_cf := w\<rparr>) = tx_side_ok l" "tx_side_ok (l\<lparr>rx_phase := p\<rparr>) = tx_side_ok l"
  "tx_side_ok (l\<lparr>rx_timer := t\<rparr>) = tx_side_ok l" "tx_side_ok (l\<lparr>rx_result := r\<rparr>) = tx_side_ok l"
  "tx_side_ok (l\<lparr>rx_complete := b\<rparr>) = tx_side_ok l" "tx_side_ok (l\<lparr>rx_functional := b\<rparr>) = tx_side_ok l"
  by (simp_all add: tx_side_ok_def)

lemma rx_side_tx_update [simp]:
  "rx_side_ok (l\<lparr>tx_buf := a\<rparr>) = rx_side_ok l" "rx_side_ok (l\<lparr>tx_len := n\<rparr>) = rx_side_ok l"
  "rx_side_ok (l\<lparr>tx_off := n\<rparr>) = rx_side_ok l" "rx_side_ok (l\<lparr>tx_sn := w\<rparr>) = rx_side_ok l"
  "rx_side_ok (l\<lparr>tx_bs_left := w\<rparr>) = rx_side_ok l" "rx_side_ok (l\<lparr>tx_stmin := w\<rparr>) = rx_side_ok l"
  "rx_side_ok (l\<lparr>tx_wft := w\<rparr>) = rx_side_ok l" "rx_side_ok (l\<lparr>tx_phase := p\<rparr>) = rx_side_ok l"
  "rx_side_ok (l\<lparr>tx_timer := t\<rparr>) = rx_side_ok l" "rx_side_ok (l\<lparr>tx_st_timer := t\<rparr>) = rx_side_ok l"
  "rx_side_ok (l\<lparr>rx_result := r\<rparr>) = rx_side_ok l" "rx_side_ok (l\<lparr>rx_complete := b\<rparr>) = rx_side_ok l"
  by (simp_all add: rx_side_ok_def)

lemma tx_reset_ok: "tx_side_ok l \<Longrightarrow> tx_side_ok (tx_reset l)"
  by (simp add: tx_side_ok_def tx_reset_def)

lemma rx_reset_ok: "rx_side_ok l \<Longrightarrow> rx_side_ok (rx_reset l)"
  by (simp add: rx_side_ok_def rx_reset_def)

lemma reset_other_side [simp]:
  "rx_side_ok (tx_reset l) = rx_side_ok l" "tx_side_ok (rx_reset l) = tx_side_ok l"
  by (simp_all add: tx_reset_def rx_reset_def)

lemma init_ok_link: "link_ok (isotp_init tx rx func cfg)"
  by (simp add: link_ok_def tx_side_ok_def rx_side_ok_def isotp_init_def)

lemma low4: "(w :: u8) AND 0x0F = take_bit 4 w"
  by (simp add: take_bit_eq_mask mask_eq_exp_minus_1)

lemma sn_next: "((word_of_nat (k mod 16) :: u8) + 1) AND 0x0F = word_of_nat (Suc k mod 16)"
proof -
  have "((word_of_nat (k mod 16) :: u8) + 1) AND 0x0F = take_bit 4 (word_of_nat (Suc (k mod 16)))"
    unfolding low4 by (simp add: add.commute)
  also have "\<dots> = word_of_nat (take_bit 4 (Suc (k mod 16)))" by (rule take_bit_of_nat)
  also have "take_bit 4 (Suc (k mod 16)) = Suc k mod 16" by (simp add: take_bit_eq_mod mod_Suc_eq)
  finally show ?thesis .
qed

lemma send_link_ok:
  assumes "link_ok l"
  shows "link_ok (fst (snd (isotp_send can_tx now l dat e)))"
proof -
  have idle: "link_ok (tx_reset l)" if "link_ok l" for l
    using that by (simp add: link_ok_def tx_reset_ok)
  have "tx_side_ok (l\<lparr>tx_buf := memcpy_at (tx_buf l) 0 dat, tx_len := length dat, tx_wft := 0, tx_off := 6,
      tx_sn := 1, tx_phase := ISOTP_WAIT_FC, tx_timer := now\<rparr>)" if "7 < length dat" "length dat \<le> 4095"
    using that assms by (simp add: link_ok_def tx_side_ok_def)
  moreover have "link_ok (tx_reset (l\<lparr>tx_buf := memcpy_at (tx_buf l) 0 dat, tx_len := length dat,
      tx_off := 0, tx_wft := 0\<rparr>))" if "length dat \<le> 4095"
    using that assms by (simp add: link_ok_def tx_side_ok_def tx_reset_def)
  ultimately show ?thesis
    using assms by (simp add: isotp_send_def Let_def split_beta link_ok_def)
qed

lemma handle_sf_ok: "link_ok l \<Longrightarrow> link_ok (handle_sf l dat fn)"
  by (simp add: handle_sf_def Let_def link_ok_def rx_side_ok_def)

lemma handle_ff_ok: "link_ok l \<Longrightarrow> link_ok (fst (handle_ff can_tx now l dat e))"
  by (simp add: handle_ff_def Let_def link_ok_def rx_side_ok_def rx_reset_def)

lemma cf_take_le: "cf_take remaining avail \<le> remaining" "cf_take remaining avail \<le> avail"
  by (simp_all add: cf_take_def Let_def)

lemma cf_take_full: "CF_MAX_DATA \<le> avail \<Longrightarrow> cf_take remaining avail = min remaining CF_MAX_DATA"
  by (simp add: cf_take_def Let_def min_def)

lemma handle_cf_ok:
  assumes "link_ok l"
  shows "link_ok (fst (handle_cf can_tx now l dat e))"
proof (cases "rx_phase l = ISOTP_RECV \<and> PCI_LOW (dat ! 0) = rx_sn l")
  case True
  define n where "n = cf_take (rx_len l - rx_off l) (length dat - Suc 0)"
  define buf where "buf = memcpy_at (rx_buf l) (rx_off l) (take n (drop (Suc 0) dat))"
  have r: "rx_off l \<le> rx_len l" "rx_len l \<le> 4095" "length (rx_buf l) = 4095"
    using assms by (simp_all add: link_ok_def rx_side_ok_def)
  have n: "n \<le> rx_len l - rx_off l" "n \<le> length dat - Suc 0" unfolding n_def by (rule cf_take_le)+
  then have "rx_off l + n \<le> rx_len l" "length (take n (drop (Suc 0) dat)) = n" using r(1) by simp_all
  moreover from this have "length buf = 4095" unfolding buf_def using r by simp
  ultimately show ?thesis using assms True
    by (simp add: handle_cf_def Let_def link_ok_def rx_side_ok_def rx_reset_def flip: n_def buf_def)
next
  case False
  then show ?thesis using assms
    by (auto simp: handle_cf_def link_ok_def rx_reset_ok)
qed

lemma handle_fc_ok:
  assumes "link_ok l"
  shows "link_ok (handle_fc now l dat)"
  using assms by (auto simp: handle_fc_def Let_def link_ok_def tx_side_ok_def tx_reset_def)

lemma on_can_frame_ok: "link_ok l \<Longrightarrow> link_ok (fst (isotp_on_can_frame can_tx now l cid dat e))"
  by (simp add: isotp_on_can_frame_def Let_def handle_sf_ok handle_ff_ok handle_cf_ok handle_fc_ok)

lemma tx_side_bs_left [simp]: "tx_side_ok (l\<lparr>tx_bs_left := w\<rparr>) = tx_side_ok l"
  by (simp add: tx_side_ok_def)

lemma tx_side_to_wait:
  "tx_side_ok l \<Longrightarrow> tx_phase l \<noteq> ISOTP_IDLE \<Longrightarrow> tx_side_ok (l\<lparr>tx_phase := ISOTP_WAIT_FC, tx_timer := t\<rparr>)"
  by (simp add: tx_side_ok_def)

text \<open>Sending one consecutive frame moves to the next block offset and sequence number.\<close>

lemma tx_side_advance:
  assumes "tx_side_ok l" "tx_phase l = ISOTP_SEND" "tx_off l + n < tx_len l"
    and "n = (if tx_len l - tx_off l < CF_MAX_DATA then tx_len l - tx_off l else CF_MAX_DATA)"
  shows "tx_side_ok (l\<lparr>tx_off := tx_off l + n, tx_sn := (tx_sn l + 1) AND 0x0F, tx_st_timer := now\<rparr>)"
proof -
  obtain k where k: "tx_off l = 6 + 7 * k" "tx_off l < tx_len l" "tx_sn l = word_of_nat ((k + 1) mod 16)"
    using assms(1,2) by (auto simp: tx_side_ok_def)
  have "n = 7" using assms(3,4) k(2) by (simp split: if_splits)
  moreover have "(tx_sn l + 1) AND 0x0F = word_of_nat ((k + 2) mod 16)"
    using sn_next [of "k + 1"] by (simp add: k(3))
  ultimately show ?thesis
    using assms k by (auto simp: tx_side_ok_def intro!: exI [of _ "Suc k"])
qed

lemma poll_tx_ok:
  assumes "link_ok l"
  shows "link_ok (fst (snd (poll_tx can_tx now l e)))"
proof -
  define n where "n = (if tx_len l - tx_off l < CF_MAX_DATA then tx_len l - tx_off l else CF_MAX_DATA)"
  define l1 where "l1 = l\<lparr>tx_off := tx_off l + n, tx_sn := (tx_sn l + 1) AND 0x0F, tx_st_timer := now\<rparr>"
  have l: "tx_side_ok l" "rx_side_ok l" using assms by (simp_all add: link_ok_def)
  have r: "rx_side_ok l1" using l(2) by (simp add: l1_def)
  have z: "link_ok (tx_reset l)" using l by (simp add: link_ok_def tx_reset_ok)
  have z1: "link_ok (tx_reset l1)"
    using l by (simp add: link_ok_def l1_def) (simp add: tx_side_ok_def tx_reset_def)
  show ?thesis
  proof (cases "tx_phase l = ISOTP_SEND \<and> \<not> tx_off l1 \<ge> tx_len l1")
    case True
    then have a: "tx_side_ok l1" unfolding l1_def
      by (intro tx_side_advance [OF l(1)]) (simp_all add: n_def l1_def)
    have p: "tx_phase l1 = ISOTP_SEND" using True by (simp add: l1_def)
    have w: "tx_side_ok (l1\<lparr>tx_bs_left := b, tx_phase := ISOTP_WAIT_FC, tx_timer := now\<rparr>)" for b
      by (rule tx_side_to_wait) (simp_all add: a p)
    show ?thesis
      unfolding poll_tx_def Let_def n_def [symmetric] l1_def [symmetric]
      using True a r w assms z by (simp add: split_beta link_ok_def)
  next
    case False
    then show ?thesis
      unfolding poll_tx_def Let_def n_def [symmetric] l1_def [symmetric]
      using assms z z1 by (simp add: split_beta)
  qed
qed

lemma poll_ok: "link_ok l \<Longrightarrow> link_ok (fst (isotp_poll can_tx now l e))"
  using poll_tx_ok [of l can_tx now e]
  by (simp add: isotp_poll_def split_beta poll_rx_def link_ok_def rx_reset_ok)

lemma receive_ok: "link_ok l \<Longrightarrow> link_ok (snd (snd (isotp_receive l cap)))"
  by (simp add: isotp_receive_def link_ok_def)

subsection \<open>What reaches the bus\<close>

text \<open>A bus that keeps every frame offered to it, and accepts it or not.\<close>

type_synonym bus_log = "(u32 \<times> u8 list) list"

definition log_tx :: "(bus_log \<Rightarrow> bool) \<Rightarrow> bus_log can_tx" where
  "log_tx accept cid dat e = (accept e, e @ [(cid, dat)])"

definition frame_wf :: "isotp_link \<Rightarrow> u32 \<times> u8 list \<Rightarrow> bool" where
  "frame_wf l f \<longleftrightarrow> fst f = tx_id l \<and> 1 < length (snd f) \<and> length (snd f) \<le> ISOTP_CAN_DL \<and>
     (pad_byte (lcfg l) \<noteq> 0xFF \<longrightarrow> length (snd f) = ISOTP_CAN_DL)"

text \<open>One call offers at most one frame and keeps addresses and configuration.\<close>

definition emits :: "isotp_link \<Rightarrow> bus_log \<Rightarrow> bus_log \<Rightarrow> bool" where
  "emits l e e' \<longleftrightarrow> e' = e \<or> (\<exists>f. e' = e @ [f] \<and> frame_wf l f)"

definition call_emits :: "isotp_link \<Rightarrow> bus_log \<Rightarrow> isotp_link \<times> bus_log \<Rightarrow> bool" where
  "call_emits l e r \<longleftrightarrow>
     emits l e (snd r) \<and>
     tx_id (fst r) = tx_id l \<and> rx_id (fst r) = rx_id l \<and> func_id (fst r) = func_id l \<and> lcfg (fst r) = lcfg l"

lemma tx_frame_emits:
  assumes "1 < length buf" "length buf \<le> ISOTP_CAN_DL" "tx_id l' = tx_id l" "lcfg l' = lcfg l"
  shows "emits l e (snd (tx_frame (log_tx acc) l' buf e))"
  using assms by (auto simp: emits_def tx_frame_def log_tx_def frame_wf_def)

lemma emits_refl [simp]: "emits l e e"
  by (simp add: emits_def)

lemma send_fc_emits:
  "tx_id l' = tx_id l \<Longrightarrow> lcfg l' = lcfg l \<Longrightarrow>
   emits l e (send_fc (log_tx acc) l' fs e)"
  unfolding send_fc_def by (rule tx_frame_emits) simp_all

lemma reset_keeps [simp]:
  "tx_id (tx_reset l) = tx_id l" "rx_id (tx_reset l) = rx_id l" "func_id (tx_reset l) = func_id l"
  "lcfg (tx_reset l) = lcfg l" "tx_id (rx_reset l) = tx_id l" "rx_id (rx_reset l) = rx_id l"
  "func_id (rx_reset l) = func_id l" "lcfg (rx_reset l) = lcfg l"
  by (simp_all add: tx_reset_def rx_reset_def)

lemma send_emits:
  assumes "link_ok l"
  shows "call_emits l e (snd (isotp_send (log_tx acc) now l dat e))"
proof -
  have b: "length (tx_buf l) = 4095" using assms by (simp add: link_ok_def tx_side_ok_def)
  define l1 where "l1 = l\<lparr>tx_buf := memcpy_at (tx_buf l) 0 dat, tx_len := length dat, tx_off := 0, tx_wft := 0\<rparr>"
  have k: "tx_id l1 = tx_id l" "lcfg l1 = lcfg l" "rx_id l1 = rx_id l" "func_id l1 = func_id l"
    "length dat \<le> 4095 \<Longrightarrow> length (tx_buf l1) = 4095" using b by (simp_all add: l1_def)
  show ?thesis
    unfolding isotp_send_def Let_def l1_def [symmetric] call_emits_def
    by (auto simp: split_beta k intro!: tx_frame_emits)
qed

lemma handle_ff_emits: "call_emits l e (handle_ff (log_tx acc) now l dat e)"
  by (auto simp: handle_ff_def call_emits_def Let_def intro!: send_fc_emits)

lemma handle_cf_emits: "call_emits l e (handle_cf (log_tx acc) now l dat e)"
  by (auto simp: handle_cf_def call_emits_def Let_def intro!: send_fc_emits)

lemma handle_fc_keeps:
  "tx_id (handle_fc now l dat) = tx_id l \<and> rx_id (handle_fc now l dat) = rx_id l \<and>
   func_id (handle_fc now l dat) = func_id l \<and> lcfg (handle_fc now l dat) = lcfg l"
  by (simp add: handle_fc_def Let_def)

lemma handle_sf_keeps:
  "tx_id (handle_sf l dat fn) = tx_id l \<and> rx_id (handle_sf l dat fn) = rx_id l \<and>
   func_id (handle_sf l dat fn) = func_id l \<and> lcfg (handle_sf l dat fn) = lcfg l"
  by (simp add: handle_sf_def Let_def)

lemma on_can_frame_emits: "call_emits l e (isotp_on_can_frame (log_tx acc) now l cid dat e)"
  using handle_ff_emits [of l e acc now dat] handle_cf_emits [of l e acc now dat]
    handle_fc_keeps [of now l dat] handle_sf_keeps [of l dat]
  by (simp add: isotp_on_can_frame_def Let_def call_emits_def)

lemma poll_emits:
  assumes "link_ok l"
  shows "call_emits l e (isotp_poll (log_tx acc) now l e)"
proof -
  have t: "call_emits l e (snd (poll_tx (log_tx acc) now l e))"
  proof (cases "tx_phase l = ISOTP_SEND")
    case True
    define n where "n = (if tx_len l - tx_off l < CF_MAX_DATA then tx_len l - tx_off l else CF_MAX_DATA)"
    have "0 < n" "n \<le> 7" "n \<le> length (tx_buf l) - tx_off l"
      using assms True by (auto simp: n_def link_ok_def tx_side_ok_def)
    then show ?thesis
      unfolding poll_tx_def Let_def n_def [symmetric] call_emits_def
      using True by (auto simp: split_beta intro!: tx_frame_emits)
  next
    case False
    then show ?thesis by (simp add: poll_tx_def call_emits_def)
  qed
  then show ?thesis
    by (simp add: isotp_poll_def split_beta call_emits_def poll_rx_def)
qed

subsection \<open>All histories of a link\<close>

datatype isotp_call = SendMsg "u8 list" | CanFrame u32 "u8 list" | PollTick | Collect nat

fun isotp_do :: "'e can_tx \<Rightarrow> u32 \<times> isotp_call \<Rightarrow> isotp_link \<times> 'e \<Rightarrow> isotp_link \<times> 'e" where
  "isotp_do can_tx (now, SendMsg dat) (l, e) = snd (isotp_send can_tx now l dat e)"
| "isotp_do can_tx (now, CanFrame cid dat) (l, e) = isotp_on_can_frame can_tx now l cid dat e"
| "isotp_do can_tx (now, PollTick) (l, e) = isotp_poll can_tx now l e"
| "isotp_do can_tx (now, Collect cap) (l, e) = (snd (snd (isotp_receive l cap)), e)"

lemma isotp_do_ok: "link_ok l \<Longrightarrow> link_ok (fst (isotp_do can_tx c (l, e)))"
  by (induction can_tx c "(l, e)" rule: isotp_do.induct)
    (simp_all add: send_link_ok on_can_frame_ok poll_ok receive_ok)

lemma isotp_do_emits: "link_ok l \<Longrightarrow> call_emits l e (isotp_do (log_tx acc) c (l, e))"
  by (induction "log_tx acc" c "(l, e)" rule: isotp_do.induct)
    (simp_all add: send_emits on_can_frame_emits poll_emits, simp add: call_emits_def isotp_receive_def)

definition isotp_history :: "(bus_log \<Rightarrow> bool) \<Rightarrow> (u32 \<times> isotp_call) list \<Rightarrow> isotp_link \<Rightarrow> isotp_link \<times> bus_log" where
  "isotp_history acc calls l = fold (isotp_do (log_tx acc)) calls (l, [])"

lemma isotp_history_ok:
  assumes "link_ok l" "link_ok l0" "tx_id l = tx_id l0" "lcfg l = lcfg l0" "list_all (frame_wf l0) e"
  shows "link_ok (fst (fold (isotp_do (log_tx acc)) calls (l, e))) \<and>
    list_all (frame_wf l0) (snd (fold (isotp_do (log_tx acc)) calls (l, e))) \<and>
    length (snd (fold (isotp_do (log_tx acc)) calls (l, e))) \<le> length e + length calls \<and>
    lcfg (fst (fold (isotp_do (log_tx acc)) calls (l, e))) = lcfg l0"
  using assms(1,3-5)
proof (induction calls arbitrary: l e)
  case Nil
  then show ?case by simp
next
  case (Cons c cs)
  obtain l1 e1 where 1: "isotp_do (log_tx acc) c (l, e) = (l1, e1)" by fastforce
  have em: "call_emits l e (l1, e1)" using isotp_do_emits [OF Cons.prems(1), of e acc c] 1 by simp
  have "link_ok l1" using isotp_do_ok [OF Cons.prems(1), of "log_tx acc" c e] 1 by simp
  moreover have "tx_id l1 = tx_id l0" "lcfg l1 = lcfg l0" using em Cons.prems by (simp_all add: call_emits_def)
  moreover have "frame_wf l f = frame_wf l0 f" for f using Cons.prems by (simp add: frame_wf_def)
  then have "list_all (frame_wf l0) e1 \<and> length e1 \<le> length e + 1"
    using em Cons.prems(4) by (auto simp: call_emits_def emits_def)
  ultimately show ?case using Cons.IH [of l1 e1] 1 by auto
qed

text \<open>C26. Memory safety and well-formed output of a link. Whatever is sent, received, polled and
  collected, in whatever order, at whatever times and with whatever transmit failures: offsets stay
  within lengths and lengths within the buffers, an active send is at a block boundary with the
  sequence number of that block, and every frame offered to the bus has the link's identifier, 2 to
  8 bytes, 8 when padding is on; no call offers more than one frame.\<close>

theorem isotp_link_invariant:
  "link_ok (fst (isotp_history acc calls (isotp_init tx rx func cfg))) \<and>
   list_all (frame_wf (isotp_init tx rx func cfg)) (snd (isotp_history acc calls (isotp_init tx rx func cfg))) \<and>
   length (snd (isotp_history acc calls (isotp_init tx rx func cfg))) \<le> length calls"
  using isotp_history_ok [OF init_ok_link init_ok_link refl refl, where e = "[]"]
  by (simp add: isotp_history_def)

subsection \<open>The functional address\<close>

lemma handle_sf_tx_side:
  "tx_phase (handle_sf l dat fn) = tx_phase l \<and> tx_off (handle_sf l dat fn) = tx_off l \<and>
   tx_len (handle_sf l dat fn) = tx_len l \<and> tx_buf (handle_sf l dat fn) = tx_buf l \<and>
   tx_sn (handle_sf l dat fn) = tx_sn l \<and> tx_timer (handle_sf l dat fn) = tx_timer l"
  by (simp add: handle_sf_def Let_def)

text \<open>C27. A broadcast cannot disturb a conversation: a frame that is not on the physical request
  address makes the link transmit nothing and leaves the send side alone; while a reassembly is
  running or a message waits to be collected it changes nothing at all; and it is at most a single
  frame that is taken, marked as functional. A frame on any other address changes nothing.\<close>

theorem isotp_functional_isolation:
  assumes "cid \<noteq> rx_id l"
  shows "isotp_on_can_frame can_tx now l cid dat e =
      (if func_id l \<noteq> ISOTP_NO_FUNC_ID \<and> cid = func_id l \<and> length dat \<in> {1..8} \<and>
          PCI_TYPE (dat ! 0) = ISOTP_PCI_SF
       then handle_sf l dat True else l, e) \<and>
    (rx_phase l = ISOTP_RECV \<or> rx_complete l \<longrightarrow>
      isotp_on_can_frame can_tx now l cid dat e = (l, e)) \<and>
    (let l' = fst (isotp_on_can_frame can_tx now l cid dat e) in
      (tx_phase l', tx_off l', tx_len l', tx_buf l', tx_sn l', tx_timer l') =
      (tx_phase l, tx_off l, tx_len l, tx_buf l, tx_sn l, tx_timer l) \<and>
      (l' \<noteq> l \<longrightarrow> rx_complete l' \<and> rx_functional l' \<and> rx_len l' \<in> {1..7} \<and>
        (length (rx_buf l) = ISOTP_MAX_MSG \<longrightarrow>
          take (rx_len l') (rx_buf l') = take (rx_len l') (drop 1 dat))))"
proof -
  have e: "isotp_on_can_frame can_tx now l cid dat e =
      (if func_id l \<noteq> ISOTP_NO_FUNC_ID \<and> cid = func_id l \<and> length dat \<in> {1..8} \<and>
          PCI_TYPE (dat ! 0) = ISOTP_PCI_SF
       then handle_sf l dat True else l, e)"
    using assms by (auto simp: isotp_on_can_frame_def Let_def not_less not_le)
  have busy: "handle_sf l dat True = l" if "rx_phase l = ISOTP_RECV \<or> rx_complete l"
    using that by (simp add: handle_sf_def Let_def)
  have taken: "rx_complete (handle_sf l dat True) \<and> rx_functional (handle_sf l dat True) \<and>
      rx_len (handle_sf l dat True) \<in> {1..7} \<and> (length (rx_buf l) = ISOTP_MAX_MSG \<longrightarrow>
        take (rx_len (handle_sf l dat True)) (rx_buf (handle_sf l dat True)) =
        take (rx_len (handle_sf l dat True)) (drop 1 dat))"
    if "handle_sf l dat True \<noteq> l"
    using that by (auto simp: handle_sf_def Let_def split: if_splits)
  show ?thesis
    unfolding e using busy taken handle_sf_tx_side [of l dat True] by (auto simp: Let_def)
qed

theorem isotp_functional_isolation_witness:
  "isotp_on_can_frame (log_tx (\<lambda>_. True)) 0 (isotp_init 0x7E8 0x7E0 0x7DF None) 0x7DF [0x10, 20, 1, 2, 3, 4, 5, 6] [] =
     (isotp_init 0x7E8 0x7E0 0x7DF None, [])"
  using isotp_functional_isolation [where cid = "0x7DF" and l = "isotp_init 0x7E8 0x7E0 0x7DF None" and
    can_tx = "log_tx (\<lambda>_. True)" and now = 0 and dat = "[0x10, 20, 1, 2, 3, 4, 5, 6]" and e = "[]"]
  by (simp add: isotp_init_def PCI_TYPE_def)

end
