(* ===== verification/Isotp_Transfer.thy ===== *)
theory Isotp_Transfer
  imports Isotp
begin

text \<open>
  Two links of \<open>main/isotp.c\<close> talking to each other over a bus that loses nothing: a message of any
  length up to 4095 bytes handed to one arrives at the other, whatever the receiver's block size,
  separation time and the padding of both. Also what happens when the peer does not play along: the
  timeouts and the WAIT limit.
\<close>

subsection \<open>A round of the exchange\<close>

definition open_tx :: "bus_log can_tx" where
  "open_tx = log_tx (\<lambda>_. True)"

text \<open>Handing frames to a link, with what it transmits in answer.\<close>

fun deliver :: "u32 \<Rightarrow> isotp_link \<Rightarrow> bus_log \<Rightarrow> isotp_link \<times> bus_log" where
  "deliver now l [] = (l, [])"
| "deliver now l ((cid, dat) # fs) =
     (let (l, out) = isotp_on_can_frame open_tx now l cid dat []; (l, outs) = deliver now l fs in (l, out @ outs))"

definition exchange_start :: "u32 \<Rightarrow> u8 list \<Rightarrow> isotp_link \<times> isotp_link \<Rightarrow> isotp_link \<times> isotp_link" where
  "exchange_start now dat s =
     (let (a, b) = s; (_, a, out) = isotp_send open_tx now a dat []; (b, back) = deliver now b out
      in (fst (deliver now a back), b))"

definition exchange_round :: "u32 \<Rightarrow> isotp_link \<times> isotp_link \<Rightarrow> isotp_link \<times> isotp_link" where
  "exchange_round now s =
     (let (a, b) = s; (a, out) = isotp_poll open_tx now a []; (b, back) = deliver now b out;
          (b, _) = isotp_poll open_tx now b []
      in (fst (deliver now a back), b))"

text \<open>Rounds that are \<open>dt\<close> milliseconds apart.\<close>

fun exchange :: "nat \<Rightarrow> u32 \<Rightarrow> u32 \<Rightarrow> isotp_link \<times> isotp_link \<Rightarrow> isotp_link \<times> isotp_link" where
  "exchange 0 dt now s = s"
| "exchange (Suc n) dt now s = exchange n dt (now + dt) (exchange_round (now + dt) s)"

definition padded :: "isotp_link \<Rightarrow> u8 list \<Rightarrow> u8 list" where
  "padded l buf = (if pad_byte (lcfg l) \<noteq> 0xFF
     then buf @ replicate (8 - length buf) (pad_byte (lcfg l)) else buf)"

lemma tx_frame_open: "tx_frame open_tx l buf e = (True, e @ [(tx_id l, padded l buf)])"
  by (simp add: tx_frame_def open_tx_def log_tx_def padded_def)

lemma padded_facts:
  "length buf \<le> length (padded l buf)" "length buf \<le> 8 \<Longrightarrow> length (padded l buf) \<le> 8"
  "take (length buf) (padded l buf) = buf" "i < length buf \<Longrightarrow> padded l buf ! i = buf ! i"
  "length buf = 8 \<Longrightarrow> padded l buf = buf"
  by (auto simp: padded_def nth_append)

lemma pci_byte:
  assumes "t \<in> {0, 1, 2, 3 :: u8}"
  shows "PCI_TYPE (push_bit 4 t OR (w AND 0x0F)) = t" "PCI_LOW (push_bit 4 t OR (w AND 0x0F)) = w AND 0x0F"
proof -
  have t: "take_bit 4 t = t" using assms by auto
  have n: "m < 4" if "bit t m" for m
    using that t by (metis bit_take_bit_iff)
  show "PCI_TYPE (push_bit 4 t OR (w AND 0x0F)) = t"
    unfolding PCI_TYPE_def low4 by (rule bit_word_eqI) (auto simp: bit_simps dest: n)
  show "PCI_LOW (push_bit 4 t OR (w AND 0x0F)) = w AND 0x0F"
    unfolding PCI_LOW_def low4 by (rule bit_word_eqI) (auto simp: bit_simps)
qed

lemma sn_low: "(word_of_nat (k mod 16) :: u8) AND 0x0F = word_of_nat (k mod 16)"
  unfolding low4 by (simp add: take_bit_of_nat) (simp add: take_bit_eq_mod)

lemma ff_length:
  assumes "n \<le> 4095"
  shows "unat ((word_of_nat (n div 256) :: u8) AND 0x0F) * 256 + unat (word_of_nat (n mod 256) :: u8) = n"
proof -
  have "n div 256 < 16" using assms by linarith
  then have "unat ((word_of_nat (n div 256) :: u8) AND 0x0F) = n div 256"
    using sn_low [of "n div 256"] by (simp add: unat_of_nat)
  moreover have "unat (word_of_nat (n mod 256) :: u8) = n mod 256" by (simp add: unat_of_nat)
  ultimately show ?thesis by (metis div_mult_mod_eq)
qed

text \<open>Block counting on both ends, as bytes.\<close>

lemma unat_inc_below:
  fixes x bs :: u8
  assumes "x < bs"
  shows "unat (x + 1) = unat x + 1"
proof -
  have "unat x + 1 < 256" using assms unat_u8_less [of bs] by (simp add: word_less_nat_alt)
  then show ?thesis by (simp add: unat_word_ariths)
qed

lemma block_step:
  fixes x bs :: u8
  assumes "x < bs"
  shows "bs \<le> x + 1 \<longleftrightarrow> x + 1 = bs" "bs - x - 1 = 0 \<longleftrightarrow> x + 1 = bs" "x + 1 \<noteq> bs \<Longrightarrow> x + 1 < bs" "bs - x \<noteq> 0"
proof -
  note u = unat_inc_below [OF assms]
  show "bs \<le> x + 1 \<longleftrightarrow> x + 1 = bs"
    using assms u by (auto simp: word_le_nat_alt word_less_nat_alt word_unat_eq_iff)
  show "bs - x - 1 = 0 \<longleftrightarrow> x + 1 = bs" by (auto simp: algebra_simps)
  show "x + 1 < bs" if "x + 1 \<noteq> bs"
    using assms that u by (auto simp: word_less_nat_alt word_unat_eq_iff)
  show "bs - x \<noteq> 0" using assms by auto
qed

subsection \<open>One consecutive frame, on both ends\<close>

definition cf_frame :: "isotp_link \<Rightarrow> u8 list" where
  "cf_frame a = (push_bit 4 ISOTP_PCI_CF OR (tx_sn a AND 0x0F)) # take 7 (drop (tx_off a) (take (tx_len a) (tx_buf a)))"

text \<open>The sender after one consecutive frame.\<close>

definition cf_sent :: "u32 \<Rightarrow> isotp_link \<Rightarrow> isotp_link" where
  "cf_sent now a = a\<lparr>tx_off := tx_off a + min (tx_len a - tx_off a) 7, tx_sn := (tx_sn a + 1) AND 0x0F,
     tx_st_timer := now\<rparr>"

lemma poll_sends:
  assumes "tx_phase a = ISOTP_SEND" "stmin_to_ms (tx_stmin a) \<le> now - tx_st_timer a"
    and "tx_off a \<le> tx_len a" "tx_len a \<le> length (tx_buf a)"
  shows "poll_tx open_tx now a [] =
     (if tx_len a \<le> tx_off a + 7 then (True, tx_reset (cf_sent now a), [(tx_id a, padded a (cf_frame a))])
      else (False,
        if tx_bs_left a = 0 then cf_sent now a
        else if tx_bs_left a - 1 = 0
        then (cf_sent now a)\<lparr>tx_bs_left := tx_bs_left a - 1, tx_phase := ISOTP_WAIT_FC, tx_timer := now\<rparr>
        else (cf_sent now a)\<lparr>tx_bs_left := tx_bs_left a - 1\<rparr>, [(tx_id a, padded a (cf_frame a))]))"
proof -
  define n where "n = (if tx_len a - tx_off a < CF_MAX_DATA then tx_len a - tx_off a else CF_MAX_DATA)"
  have n: "n = min (tx_len a - tx_off a) 7" by (simp add: n_def min_def)
  have f: "(push_bit 4 ISOTP_PCI_CF OR (tx_sn a AND 0x0F)) # take n (drop (tx_off a) (tx_buf a)) = cf_frame a"
    by (simp add: cf_frame_def n drop_take min.commute)
  have e: "tx_len a \<le> tx_off a + n \<longleftrightarrow> tx_len a \<le> tx_off a + 7"
    using assms(3) by (auto simp: n)
  have s: "a\<lparr>tx_off := tx_off a + n, tx_sn := (tx_sn a + 1) AND 0x0F, tx_st_timer := now\<rparr> = cf_sent now a"
    by (simp add: cf_sent_def n)
  have k: "tx_off (cf_sent now a) = tx_off a + n" "tx_len (cf_sent now a) = tx_len a"
    "tx_bs_left (cf_sent now a) = tx_bs_left a"
    by (simp_all add: cf_sent_def n)
  show ?thesis
    unfolding poll_tx_def Let_def n_def [symmetric] f s tx_frame_open
    using assms(1,2) by (simp add: elapsed_def k e)
qed

lemma cf_arrives:
  fixes now
  assumes "rx_phase b = ISOTP_RECV" "length (rx_buf b) = 4095" "rx_len b \<le> 4095"
    and "tx_off a < tx_len a" "tx_len a \<le> length (tx_buf a)"
    and "rx_off b = tx_off a" "rx_len b = tx_len a" "rx_sn b = tx_sn a" "tx_sn a AND 0x0F = tx_sn a"
  defines "b1 \<equiv> b\<lparr>rx_buf := memcpy_at (rx_buf b) (rx_off b) (take 7 (drop (tx_off a) (take (tx_len a) (tx_buf a)))),
      rx_off := rx_off b + min (rx_len b - rx_off b) 7, rx_sn := (rx_sn b + 1) AND 0x0F,
      rx_block_cf := rx_block_cf b + 1, rx_timer := now\<rparr>"
  shows "handle_cf open_tx now b (padded a (cf_frame a)) [] =
    (if rx_len b \<le> rx_off b + 7
     then (b1\<lparr>rx_result := ISOTP_OK, rx_complete := True, rx_phase := ISOTP_IDLE\<rparr>, [])
     else if cfg_bs (lcfg b) \<noteq> 0 \<and> rx_block_cf b + 1 \<ge> cfg_bs (lcfg b)
     then (b1\<lparr>rx_block_cf := 0\<rparr>, [(tx_id b, padded b [0x30, cfg_bs (lcfg b), cfg_stmin (lcfg b)])])
     else (b1, []))"
proof -
  define dat where "dat = padded a (cf_frame a)"
  define m where "m = min (rx_len b - rx_off b) 7"
  have len: "length (cf_frame a) = Suc m" using assms by (simp add: cf_frame_def m_def min_def)
  have l: "Suc m \<le> length dat" unfolding dat_def using padded_facts(1) [of "cf_frame a" a] len by simp
  have "dat ! 0 = cf_frame a ! 0" unfolding dat_def using padded_facts(4) [of 0 "cf_frame a" a] len by simp
  then have p: "PCI_LOW (dat ! 0) = rx_sn b"
    using pci_byte(2) [of ISOTP_PCI_CF "tx_sn a"] assms by (simp add: cf_frame_def)
  have av: "m \<le> length dat - 1" using l by simp
  have mi: "(if rx_len b - rx_off b < CF_MAX_DATA then rx_len b - rx_off b else CF_MAX_DATA) = m"
    by (simp add: m_def min_def)
  have t: "cf_take (rx_len b - rx_off b) (length dat - 1) = m"
    unfolding cf_take_def mi Let_def using av by simp
  have "take (Suc m) dat = cf_frame a" unfolding dat_def using padded_facts(3) [of "cf_frame a" a] len by simp
  then have "take m (drop 1 dat) = drop 1 (cf_frame a)" by (metis drop_take diff_Suc_1)
  then have d: "take m (drop 1 dat) = take 7 (drop (tx_off a) (take (tx_len a) (tx_buf a)))"
    by (simp add: cf_frame_def)
  have "m = 7" if "7 < rx_len b - rx_off b" using that by (simp add: m_def)
  then have short: "\<not> (rx_len b - rx_off b > CF_MAX_DATA \<and> length dat - 1 < CF_MAX_DATA)"
    using av by auto
  have s: "b\<lparr>rx_buf := memcpy_at (rx_buf b) (rx_off b) (take m (drop 1 dat)), rx_off := rx_off b + m,
      rx_sn := (rx_sn b + 1) AND 0x0F, rx_block_cf := rx_block_cf b + 1, rx_timer := now\<rparr> = b1"
    unfolding d b1_def by (simp only: m_def)
  have k: "rx_off b1 = rx_off b + m" "rx_len b1 = rx_len b" "lcfg b1 = lcfg b" "rx_block_cf b1 = rx_block_cf b + 1"
    "tx_id b1 = tx_id b"
    by (simp_all add: b1_def m_def)
  have e: "rx_len b \<le> rx_off b + m \<longleftrightarrow> rx_len b \<le> rx_off b + 7" using assms by (auto simp: m_def)
  have fc: "send_fc open_tx (b1\<lparr>rx_block_cf := 0\<rparr>) ISOTP_FS_CTS [] =
      [(tx_id b, padded b [0x30, cfg_bs (lcfg b), cfg_stmin (lcfg b)])]"
    by (simp add: send_fc_def tx_frame_open k padded_def)
  show ?thesis
    unfolding dat_def [symmetric] handle_cf_def Let_def t s p
    using assms(1) short by (simp only: k e fc not_True_eq_False if_False simp_thms)
qed

subsection \<open>Addressing the frames of the exchange\<close>

lemma padded_pci:
  assumes "t \<in> {0, 1, 2, 3 :: u8}" "length xs < 8"
  shows "PCI_TYPE (padded l ((push_bit 4 t OR (w AND 0x0F)) # xs) ! 0) = t"
    "0 < length (padded l ((push_bit 4 t OR (w AND 0x0F)) # xs))"
    "length (padded l ((push_bit 4 t OR (w AND 0x0F)) # xs)) \<le> 8"
proof -
  let ?f = "(push_bit 4 t OR (w AND 0x0F)) # xs"
  have "padded l ?f ! 0 = ?f ! 0" by (rule padded_facts(4)) simp
  then show "PCI_TYPE (padded l ?f ! 0) = t" using pci_byte(1) [OF assms(1), of w] by simp
  have "0 < length ?f" by simp
  then show "0 < length (padded l ?f)" using padded_facts(1) [of ?f l] by linarith
  show "length (padded l ?f) \<le> 8" using padded_facts(2) [of ?f l] assms(2) by simp
qed

lemma cf_dispatch:
  assumes "rx_id b = cid"
  shows "isotp_on_can_frame can_tx now b cid (padded a (cf_frame a)) e = handle_cf can_tx now b (padded a (cf_frame a)) e"
proof -
  have "length (take 7 (drop (tx_off a) (take (tx_len a) (tx_buf a)))) < 8" by simp
  then show ?thesis
    using padded_pci [of ISOTP_PCI_CF, of "take 7 (drop (tx_off a) (take (tx_len a) (tx_buf a)))" a "tx_sn a"] assms
    by (simp add: isotp_on_can_frame_def Let_def cf_frame_def not_less del: length_take)
qed

definition fc_cts :: "isotp_link \<Rightarrow> u8 list" where
  "fc_cts b = padded b [0x30, cfg_bs (lcfg b), cfg_stmin (lcfg b)]"

lemma fc_arrives:
  assumes "rx_id a = cid"
  shows "isotp_on_can_frame can_tx now a cid (fc_cts b) e =
     (if tx_phase a = ISOTP_WAIT_FC
      then a\<lparr>tx_bs_left := cfg_bs (lcfg b), tx_stmin := cfg_stmin (lcfg b), tx_wft := 0,
             tx_phase := ISOTP_SEND, tx_st_timer := now\<rparr> else a, e)"
proof -
  have i: "fc_cts b ! i = [0x30, cfg_bs (lcfg b), cfg_stmin (lcfg b)] ! i" if "i < 3" for i
    unfolding fc_cts_def by (rule padded_facts(4)) (use that in simp)
  have l: "3 \<le> length (fc_cts b)" "length (fc_cts b) \<le> 8"
    using padded_facts(1,2) [of "[0x30, cfg_bs (lcfg b), cfg_stmin (lcfg b)]" b] by (simp_all add: fc_cts_def)
  have f: "fc_cts b ! 0 = 0x30" "fc_cts b ! 1 = cfg_bs (lcfg b)" "fc_cts b ! 2 = cfg_stmin (lcfg b)"
    using i [of 0] i [of 1] i [of 2] by simp_all
  have p: "PCI_TYPE 0x30 = 3" "PCI_LOW 0x30 = 0" by (simp_all add: PCI_TYPE_def PCI_LOW_def)
  have "length (fc_cts b) > 1" "length (fc_cts b) > 2" "\<not> length (fc_cts b) < 1" "\<not> length (fc_cts b) > 8"
    using l by linarith+
  then show ?thesis
    using assms f p by (simp add: isotp_on_can_frame_def Let_def handle_fc_def)
qed

subsection \<open>The state of a transfer after \<open>k\<close> consecutive frames\<close>

definition peers :: "isotp_link \<Rightarrow> isotp_link \<Rightarrow> bool" where
  "peers a b \<longleftrightarrow> rx_id b = tx_id a \<and> rx_id a = tx_id b"

definition xfer_at :: "nat \<Rightarrow> u8 list \<Rightarrow> u32 \<Rightarrow> isotp_link \<times> isotp_link \<Rightarrow> bool" where
  "xfer_at k dat t s \<longleftrightarrow>
     (let (a, b) = s in
      peers a b \<and> 6 + 7 * k < length dat \<and> length dat \<le> 4095 \<and>
      tx_phase a = ISOTP_SEND \<and> tx_len a = length dat \<and> tx_off a = 6 + 7 * k \<and>
      tx_sn a = word_of_nat ((k + 1) mod 16) \<and> length (tx_buf a) = 4095 \<and> take (length dat) (tx_buf a) = dat \<and>
      tx_stmin a = cfg_stmin (lcfg b) \<and> tx_st_timer a = t \<and>
      (if cfg_bs (lcfg b) = 0 then tx_bs_left a = 0
       else rx_block_cf b < cfg_bs (lcfg b) \<and> tx_bs_left a = cfg_bs (lcfg b) - rx_block_cf b) \<and>
      tx_phase b = ISOTP_IDLE \<and> rx_phase b = ISOTP_RECV \<and> rx_len b = length dat \<and> rx_off b = 6 + 7 * k \<and>
      rx_sn b = tx_sn a \<and> length (rx_buf b) = 4095 \<and> take (6 + 7 * k) (rx_buf b) = take (6 + 7 * k) dat \<and>
      \<not> rx_functional b \<and> rx_timer b = t \<and> n_cr_ms (lcfg b) \<noteq> 0)"

text \<open>Delivered: the sender is idle again, the receiver holds the whole message.\<close>

definition xfer_done :: "u8 list \<Rightarrow> isotp_link \<times> isotp_link \<Rightarrow> bool" where
  "xfer_done dat s \<longleftrightarrow>
     (let (a, b) = s in
      tx_phase a = ISOTP_IDLE \<and> tx_phase b = ISOTP_IDLE \<and> rx_phase b = ISOTP_IDLE \<and> rx_complete b \<and>
      rx_len b = length dat \<and> take (length dat) (rx_buf b) = dat \<and> \<not> rx_functional b)"

lemma poll_rx_tx_fields [simp]:
  "tx_phase (poll_rx now l) = tx_phase l" "tx_len (poll_rx now l) = tx_len l"
  "tx_off (poll_rx now l) = tx_off l" "tx_sn (poll_rx now l) = tx_sn l" "tx_buf (poll_rx now l) = tx_buf l"
  "tx_stmin (poll_rx now l) = tx_stmin l" "tx_st_timer (poll_rx now l) = tx_st_timer l"
  "tx_bs_left (poll_rx now l) = tx_bs_left l" "tx_id (poll_rx now l) = tx_id l" "rx_id (poll_rx now l) = rx_id l"
  by (simp_all add: poll_rx_def rx_reset_def)

lemma poll_quiet:
  assumes "tx_phase b = ISOTP_IDLE" "rx_phase b = ISOTP_RECV \<Longrightarrow> rx_timer b = now \<and> n_cr_ms (lcfg b) \<noteq> 0"
  shows "isotp_poll can_tx now b e = (b, e)"
proof -
  have "\<not> n_cr_ms (lcfg b) \<le> 0 \<longleftrightarrow> n_cr_ms (lcfg b) \<noteq> 0" by simp
  then show ?thesis
    using assms by (auto simp: isotp_poll_def poll_tx_def poll_rx_def elapsed_def)
qed

lemma deliver_one: "deliver now l [(cid, dat)] = isotp_on_can_frame open_tx now l cid dat []"
  by (simp add: split_beta)

lemma round_poll:
  assumes "xfer_at k dat t (a, b)" "stmin_to_ms (cfg_stmin (lcfg b)) \<le> now - t"
  shows "poll_tx open_tx now a [] =
     (if length dat \<le> 6 + 7 * Suc k then (True, tx_reset (cf_sent now a), [(tx_id a, padded a (cf_frame a))])
      else (False,
        if tx_bs_left a = 0 then cf_sent now a
        else if tx_bs_left a - 1 = 0
        then (cf_sent now a)\<lparr>tx_bs_left := tx_bs_left a - 1, tx_phase := ISOTP_WAIT_FC, tx_timer := now\<rparr>
        else (cf_sent now a)\<lparr>tx_bs_left := tx_bs_left a - 1\<rparr>, [(tx_id a, padded a (cf_frame a))]))"
  using poll_sends [of a now] assms by (simp add: xfer_at_def)

text \<open>The receiver after taking the frame.\<close>

definition cf_taken :: "u32 \<Rightarrow> isotp_link \<Rightarrow> isotp_link \<Rightarrow> isotp_link" where
  "cf_taken now a b = b\<lparr>rx_buf := memcpy_at (rx_buf b) (rx_off b) (take 7 (drop (tx_off a) (take (tx_len a) (tx_buf a)))),
      rx_off := rx_off b + min (rx_len b - rx_off b) 7, rx_sn := (rx_sn b + 1) AND 0x0F,
      rx_block_cf := rx_block_cf b + 1, rx_timer := now\<rparr>"

lemma round_receive:
  assumes "xfer_at k dat t (a, b)"
  shows "deliver now b [(tx_id a, padded a (cf_frame a))] =
    (if length dat \<le> 6 + 7 * Suc k
     then ((cf_taken now a b)\<lparr>rx_result := ISOTP_OK, rx_complete := True, rx_phase := ISOTP_IDLE\<rparr>, [])
     else if cfg_bs (lcfg b) \<noteq> 0 \<and> cfg_bs (lcfg b) \<le> rx_block_cf b + 1
     then ((cf_taken now a b)\<lparr>rx_block_cf := 0\<rparr>, [(tx_id b, fc_cts b)])
     else (cf_taken now a b, []))"
proof -
  have "tx_sn a AND 0x0F = tx_sn a" using assms by (simp add: xfer_at_def sn_low)
  then show ?thesis
    unfolding deliver_one
    using cf_arrives [of b a now] cf_dispatch [of b "tx_id a" open_tx now a "[]"] assms
    by (simp add: xfer_at_def peers_def cf_taken_def fc_cts_def)
qed

lemma taken_data:
  assumes "xfer_at k dat t (a, b)"
  shows "take (6 + 7 * k + min (length dat - (6 + 7 * k)) 7) (rx_buf (cf_taken now a b)) =
      take (6 + 7 * k + min (length dat - (6 + 7 * k)) 7) dat"
    "length (rx_buf (cf_taken now a b)) = 4095"
proof -
  define o1 where "o1 = 6 + 7 * k"
  define m where "m = min (length dat - o1) 7"
  have x: "o1 < length dat" "length dat \<le> 4095" "length (rx_buf b) = 4095" "take o1 (rx_buf b) = take o1 dat"
    "rx_off b = o1" "tx_off a = o1" "tx_len a = length dat" "take (length dat) (tx_buf a) = dat"
    using assms by (simp_all add: xfer_at_def o1_def)
  have l: "length (take 7 (drop o1 dat)) = m" by (simp add: m_def min.commute)
  have t7: "take 7 (drop o1 dat) = take m (drop o1 dat)" by (simp add: m_def min_def)
  have bd: "o1 + m \<le> 4095" using x by (simp add: m_def)
  have e: "rx_buf (cf_taken now a b) = memcpy_at (rx_buf b) o1 (take 7 (drop o1 dat))"
    using x by (simp add: cf_taken_def)
  have "take (o1 + m) (rx_buf (cf_taken now a b)) = take o1 dat @ take m (drop o1 dat)"
    unfolding e using x l t7 by simp
  then show "take (6 + 7 * k + min (length dat - (6 + 7 * k)) 7) (rx_buf (cf_taken now a b)) =
      take (6 + 7 * k + min (length dat - (6 + 7 * k)) 7) dat"
    by (simp add: take_add o1_def m_def)
  show "length (rx_buf (cf_taken now a b)) = 4095" unfolding e using x l bd by simp
qed

lemma round_last:
  assumes "xfer_at k dat t (a, b)" "stmin_to_ms (cfg_stmin (lcfg b)) \<le> now - t" "length dat \<le> 6 + 7 * Suc k"
  shows "xfer_done dat (exchange_round now (a, b))"
proof -
  have p: "isotp_poll open_tx now a [] = (tx_reset (cf_sent now a), [(tx_id a, padded a (cf_frame a))])"
    using round_poll [OF assms(1,2)] assms(3) by (simp add: isotp_poll_def)
  define b1 where "b1 = (cf_taken now a b)\<lparr>rx_result := ISOTP_OK, rx_complete := True, rx_phase := ISOTP_IDLE\<rparr>"
  have d: "deliver now b [(tx_id a, padded a (cf_frame a))] = (b1, [])"
    using round_receive [OF assms(1)] assms(3) by (simp add: b1_def del: deliver.simps)
  have q: "isotp_poll open_tx now b1 [] = (b1, [])"
    by (rule poll_quiet) (use assms(1) in \<open>simp_all add: b1_def cf_taken_def xfer_at_def\<close>)
  have "exchange_round now (a, b) = (tx_reset (cf_sent now a), b1)"
    by (simp add: exchange_round_def p d q del: deliver.simps(2))
  moreover have "6 + 7 * k + min (length dat - (6 + 7 * k)) 7 = length dat"
    using assms(1,3) by (simp add: xfer_at_def)
  ultimately show ?thesis
    using taken_data [OF assms(1), of now] assms(1)
    by (simp add: xfer_done_def b1_def tx_reset_def) (simp add: cf_taken_def xfer_at_def)
qed

lemma round_next:
  assumes "xfer_at k dat t (a, b)" "stmin_to_ms (cfg_stmin (lcfg b)) \<le> now - t" "\<not> length dat \<le> 6 + 7 * Suc k"
  shows "xfer_at (Suc k) dat now (exchange_round now (a, b)) \<and> lcfg (snd (exchange_round now (a, b))) = lcfg b"
proof -
  define wait where "wait \<longleftrightarrow> tx_bs_left a \<noteq> 0 \<and> tx_bs_left a - 1 = 0"
  define a1 where "a1 = (if tx_bs_left a = 0 then cf_sent now a
    else if wait then (cf_sent now a)\<lparr>tx_bs_left := tx_bs_left a - 1, tx_phase := ISOTP_WAIT_FC, tx_timer := now\<rparr>
    else (cf_sent now a)\<lparr>tx_bs_left := tx_bs_left a - 1\<rparr>)"
  define b1 where "b1 = (if wait then (cf_taken now a b)\<lparr>rx_block_cf := 0\<rparr> else cf_taken now a b)"
  have bs: "cfg_bs (lcfg b) = 0 \<and> tx_bs_left a = 0 \<or>
      rx_block_cf b < cfg_bs (lcfg b) \<and> tx_bs_left a = cfg_bs (lcfg b) - rx_block_cf b"
    using assms(1) by (auto simp: xfer_at_def split: if_splits)
  have w: "wait \<longleftrightarrow> cfg_bs (lcfg b) \<noteq> 0 \<and> cfg_bs (lcfg b) \<le> rx_block_cf b + 1"
    using bs block_step(1,2,4) [of "rx_block_cf b" "cfg_bs (lcfg b)"] unfolding wait_def by auto
  have p: "isotp_poll open_tx now a [] = (poll_rx now a1, [(tx_id a, padded a (cf_frame a))])"
    using round_poll [OF assms(1,2)] assms(3) by (simp add: isotp_poll_def a1_def wait_def)
  have d: "deliver now b [(tx_id a, padded a (cf_frame a))] = (b1, if wait then [(tx_id b, fc_cts b)] else [])"
    using round_receive [OF assms(1)] assms(3) by (simp add: b1_def w del: deliver.simps)
  have q: "isotp_poll open_tx now b1 [] = (b1, [])"
    by (rule poll_quiet) (use assms(1) in \<open>simp_all add: b1_def cf_taken_def xfer_at_def\<close>)
  define a2 where "a2 = (if wait then (poll_rx now a1)\<lparr>tx_bs_left := cfg_bs (lcfg b), tx_stmin := cfg_stmin (lcfg b),
      tx_wft := 0, tx_phase := ISOTP_SEND, tx_st_timer := now\<rparr> else poll_rx now a1)"
  have pa: "rx_id (poll_rx now a1) = tx_id b" "wait \<Longrightarrow> tx_phase (poll_rx now a1) = ISOTP_WAIT_FC"
    using assms(1) by (auto simp: a1_def xfer_at_def peers_def cf_sent_def wait_def)
  have ret: "deliver now (poll_rx now a1) (if wait then [(tx_id b, fc_cts b)] else []) = (a2, [])"
    using fc_arrives [OF pa(1), of open_tx now b "[]"] pa(2) by (simp add: a2_def)
  have r: "exchange_round now (a, b) = (a2, b1)"
    by (simp add: exchange_round_def p d q ret del: deliver.simps)
  have m: "min (length dat - (6 + 7 * k)) 7 = 7" using assms(3) by simp
  have sn: "(tx_sn a + 1) AND 0x0F = word_of_nat ((Suc k + 1) mod 16)"
    using assms(1) sn_next [of "k + 1"] by (simp add: xfer_at_def)
  have data: "take (6 + 7 * Suc k) (rx_buf b1) = take (6 + 7 * Suc k) dat" "length (rx_buf b1) = 4095"
    using taken_data [OF assms(1), of now] m by (simp_all add: b1_def add.commute)
  have blk: "if cfg_bs (lcfg b) = 0 then tx_bs_left a2 = 0
      else rx_block_cf b1 < cfg_bs (lcfg b) \<and> tx_bs_left a2 = cfg_bs (lcfg b) - rx_block_cf b1"
    using bs w block_step [of "rx_block_cf b" "cfg_bs (lcfg b)"]
    by (auto simp: a2_def a1_def b1_def cf_taken_def cf_sent_def word_neq_0_conv algebra_simps)
  have a2: "tx_phase a2 = ISOTP_SEND" "tx_len a2 = tx_len a" "tx_off a2 = 6 + 7 * Suc k" "tx_buf a2 = tx_buf a"
    "tx_sn a2 = (tx_sn a + 1) AND 0x0F" "tx_st_timer a2 = now" "tx_id a2 = tx_id a" "rx_id a2 = rx_id a"
    "tx_stmin a2 = cfg_stmin (lcfg b)"
    using assms(1) m by (auto simp: a2_def a1_def cf_sent_def xfer_at_def)
  have b1: "tx_phase b1 = ISOTP_IDLE" "rx_phase b1 = ISOTP_RECV" "rx_len b1 = length dat" "rx_off b1 = 6 + 7 * Suc k"
    "rx_sn b1 = (tx_sn a + 1) AND 0x0F" "lcfg b1 = lcfg b" "rx_functional b1 = rx_functional b" "rx_timer b1 = now"
    "tx_id b1 = tx_id b" "rx_id b1 = rx_id b"
    using assms(1) m by (auto simp: b1_def cf_taken_def xfer_at_def)
  show ?thesis
    unfolding r xfer_at_def using assms(1,3) blk data a2 b1 sn
    by (simp add: peers_def xfer_at_def)
qed

subsection \<open>The whole exchange\<close>

lemma round_done:
  assumes "xfer_done dat s"
  shows "xfer_done dat (exchange_round now s)"
proof -
  obtain a b where s: "s = (a, b)" by fastforce
  have "isotp_poll open_tx now a [] = (poll_rx now a, [])"
    using assms s by (simp add: isotp_poll_def poll_tx_def xfer_done_def)
  moreover have "isotp_poll open_tx now b [] = (b, [])"
    by (rule poll_quiet) (use assms s in \<open>simp_all add: xfer_done_def\<close>)
  ultimately show ?thesis using assms s by (simp add: exchange_round_def xfer_done_def)
qed

lemma exchange_stays_done: "xfer_done dat s \<Longrightarrow> xfer_done dat (exchange n dt now s)"
  by (induction n arbitrary: now s) (simp_all add: round_done)

lemma exchange_finishes:
  assumes "xfer_at k dat now s" "stmin_to_ms (cfg_stmin (lcfg (snd s))) \<le> dt" "length dat \<le> 6 + 7 * (k + n)"
  shows "xfer_done dat (exchange n dt now s)"
  using assms
proof (induction n arbitrary: k now s)
  case 0
  then show ?case by (simp add: xfer_at_def split_beta)
next
  case (Suc n)
  obtain a b where s: "s = (a, b)" by fastforce
  have st: "stmin_to_ms (cfg_stmin (lcfg b)) \<le> (now + dt) - now" using Suc.prems(2) s by simp
  show ?case
  proof (cases "length dat \<le> 6 + 7 * Suc k")
    case True
    then show ?thesis
      using round_last [OF Suc.prems(1) [unfolded s] st] exchange_stays_done s by simp
  next
    case False
    then show ?thesis
      using round_next [OF Suc.prems(1) [unfolded s] st] Suc.IH [of "Suc k" "now + dt"] Suc.prems(2,3) s by simp
  qed
qed

lemma start_single:
  assumes "link_ok a" "link_ok b" "peers a b" "tx_phase a = ISOTP_IDLE" "tx_phase b = ISOTP_IDLE"
    and "0 < length dat" "length dat \<le> 7"
  shows "xfer_done dat (exchange_start now dat (a, b))"
proof -
  define f where "f = (push_bit 4 ISOTP_PCI_SF OR (word_of_nat (length dat) AND 0x0F)) # dat"
  have la: "length (tx_buf a) = 4095" "length (rx_buf b) = 4095"
    using assms(1,2) by (simp_all add: link_ok_def tx_side_ok_def rx_side_ok_def)
  have send: "isotp_send open_tx now a dat [] =
      (ISOTP_OK, tx_reset (a\<lparr>tx_buf := memcpy_at (tx_buf a) 0 dat, tx_len := length dat, tx_off := 0, tx_wft := 0\<rparr>),
       [(tx_id a, padded a f)])"
    using assms(4,6,7) la by (simp add: isotp_send_def tx_frame_open Let_def f_def padded_def)
  have "padded a f ! 0 = f ! 0" by (rule padded_facts(4)) (simp add: f_def)
  then have p: "PCI_TYPE (padded a f ! 0) = 0" "PCI_LOW (padded a f ! 0) = word_of_nat (length dat) AND 0x0F"
    using pci_byte [of ISOTP_PCI_SF "word_of_nat (length dat)"] by (simp_all add: f_def)
  have "word_of_nat (length dat) AND (0x0F :: u8) = word_of_nat (length dat)"
    using sn_low [of "length dat"] assms(7) by simp
  moreover have "unat (word_of_nat (length dat) :: u8) = length dat" using assms(7) by (simp add: unat_of_nat)
  ultimately have u: "unat (PCI_LOW (padded a f ! 0)) = length dat" unfolding p(2) by simp
  have l: "length f = Suc (length dat)" by (simp add: f_def)
  have lp: "length dat \<le> length (padded a f) - 1" "0 < length (padded a f)" "length (padded a f) \<le> 8"
    using padded_facts(1,2) [of f a] l assms(7) by linarith+
  have "take (Suc (length dat)) (padded a f) = f" using padded_facts(3) [of f a] l by simp
  then have t: "take (length dat) (drop 1 (padded a f)) = dat"
    by (metis drop_take diff_Suc_1 f_def drop_Suc_Cons drop0 One_nat_def)
  have recv: "isotp_on_can_frame open_tx now b (tx_id a) (padded a f) [] =
      (b\<lparr>rx_buf := memcpy_at (rx_buf b) 0 dat, rx_len := length dat, rx_off := length dat, rx_phase := ISOTP_IDLE,
         rx_result := ISOTP_OK, rx_functional := False, rx_complete := True\<rparr>, [])"
    using assms(3,6,7) lp t u p(1)
    by (simp add: isotp_on_can_frame_def peers_def Let_def handle_sf_def not_less)
  show ?thesis
    using la assms(5,7) by (simp add: exchange_start_def send recv xfer_done_def tx_reset_def)
qed

lemma start_first:
  assumes "link_ok a" "link_ok b" "peers a b" "tx_phase a = ISOTP_IDLE" "tx_phase b = ISOTP_IDLE"
    and "7 < length dat" "length dat \<le> 4095" "n_cr_ms (lcfg b) \<noteq> 0"
  shows "xfer_at 0 dat now (exchange_start now dat (a, b)) \<and> lcfg (snd (exchange_start now dat (a, b))) = lcfg b"
proof -
  define f where "f = [push_bit 4 ISOTP_PCI_FF OR (word_of_nat (length dat div 256) AND 0x0F),
      word_of_nat (length dat mod 256)] @ take 6 dat"
  have la: "length (tx_buf a) = 4095" "length (rx_buf b) = 4095" "rx_side_ok b" "tx_bs_left a = tx_bs_left a"
    using assms(1,2) by (simp_all add: link_ok_def tx_side_ok_def rx_side_ok_def)
  define a1 where "a1 = a\<lparr>tx_buf := memcpy_at (tx_buf a) 0 dat, tx_len := length dat, tx_wft := 0,
      tx_off := 6, tx_sn := 1, tx_phase := ISOTP_WAIT_FC, tx_timer := now\<rparr>"
  have l: "length f = 8" using assms(6) by (simp add: f_def)
  have pf: "padded a f = f" by (rule padded_facts(5)) (rule l)
  have tb: "take 6 (memcpy_at (tx_buf a) 0 dat) = take 6 dat" using assms(6) by (simp add: memcpy_at_def)
  have send: "isotp_send open_tx now a dat [] = (ISOTP_INPROGRESS, a1, [(tx_id a, f)])"
    using assms(4,6,7) pf by (auto simp: isotp_send_def tx_frame_open Let_def f_def padded_def tb a1_def)
  have p: "PCI_TYPE (f ! 0) = 1" "PCI_LOW (f ! 0) = word_of_nat (length dat div 256) AND 0x0F"
    using pci_byte [of ISOTP_PCI_FF "word_of_nat (length dat div 256)"] by (simp_all add: f_def)
  have dl: "unat (PCI_LOW (f ! 0)) * 256 + unat (f ! 1) = length dat"
    unfolding p(2) using ff_length [OF assms(7)] by (simp add: f_def)
  have d: "take FF_FIRST_DATA (drop 2 f) = take 6 dat" using assms(6) by (simp add: f_def)
  define b1 where "b1 = b\<lparr>rx_buf := memcpy_at (rx_buf b) 0 (take 6 dat), rx_len := length dat, rx_off := 6, rx_sn := 1,
      rx_block_cf := 0, rx_phase := ISOTP_RECV, rx_result := ISOTP_OK, rx_functional := False, rx_timer := now\<rparr>"
  have fc: "send_fc open_tx b1 ISOTP_FS_CTS [] = [(tx_id b, fc_cts b)]"
    by (simp add: send_fc_def tx_frame_open fc_cts_def padded_def b1_def)
  have "handle_ff open_tx now b f [] = (b1, send_fc open_tx b1 ISOTP_FS_CTS [])"
    unfolding handle_ff_def dl d using l assms(6,7) by (simp add: Let_def b1_def)
  then have recv: "isotp_on_can_frame open_tx now b (tx_id a) f [] = (b1, [(tx_id b, fc_cts b)])"
    using assms(3) l p(1) fc by (simp add: isotp_on_can_frame_def peers_def Let_def)
  have a2: "isotp_on_can_frame open_tx now a1 (tx_id b) (fc_cts b) [] =
      (a1\<lparr>tx_bs_left := cfg_bs (lcfg b), tx_stmin := cfg_stmin (lcfg b), tx_wft := 0,
         tx_phase := ISOTP_SEND, tx_st_timer := now\<rparr>, [])"
    using fc_arrives [of a1 "tx_id b" open_tx now b "[]"] assms(3) by (simp add: a1_def peers_def)
  have ml: "length (memcpy_at (rx_buf b) 0 (take 6 dat)) = 4095" using la assms(6) by simp
  have mt: "take 6 (memcpy_at (rx_buf b) 0 (take 6 dat)) = take 6 dat" using assms(6) by (simp add: memcpy_at_def)
  have ml': "length (memcpy_at (tx_buf a) 0 dat) = 4095" using la assms(7) by simp
  have mt': "take (length dat) (memcpy_at (tx_buf a) 0 dat) = dat" by (simp add: memcpy_at_def)
  have r: "exchange_start now dat (a, b) = (a1\<lparr>tx_bs_left := cfg_bs (lcfg b), tx_stmin := cfg_stmin (lcfg b), tx_wft := 0,
         tx_phase := ISOTP_SEND, tx_st_timer := now\<rparr>, b1)"
    by (simp add: exchange_start_def send recv a2)
  show ?thesis
    unfolding r xfer_at_def using assms ml mt ml' mt'
    by (simp add: a1_def b1_def peers_def word_neq_0_conv)
qed

text \<open>C13. A message of any length from 1 to 4095 bytes sent over one link is received whole and
  unchanged by the other, whatever block size and separation time the receiver asks for and whatever
  the padding of the two sides, as soon as the sender has been polled once per remaining seven bytes
  at intervals of at least the separation time; the sender is then free for the next message.\<close>

theorem isotp_message_arrives:
  assumes "link_ok a" "link_ok b" "peers a b" "tx_phase a = ISOTP_IDLE" "tx_phase b = ISOTP_IDLE"
    and "0 < length dat" "length dat \<le> ISOTP_MAX_MSG" "n_cr_ms (lcfg b) \<noteq> 0"
    and "stmin_to_ms (cfg_stmin (lcfg b)) \<le> dt" "length dat \<le> FF_FIRST_DATA + CF_MAX_DATA * n"
    and "exchange n dt now (exchange_start now dat (a, b)) = (a', b')"
  shows "tx_phase a' = ISOTP_IDLE \<and>
    isotp_receive b' ISOTP_MAX_MSG = (ISOTP_OK, Some (dat, False), b'\<lparr>rx_complete := False\<rparr>)"
proof -
  have "xfer_done dat (exchange n dt now (exchange_start now dat (a, b)))"
  proof (cases "length dat \<le> 7")
    case True
    then show ?thesis using start_single assms exchange_stays_done by blast
  next
    case False
    then show ?thesis
      using start_first [OF assms(1-5), of dat now] assms
        exchange_finishes [of 0 dat now "exchange_start now dat (a, b)" dt n] by simp
  qed
  then show ?thesis using assms(7,11) by (simp add: xfer_done_def isotp_receive_def)
qed

text \<open>A tester with all defaults and an ECU that grants blocks of two frames 5 ms apart.\<close>

definition demo_tester :: isotp_link where
  "demo_tester = isotp_init 0x7E0 0x7E8 ISOTP_NO_FUNC_ID None"

definition demo_ecu :: isotp_link where
  "demo_ecu = isotp_init 0x7E8 0x7E0 0x7DF (Some (zero_cfg\<lparr>cfg_bs := 2, cfg_stmin := 5, pad_byte := 0xFF\<rparr>))"

lemma demo_links_ok: "link_ok demo_tester" "link_ok demo_ecu"
  unfolding demo_tester_def demo_ecu_def by (rule init_ok_link)+

lemma demo_ecu_rx: "rx_id demo_ecu = 0x7E0"
  by (simp add: demo_ecu_def isotp_init_def)

theorem isotp_message_arrives_witness:
  "isotp_receive (snd (exchange 5 5 7 (exchange_start 7 (map word_of_nat [1..<40]) (demo_tester, demo_ecu)))) 4095 =
     (ISOTP_OK, Some (map word_of_nat [1..<40], False),
      (snd (exchange 5 5 7 (exchange_start 7 (map word_of_nat [1..<40]) (demo_tester, demo_ecu))))\<lparr>rx_complete := False\<rparr>)"
proof -
  define s where "s = exchange 5 5 7 (exchange_start 7 (map word_of_nat [1..<40]) (demo_tester, demo_ecu))"
  then have e: "exchange 5 5 7 (exchange_start 7 (map word_of_nat [1..<40]) (demo_tester, demo_ecu)) = (fst s, snd s)"
    by simp
  have c: "peers demo_tester demo_ecu" "tx_phase demo_tester = ISOTP_IDLE" "tx_phase demo_ecu = ISOTP_IDLE"
    "n_cr_ms (lcfg demo_ecu) \<noteq> 0" "stmin_to_ms (cfg_stmin (lcfg demo_ecu)) \<le> 5"
    by (simp_all add: peers_def demo_tester_def demo_ecu_def isotp_init_def cfg_defaults_def zero_cfg_def
      stmin_to_ms_def)
  show ?thesis
    unfolding s_def [symmetric]
    using isotp_message_arrives [OF demo_links_ok c(1,2,3) _ _ c(4,5) _ e] by simp
qed

subsection \<open>Giving up\<close>

text \<open>A row of WAIT frames, each with its time of arrival.\<close>

definition fc_waits :: "(u32 \<times> u8 list) list \<Rightarrow> isotp_link \<Rightarrow> isotp_link" where
  "fc_waits fs a = fold (\<lambda>(now, dat) a. handle_fc now a dat) fs a"

definition is_wait :: "u32 \<times> u8 list \<Rightarrow> bool" where
  "is_wait f \<longleftrightarrow> PCI_LOW (snd f ! 0) = ISOTP_FS_WAIT"

lemma fc_waits_idle: "tx_phase a = ISOTP_IDLE \<Longrightarrow> fc_waits fs a = a"
  by (induction fs) (auto simp: fc_waits_def handle_fc_def)

lemma wait_step:
  assumes "tx_phase a = ISOTP_WAIT_FC" "is_wait f" "unat (tx_wft a) < 255"
  shows "handle_fc (fst f) a (snd f) =
     (if unat (tx_wft a) + 1 \<le> unat (wft_max (lcfg a)) then a\<lparr>tx_wft := tx_wft a + 1, tx_timer := fst f\<rparr>
      else tx_reset (a\<lparr>tx_wft := tx_wft a + 1\<rparr>))"
    and "unat (tx_wft a + 1) = unat (tx_wft a) + 1"
proof -
  show u: "unat (tx_wft a + 1) = unat (tx_wft a) + 1" using assms(3) by (simp add: unat_word_ariths)
  show "handle_fc (fst f) a (snd f) =
     (if unat (tx_wft a) + 1 \<le> unat (wft_max (lcfg a)) then a\<lparr>tx_wft := tx_wft a + 1, tx_timer := fst f\<rparr>
      else tx_reset (a\<lparr>tx_wft := tx_wft a + 1\<rparr>))"
    using assms(1,2) u by (simp add: handle_fc_def is_wait_def Let_def word_less_nat_alt not_less)
qed

lemma waits_phase:
  assumes "tx_phase a = ISOTP_WAIT_FC" "list_all is_wait fs" "unat (tx_wft a) \<le> unat (wft_max (lcfg a))"
    and "wft_max (lcfg a) \<noteq> 0xFF"
  shows "tx_phase (fc_waits fs a) =
    (if unat (tx_wft a) + length fs \<le> unat (wft_max (lcfg a)) then ISOTP_WAIT_FC else ISOTP_IDLE)"
  using assms
proof (induction fs arbitrary: a)
  case Nil
  then show ?case by (simp add: fc_waits_def)
next
  case (Cons f fs)
  have "unat (wft_max (lcfg a)) < 255"
  proof -
    have "unat (wft_max (lcfg a)) \<noteq> unat (0xFF :: u8)" using Cons.prems(4) word_unat_eq_iff by blast
    then show ?thesis using unat_u8_less [of "wft_max (lcfg a)"] by simp
  qed
  then have w: "unat (tx_wft a) < 255" using Cons.prems(3) by linarith
  have f: "is_wait f" using Cons.prems(2) by simp
  note s = wait_step [OF Cons.prems(1) f w]
  have e: "fc_waits (f # fs) a = fc_waits fs (handle_fc (fst f) a (snd f))"
    by (simp add: fc_waits_def split_beta)
  show ?case
  proof (cases "unat (tx_wft a) + 1 \<le> unat (wft_max (lcfg a))")
    case True
    then show ?thesis
      using Cons.IH [of "a\<lparr>tx_wft := tx_wft a + 1, tx_timer := fst f\<rparr>"] Cons.prems e s by simp
  next
    case False
    have "fc_waits (f # fs) a = tx_reset (a\<lparr>tx_wft := tx_wft a + 1\<rparr>)"
      unfolding e s(1) using False by (simp add: fc_waits_idle tx_reset_def)
    then show ?thesis using False Cons.prems(3) by (simp add: tx_reset_def)
  qed
qed



subsection \<open>A message that is not collected in time\<close>

text \<open>What the interface does not promise: a First Frame arriving while a complete message waits
  to be collected leaves \<open>rx_complete\<close> set, so \<open>isotp_receive\<close> hands out a message of the new
  announced length of which only the first six bytes have arrived.\<close>

theorem isotp_uncollected_is_overwritten:
  assumes "link_ok l" "rx_complete l" "length dat = ISOTP_CAN_DL" "PCI_TYPE (dat ! 0) = ISOTP_PCI_FF"
    and "ff = unat (PCI_LOW (dat ! 0)) * 256 + unat (dat ! 1)" "SF_MAX_DATA < ff" "ff \<le> ISOTP_MAX_MSG"
    and "isotp_on_can_frame can_tx now l (rx_id l) dat e = (l', e')"
  shows "isotp_receive l' ISOTP_MAX_MSG =
    (ISOTP_OK, Some (drop 2 dat @ drop 6 (take ff (rx_buf l)), False), l'\<lparr>rx_complete := False\<rparr>) \<and>
    rx_phase l' = ISOTP_RECV \<and> rx_off l' = FF_FIRST_DATA"
proof -
  have b: "length (rx_buf l) = 4095" using assms(1) by (simp add: link_ok_def rx_side_ok_def)
  have "take ff (memcpy_at (rx_buf l) 0 (drop 2 dat)) = drop 2 dat @ drop 6 (take ff (rx_buf l))"
    using assms(3,6) b by (simp add: memcpy_at_def drop_take)
  moreover have "l' = l\<lparr>rx_buf := memcpy_at (rx_buf l) 0 (drop 2 dat), rx_len := ff, rx_off := 6, rx_sn := 1,
      rx_block_cf := 0, rx_phase := ISOTP_RECV, rx_result := ISOTP_OK, rx_functional := False, rx_timer := now\<rparr>"
    using assms(3-8) by (simp add: isotp_on_can_frame_def Let_def handle_ff_def)
  ultimately show ?thesis using assms(2,7) by (simp add: isotp_receive_def)
qed

theorem isotp_uncollected_is_overwritten_witness:
  "fst (isotp_receive (fst (isotp_on_can_frame open_tx 1
      (fst (isotp_on_can_frame open_tx 0 demo_ecu 0x7E0 [0x03, 1, 2, 3] []))
      0x7E0 [0x10, 20, 1, 2, 3, 4, 5, 6] [])) 4095) = ISOTP_OK"
proof -
  define l where "l = fst (isotp_on_can_frame open_tx 0 demo_ecu 0x7E0 [0x03, 1, 2, 3] [])"
  obtain l' e' where e: "isotp_on_can_frame open_tx 1 l (rx_id l) [0x10, 20, 1, 2, 3, 4, 5, 6] [] = (l', e')"
    by (cases "isotp_on_can_frame open_tx 1 l (rx_id l) [0x10, 20, 1, 2, 3, 4, 5, 6] []") auto
  have k: "link_ok l" "rx_id l = 0x7E0"
    unfolding l_def using on_can_frame_ok [OF demo_links_ok(2)] on_can_frame_emits [of demo_ecu "[]" "\<lambda>_. True" 0 "0x7E0" "[0x03, 1, 2, 3]"]
    by (simp_all add: open_tx_def call_emits_def demo_ecu_rx)
  have c: "rx_complete l"
    by (simp add: l_def isotp_on_can_frame_def demo_ecu_def isotp_init_def handle_sf_def Let_def PCI_TYPE_def PCI_LOW_def)
  have p: "PCI_TYPE ([0x10, 20, 1, 2, 3, 4, 5, 6] ! 0) = ISOTP_PCI_FF"
    "20 = unat (PCI_LOW ([0x10, 20, 1, 2, 3, 4, 5, 6] ! 0)) * 256 + unat ([0x10, 20, 1, 2, 3, 4, 5, 6] ! 1 :: u8)"
    by (simp_all add: PCI_TYPE_def PCI_LOW_def)
  show ?thesis
    using isotp_uncollected_is_overwritten [OF k(1) c _ p(1) p(2) _ _ e] e k(2) by (simp flip: l_def)
qed

end
