(* ===== verification/Quiesce.thy ===== *)
theory Quiesce
  imports Prelude
begin

text \<open>
  The teardown handshake of \<open>main/main.c\<close>: before the control task removes the TWAI driver, the receive
  and the transmit task must be parked outside every driver call (\<open>quiesce_park\<close>,
  \<open>ctrl_quiesce_begin\<close>, \<open>ctrl_quiesce_end\<close> and the loop heads of \<open>twai_rx_task\<close> and
  \<open>can_tx_task\<close>). The three tasks run on two cores, so they interleave statement by statement over
  the three shared words. The counter \<open>qs_count\<close> is a ghost: the number of writes to
  \<open>s_quiesce_seq\<close>, of which the 32-bit word is the residue.
\<close>

subsection \<open>The tasks\<close>

definition QUIESCE_POLL_MS :: nat where [simp]: "QUIESCE_POLL_MS = 1"
definition QUIESCE_WAIT_MS :: nat where [simp]: "QUIESCE_WAIT_MS = 500"

text \<open>\<open>ms_ticks\<close>: at least one tick, whatever the tick rate (\<open>hz\<close> is \<open>CONFIG_FREERTOS_HZ\<close>).\<close>

definition ms_ticks :: "nat \<Rightarrow> nat \<Rightarrow> nat" where
  "ms_ticks hz ms = (let t = ms * hz div 1000 in if t \<noteq> 0 then t else 1)"

text \<open>A TWAI task is at its loop head, inside \<open>quiesce_park\<close> before or after publishing its
  acknowledgement, or in the rest of its loop, where it may be inside a driver call.\<close>

datatype worker_pc = WHead | WPark u32 | WParked | WDriver

datatype quiescer_pc = QOutside | QWaitRx u32 nat | QWaitTx u32 nat | QCommitted u32 | QEnding

record quiesce_sys =
  qs_seq :: u32
  qs_rx_ack :: u32
  qs_tx_ack :: u32
  qs_rx :: worker_pc
  qs_tx :: worker_pc
  qs_ctrl :: quiescer_pc
  qs_count :: nat

definition quiesce_start :: quiesce_sys where
  "quiesce_start = \<lparr>qs_seq = 0, qs_rx_ack = 0, qs_tx_ack = 0, qs_rx = WHead, qs_tx = WHead,
     qs_ctrl = QOutside, qs_count = 0\<rparr>"

definition park_requested :: "u32 \<Rightarrow> bool" where
  "park_requested cycle \<longleftrightarrow> cycle AND 1 \<noteq> 0"

text \<open>One step of a TWAI task: its new position and its acknowledgement word.\<close>

fun worker_step :: "u32 \<Rightarrow> worker_pc \<Rightarrow> u32 \<Rightarrow> worker_pc \<times> u32" where
  "worker_step seq WHead ack = (if park_requested seq then WPark seq else WDriver, ack)"
| "worker_step seq (WPark cycle) ack = (WParked, cycle)"
| "worker_step seq WParked ack = (if park_requested seq then WPark seq else WHead, ack)"
| "worker_step seq WDriver ack = (WHead, ack)"

text \<open>One step of the control task between \<open>ctrl_quiesce_begin\<close> and \<open>ctrl_quiesce_end\<close>. While it
  waits it reads the two acknowledgements one after the other and counts the remaining ticks down;
  when they run out it gives up and only ends the cycle.\<close>

definition quiesce_wait_more :: "nat \<Rightarrow> u32 \<Rightarrow> nat \<Rightarrow> quiescer_pc" where
  "quiesce_wait_more hz cycle left =
     (if left = 0 then QEnding
      else let poll = ms_ticks hz QUIESCE_POLL_MS in QWaitRx cycle (if left > poll then left - poll else 0))"

definition ctrl_quiesce_step :: "nat \<Rightarrow> quiesce_sys \<Rightarrow> quiesce_sys" where
  "ctrl_quiesce_step hz s =
     (case qs_ctrl s of
        QOutside \<Rightarrow>
          let cycle = qs_seq s + 1
          in s\<lparr>qs_seq := cycle, qs_count := qs_count s + 1, qs_ctrl := QWaitRx cycle (ms_ticks hz QUIESCE_WAIT_MS)\<rparr>
      | QWaitRx cycle left \<Rightarrow>
          s\<lparr>qs_ctrl := if qs_rx_ack s \<noteq> cycle then quiesce_wait_more hz cycle left else QWaitTx cycle left\<rparr>
      | QWaitTx cycle left \<Rightarrow>
          s\<lparr>qs_ctrl := if qs_tx_ack s \<noteq> cycle then quiesce_wait_more hz cycle left else QCommitted cycle\<rparr>
      | QCommitted cycle \<Rightarrow> s\<lparr>qs_ctrl := QEnding\<rparr>
      | QEnding \<Rightarrow> s\<lparr>qs_seq := qs_seq s + 1, qs_count := qs_count s + 1, qs_ctrl := QOutside\<rparr>)"

text \<open>The interleaving.\<close>

inductive quiesce_step :: "nat \<Rightarrow> quiesce_sys \<Rightarrow> quiesce_sys \<Rightarrow> bool" for hz where
  rx: "worker_step (qs_seq s) (qs_rx s) (qs_rx_ack s) = (pc, ack) \<Longrightarrow>
     quiesce_step hz s (s\<lparr>qs_rx := pc, qs_rx_ack := ack\<rparr>)"
| tx: "worker_step (qs_seq s) (qs_tx s) (qs_tx_ack s) = (pc, ack) \<Longrightarrow>
     quiesce_step hz s (s\<lparr>qs_tx := pc, qs_tx_ack := ack\<rparr>)"
| ctrl: "quiesce_step hz s (ctrl_quiesce_step hz s)"

subsection \<open>The invariant\<close>

text \<open>A task position and acknowledgement seen from a cycle count \<open>n\<close>: the acknowledgement is the
  residue of an earlier or the current count, and if it is the current one and a park is requested
  the task is inside the park loop.\<close>

definition past :: "nat \<Rightarrow> u32 \<Rightarrow> bool" where
  "past n w \<longleftrightarrow> (\<exists>k \<le> n. w = word_of_nat k)"

definition worker_ok :: "nat \<Rightarrow> worker_pc \<Rightarrow> u32 \<Rightarrow> bool" where
  "worker_ok n pc ack \<longleftrightarrow>
     past n ack \<and> (\<forall>c. pc = WPark c \<longrightarrow> past n c) \<and>
     (odd n \<and> ack = word_of_nat n \<longrightarrow> pc = WParked \<or> pc = WPark (word_of_nat n))"

fun ctrl_ok :: "nat \<Rightarrow> u32 \<Rightarrow> u32 \<Rightarrow> quiescer_pc \<Rightarrow> bool" where
  "ctrl_ok n rx_ack tx_ack QOutside \<longleftrightarrow> even n"
| "ctrl_ok n rx_ack tx_ack (QWaitRx c left) \<longleftrightarrow> odd n \<and> c = word_of_nat n"
| "ctrl_ok n rx_ack tx_ack (QWaitTx c left) \<longleftrightarrow> odd n \<and> c = word_of_nat n \<and> rx_ack = c"
| "ctrl_ok n rx_ack tx_ack (QCommitted c) \<longleftrightarrow> odd n \<and> c = word_of_nat n \<and> rx_ack = c \<and> tx_ack = c"
| "ctrl_ok n rx_ack tx_ack QEnding \<longleftrightarrow> odd n"

definition quiesce_inv :: "quiesce_sys \<Rightarrow> bool" where
  "quiesce_inv s \<longleftrightarrow>
     qs_seq s = word_of_nat (qs_count s) \<and>
     worker_ok (qs_count s) (qs_rx s) (qs_rx_ack s) \<and> worker_ok (qs_count s) (qs_tx s) (qs_tx_ack s) \<and>
     ctrl_ok (qs_count s) (qs_rx_ack s) (qs_tx_ack s) (qs_ctrl s)"

lemma past_now: "past n (word_of_nat n)"
  by (auto simp: past_def)

lemma past_later: "past n w \<Longrightarrow> past (Suc n) w"
  by (auto simp: past_def intro: le_SucI)

lemma past_not_next:
  assumes "past n w" "Suc n < 2 ^ 32"
  shows "w \<noteq> word_of_nat (Suc n)"
proof
  assume e: "w = word_of_nat (Suc n)"
  obtain k where k: "k \<le> n" "w = word_of_nat k" using assms(1) by (auto simp: past_def)
  have "unat w = Suc n" unfolding e using assms(2) by (simp only: unat_of_nat take_bit_nat_eq_self) simp
  moreover have "unat w = k" unfolding k(2) using k(1) assms(2) by (simp add: unat_of_nat)
  ultimately show False using k(1) by simp
qed

lemma park_requested_odd: "park_requested (word_of_nat n) \<longleftrightarrow> odd n"
  by (simp add: park_requested_def and_one_eq flip: odd_iff_mod_2_eq_one)

lemma worker_step_ok:
  assumes "worker_ok n pc ack" "worker_step (word_of_nat n) pc ack = (pc', ack')"
  shows "worker_ok n pc' ack'" and "odd n \<Longrightarrow> ack = word_of_nat n \<Longrightarrow> ack' = ack"
proof -
  show "worker_ok n pc' ack'"
    using assms by (cases pc) (auto simp: worker_ok_def park_requested_odd past_now split: if_splits)
  show "ack' = ack" if "odd n" "ack = word_of_nat n"
    using assms that by (cases pc) (simp_all add: worker_ok_def)
qed

text \<open>A new cycle makes every acknowledgement stale.\<close>

lemma worker_ok_begin:
  assumes "worker_ok n pc ack" "Suc n < 2 ^ 32"
  shows "worker_ok (Suc n) pc ack"
  using assms past_not_next [of n ack] by (simp add: worker_ok_def past_later)

lemma quiesce_step_inv:
  assumes "quiesce_step hz s s'" "quiesce_inv s" "qs_count s' < 2 ^ 32"
  shows "quiesce_inv s'"
  using assms(1)
proof (cases rule: quiesce_step.cases)
  case (rx pc ack)
  then have w: "worker_ok (qs_count s) pc ack"
    "odd (qs_count s) \<Longrightarrow> qs_rx_ack s = word_of_nat (qs_count s) \<Longrightarrow> ack = qs_rx_ack s"
    using assms(2) worker_step_ok [of "qs_count s" "qs_rx s" "qs_rx_ack s" pc ack] by (simp_all add: quiesce_inv_def)
  show ?thesis using assms(2) w rx(1) by (cases "qs_ctrl s") (auto simp: quiesce_inv_def)
next
  case (tx pc ack)
  then have w: "worker_ok (qs_count s) pc ack"
    "odd (qs_count s) \<Longrightarrow> qs_tx_ack s = word_of_nat (qs_count s) \<Longrightarrow> ack = qs_tx_ack s"
    using assms(2) worker_step_ok [of "qs_count s" "qs_tx s" "qs_tx_ack s" pc ack] by (simp_all add: quiesce_inv_def)
  show ?thesis using assms(2) w tx(1) by (cases "qs_ctrl s") (auto simp: quiesce_inv_def)
next
  case ctrl
  then show ?thesis
    using assms(2,3) worker_ok_begin [of "qs_count s"]
    by (cases "qs_ctrl s") (auto simp: quiesce_inv_def ctrl_quiesce_step_def quiesce_wait_more_def Let_def)
qed

lemma quiesce_count_mono: "quiesce_step hz s s' \<Longrightarrow> qs_count s \<le> qs_count s'"
  by (cases rule: quiesce_step.cases)
    (auto simp: ctrl_quiesce_step_def Let_def split: quiescer_pc.splits)

lemma quiesce_reachable_inv:
  assumes "(quiesce_step hz)\<^sup>*\<^sup>* quiesce_start s" "qs_count s < 2 ^ 32"
  shows "quiesce_inv s"
  using assms
proof (induction rule: rtranclp_induct)
  case base
  show ?case by (simp add: quiesce_inv_def quiesce_start_def worker_ok_def past_def)
next
  case (step s s')
  then show ?case using quiesce_step_inv quiesce_count_mono by (meson le_less_trans)
qed

subsection \<open>Safety and progress\<close>

text \<open>A TWAI task on its own, while the request word does not change; it can always park.\<close>

definition worker_moves :: "u32 \<Rightarrow> worker_pc \<times> u32 \<Rightarrow> worker_pc \<times> u32 \<Rightarrow> bool" where
  "worker_moves seq p q \<longleftrightarrow> worker_step seq (fst p) (snd p) = q"

lemma worker_parks:
  assumes "park_requested seq"
  shows "(worker_moves seq)\<^sup>*\<^sup>* (pc, ack) (WParked, seq)"
proof -
  have step: "(worker_moves seq)\<^sup>*\<^sup>* p q"
    if "worker_step seq (fst p) (snd p) = r" "(worker_moves seq)\<^sup>*\<^sup>* r q" for p q r
  proof (rule converse_rtranclp_into_rtranclp [OF _ that(2)])
    show "worker_moves seq p r" using that(1) by (simp add: worker_moves_def)
  qed
  have head: "(worker_moves seq)\<^sup>*\<^sup>* (x, a) (WParked, seq)" if "x = WHead \<or> x = WParked" for x a
  proof (rule step)
    show "worker_step seq (fst (x, a)) (snd (x, a)) = (WPark seq, a)" using that assms by auto
    show "(worker_moves seq)\<^sup>*\<^sup>* (WPark seq, a) (WParked, seq)" by (rule step [of _ "(WParked, seq)"]) simp_all
  qed
  show ?thesis
  proof (cases pc)
    case (WPark c)
    show ?thesis by (rule step [of _ "(WParked, c)"]) (simp_all add: WPark head)
  next
    case WDriver
    show ?thesis by (rule step [of _ "(WHead, ack)"]) (simp_all add: WDriver head)
  qed (simp_all add: head)
qed

lemma rx_alone:
  "(worker_moves (qs_seq s))\<^sup>*\<^sup>* (qs_rx s, qs_rx_ack s) p \<Longrightarrow>
   (quiesce_step hz)\<^sup>*\<^sup>* s (s\<lparr>qs_rx := fst p, qs_rx_ack := snd p\<rparr>)"
proof (induction rule: rtranclp_induct)
  case base
  then show ?case by simp
next
  case (step p q)
  have "quiesce_step hz (s\<lparr>qs_rx := fst p, qs_rx_ack := snd p\<rparr>) (s\<lparr>qs_rx := fst q, qs_rx_ack := snd q\<rparr>)"
    using quiesce_step.rx [of "s\<lparr>qs_rx := fst p, qs_rx_ack := snd p\<rparr>" "fst q" "snd q" hz] step.hyps(2)
    by (simp add: worker_moves_def)
  with step.IH show ?case by (rule rtranclp.rtrancl_into_rtrancl)
qed

lemma tx_alone:
  "(worker_moves (qs_seq s))\<^sup>*\<^sup>* (qs_tx s, qs_tx_ack s) p \<Longrightarrow>
   (quiesce_step hz)\<^sup>*\<^sup>* s (s\<lparr>qs_tx := fst p, qs_tx_ack := snd p\<rparr>)"
proof (induction rule: rtranclp_induct)
  case base
  then show ?case by simp
next
  case (step p q)
  have "quiesce_step hz (s\<lparr>qs_tx := fst p, qs_tx_ack := snd p\<rparr>) (s\<lparr>qs_tx := fst q, qs_tx_ack := snd q\<rparr>)"
    using quiesce_step.tx [of "s\<lparr>qs_tx := fst p, qs_tx_ack := snd p\<rparr>" "fst q" "snd q" hz] step.hyps(2)
    by (simp add: worker_moves_def)
  with step.IH show ?case by (rule rtranclp.rtrancl_into_rtrancl)
qed

lemma both_park:
  assumes "park_requested (qs_seq s)"
  shows "(quiesce_step hz)\<^sup>*\<^sup>* s
    (s\<lparr>qs_rx := WParked, qs_rx_ack := qs_seq s, qs_tx := WParked, qs_tx_ack := qs_seq s\<rparr>)"
proof (rule rtranclp_trans)
  show "(quiesce_step hz)\<^sup>*\<^sup>* s (s\<lparr>qs_rx := WParked, qs_rx_ack := qs_seq s\<rparr>)"
    using rx_alone [OF worker_parks [OF assms], of hz] by simp
  show "(quiesce_step hz)\<^sup>*\<^sup>* (s\<lparr>qs_rx := WParked, qs_rx_ack := qs_seq s\<rparr>)
      (s\<lparr>qs_rx := WParked, qs_rx_ack := qs_seq s, qs_tx := WParked, qs_tx_ack := qs_seq s\<rparr>)"
    using tx_alone [OF worker_parks, of "s\<lparr>qs_rx := WParked, qs_rx_ack := qs_seq s\<rparr>" hz] assms by simp
qed

lemma committed_parked: "worker_ok n pc (word_of_nat n) \<Longrightarrow> odd n \<Longrightarrow> pc \<noteq> WDriver \<and> pc \<noteq> WHead"
  by (auto simp: worker_ok_def)



end
