(* ===== verification/Can_Tx_Safety.thy ===== *)
theory Can_Tx_Safety
  imports Can_Tx
begin

text \<open>
  The single-outstanding rule of \<open>can_tx_task\<close>: every move of \<open>Can_Tx\<close> keeps the invariant
  \<open>tx_inv\<close>, so the frames of the host reach the wire once each and in order; and the one way in which
  a frame is sent twice all the same.
\<close>

subsection \<open>Every move keeps the invariant\<close>

text \<open>Moves of the driver and of the host.\<close>

lemma host_inv:
  assumes "tx_inv s"
  shows "tx_inv (s\<lparr>ts_ring := ts_ring s @ [f], ts_input := ts_input s @ [f]\<rparr>)"
proof -
  define s' where "s' = s\<lparr>ts_ring := ts_ring s @ [f], ts_input := ts_input s @ [f]\<rparr>"
  have "unread s' = unread s" "outstanding s' = outstanding s" "verdicts s' = verdicts s"
    by (simp_all add: s'_def unread_def outstanding_def verdicts_def service_events_def)
  then have "tx_driver_ok s' = tx_driver_ok s" "tx_events_ok s' = tx_events_ok s" "tx_owner_ok s' = tx_owner_ok s"
    "tx_logs_ok s \<Longrightarrow> tx_logs_ok s'"
    unfolding tx_driver_ok_def tx_events_ok_def tx_owner_ok_def tx_logs_ok_def by (simp_all add: s'_def)
  then show ?thesis using assms by (simp add: tx_inv_def s'_def)
qed

text \<open>The driver hands back the outstanding copy with an alert of its own.\<close>

lemma verdict_inv:
  assumes "tx_inv s" "ts_state s = TWAI_STATE_RUNNING" "ts_copy s = Some f"
    and "a = TWAI_ALERT_TX_SUCCESS \<and> \<not> in_window (ts_ctrl s) \<and> w = ts_wire s @ [f] \<or>
         a = TWAI_ALERT_TX_FAILED \<and> w = ts_wire s"
  shows "tx_inv (s\<lparr>ts_copy := None, ts_wire := w, ts_alerts := ts_alerts s @ [a]\<rparr>)"
proof -
  have I: "tx_logs_ok s" "tx_driver_ok s" "tx_events_ok s" "tx_owner_ok s" using assms(1) by (simp_all add: tx_inv_def)
  have t: "tk_inflight (ts_task s)" "tk_have (ts_task s)" using I(1,4) assms(3) by (auto simp: tx_owner_ok_def tx_logs_ok_def)
  have o: "f = tk_pending (ts_task s)" "ts_done s = []" "posting (ts_ctrl s) = []" "ts_wire s = butlast (ts_kept s)"
    using I(4) t(1) assms(3) by (auto simp: tx_owner_ok_def)
  have al: "\<not> unread s" "TWAI_ALERT_BUS_OFF \<notin> set (ts_alerts s)" "TWAI_ALERT_BUS_RECOVERED \<notin> set (ts_alerts s)"
    using I(2,3) assms(2,3) by (auto simp: tx_events_ok_def tx_driver_ok_def outstanding_def)
  have kept: "butlast (ts_kept s) @ [f] = ts_kept s"
    using I(1) t(2) o(1) by (metis append_butlast_last_id tx_logs_ok_def)
  define s' where "s' = s\<lparr>ts_copy := None, ts_wire := w, ts_alerts := ts_alerts s @ [a]\<rparr>"
  have k: "ts_task s' = ts_task s" "ts_done s' = []" "posting (ts_ctrl s') = []" "outstanding s'"
    "ts_kept s' = ts_kept s" "ts_wire s' = w" "ts_copy s' = None" "ts_state s' = ts_state s" "ts_ctrl s' = ts_ctrl s"
    by (simp_all add: s'_def o(2,3) outstanding_def t(1))
  have v: "verdicts s' = [if a = TWAI_ALERT_TX_SUCCESS then CAN_TX_EVENT_OK else CAN_TX_EVENT_FAIL]"
    using al assms(4) unfolding verdicts_def k(2,3) service_events_eq by (auto simp: s'_def unread_def)
  have "tx_logs_ok s'" using I(1) by (simp add: tx_logs_ok_def s'_def)
  moreover have "tx_driver_ok s'" using al assms(2,4) by (auto simp: tx_driver_ok_def s'_def)
  moreover have "tx_events_ok s'"
  proof -
    have "in_window (ts_ctrl s) \<longrightarrow> TWAI_ALERT_TX_SUCCESS \<notin> set (ts_alerts s @ [a])"
      using al(1) assms(4) by (auto simp: unread_def)
    then have "in_window (ts_ctrl s') \<longrightarrow> TWAI_ALERT_TX_SUCCESS \<notin> set (ts_alerts s')" by (simp add: s'_def)
    then show ?thesis unfolding tx_events_ok_def k(2,3) using k(4) by simp
  qed
  moreover have "tx_owner_ok s'"
    using assms(4) t v o(4) kept unfolding tx_owner_ok_def k by auto
  ultimately show ?thesis by (simp add: tx_inv_def s'_def)
qed

text \<open>An alert that is no verdict.\<close>

lemma state_alert_inv:
  assumes "tx_inv s"
    and "ts_state s = TWAI_STATE_RUNNING \<and> st = TWAI_STATE_BUS_OFF \<and> a = TWAI_ALERT_BUS_OFF \<or>
         ts_state s = TWAI_STATE_RECOVERING \<and> st = TWAI_STATE_STOPPED \<and> a = TWAI_ALERT_BUS_RECOVERED"
  shows "tx_inv (s\<lparr>ts_state := st, ts_alerts := ts_alerts s @ [a]\<rparr>)"
proof -
  have I: "tx_logs_ok s" "tx_driver_ok s" "tx_events_ok s" "tx_owner_ok s" using assms(1) by (simp_all add: tx_inv_def)
  define s' where "s' = s\<lparr>ts_state := st, ts_alerts := ts_alerts s @ [a]\<rparr>"
  have k: "ts_task s' = ts_task s" "ts_done s' = ts_done s" "ts_ctrl s' = ts_ctrl s" "outstanding s' = outstanding s"
    "ts_kept s' = ts_kept s" "ts_wire s' = ts_wire s" "ts_copy s' = ts_copy s" "ts_state s' = st"
    "unread s' = unread s" "ts_alerts s' = ts_alerts s @ [a]"
    using assms(2) by (auto simp: s'_def outstanding_def unread_def)
  from assms(2) have "TWAI_ALERT_BUS_OFF \<notin> set (ts_alerts s)"
    by (elim disjE conjE) (use I(2) in \<open>simp_all add: tx_driver_ok_def\<close>)
  with assms(2) have "service_events s' = service_events s @ (if a = TWAI_ALERT_BUS_OFF then [CAN_TX_EVENT_ABORT] else [])"
    unfolding service_events_eq k by (elim disjE conjE) simp_all
  then have "verdicts s' = verdicts s @ (if a = TWAI_ALERT_BUS_OFF then [CAN_TX_EVENT_ABORT] else [])"
    by (simp add: verdicts_def k)
  then have v: "verdicts s \<noteq> [] \<longrightarrow> verdicts s' \<noteq> [] \<and> hd (verdicts s') = hd (verdicts s)" by simp
  have "tx_logs_ok s'" using I(1) by (simp add: tx_logs_ok_def s'_def)
  moreover from assms(2) have "tx_driver_ok s'"
    by (elim disjE conjE) (use I(2) in \<open>simp_all add: tx_driver_ok_def k\<close>)
  moreover have "st \<noteq> TWAI_STATE_RUNNING" "a \<noteq> TWAI_ALERT_TX_SUCCESS" using assms(2) by auto
  then have "tx_events_ok s'" using I(3) unfolding tx_events_ok_def k by auto
  moreover have "tx_owner_ok s'" using I(4) v unfolding tx_owner_ok_def k by auto
  ultimately show ?thesis by (simp add: tx_inv_def s'_def)
qed

text \<open>Moves of the control task.\<close>

lemma inv_parts:
  assumes "tx_inv s"
  shows "tx_logs_ok s" "tx_driver_ok s" "tx_events_ok s" "tx_owner_ok s"
  using assms by (simp_all add: tx_inv_def)

lemma ctrl_move_inv:
  assumes "tx_inv s" "posting (ts_ctrl s) = []" "posting k = []" "\<not> in_window k"
  shows "tx_inv (s\<lparr>ts_ctrl := k\<rparr>)"
proof -
  define s' where "s' = s\<lparr>ts_ctrl := k\<rparr>"
  have k: "ts_task s' = ts_task s" "ts_done s' = ts_done s" "ts_ctrl s' = k" "outstanding s' = outstanding s"
    "ts_kept s' = ts_kept s" "ts_wire s' = ts_wire s" "ts_copy s' = ts_copy s" "ts_state s' = ts_state s"
    "unread s' = unread s" "ts_alerts s' = ts_alerts s" "verdicts s' = verdicts s"
    using assms(2,3) by (simp_all add: s'_def outstanding_def unread_def verdicts_def service_events_def)
  note I = inv_parts [OF assms(1)]
  have "tx_logs_ok s'" using I(1) by (simp add: tx_logs_ok_def s'_def)
  moreover have "tx_driver_ok s'" using I(2) unfolding tx_driver_ok_def k .
  moreover have "tx_events_ok s'" using I(3) assms(2-4) unfolding tx_events_ok_def k by simp
  moreover have "tx_owner_ok s'" using I(4) assms(2,3) unfolding tx_owner_ok_def k by simp
  ultimately show ?thesis by (simp add: tx_inv_def s'_def)
qed

lemma driver_ok_quiet:
  "ts_alerts s = [] \<Longrightarrow> (ts_copy s \<noteq> None \<Longrightarrow> ts_state s = TWAI_STATE_RUNNING \<or> ts_state s = TWAI_STATE_BUS_OFF) \<Longrightarrow>
   tx_driver_ok s"
  by (simp add: tx_driver_ok_def)

lemma driver_ok_copy:
  assumes "tx_driver_ok s" "ts_state s' = ts_state s" "ts_alerts s' = ts_alerts s"
    and "ts_copy s' \<noteq> None \<Longrightarrow> ts_state s' = TWAI_STATE_RUNNING"
  shows "tx_driver_ok s'"
  using assms(1,4) unfolding tx_driver_ok_def assms(2,3) by blast

lemma service_inv:
  assumes "tx_inv s" "posting (ts_ctrl s) = []" "posting k = service_events s"
  shows "tx_inv ((service s)\<lparr>ts_ctrl := k\<rparr>)"
proof -
  define s' where "s' = (service s)\<lparr>ts_ctrl := k\<rparr>"
  define off where "off \<longleftrightarrow> TWAI_ALERT_BUS_OFF \<in> set (ts_alerts s)"
  note I = inv_parts [OF assms(1)]
  have k: "ts_task s' = ts_task s" "ts_done s' = ts_done s" "ts_ctrl s' = k" "ts_kept s' = ts_kept s"
    "ts_wire s' = ts_wire s" "ts_copy s' = (if off then None else ts_copy s)" "ts_alerts s' = []" "\<not> unread s'"
    "ts_state s' = (if off then TWAI_STATE_RECOVERING
       else if TWAI_ALERT_BUS_RECOVERED \<in> set (ts_alerts s) then TWAI_STATE_RUNNING else ts_state s)"
    by (simp_all add: s'_def service_def off_def unread_def)
  have ev: "service_events s = (if \<not> unread s then [] else if TWAI_ALERT_TX_FAILED \<in> set (ts_alerts s)
      then [CAN_TX_EVENT_FAIL] else [CAN_TX_EVENT_OK]) @ (if off then [CAN_TX_EVENT_ABORT] else [])"
    by (simp add: service_events_eq unread_def off_def)
  have un: "unread s \<Longrightarrow> outstanding s \<and> ts_done s = []" using I(3) by (simp add: tx_events_ok_def)
  have out: "outstanding s \<Longrightarrow> outstanding s'" by (simp add: outstanding_def k)
  have v: "verdicts s' = ts_done s @ service_events s" "verdicts s = ts_done s @ service_events s"
    using assms(2,3) by (simp_all add: verdicts_def k) (simp add: service_events_eq k)
  have "tx_logs_ok s'" using I(1) by (simp add: tx_logs_ok_def s'_def service_def)
  moreover have "tx_driver_ok s'"
  proof -
    have "ts_copy s = None" if "TWAI_ALERT_BUS_RECOVERED \<in> set (ts_alerts s)"
      using that I(2) by (cases "ts_copy s") (auto simp: tx_driver_ok_def)
    note recovered = this
    show ?thesis
    proof (rule driver_ok_quiet)
      assume "ts_copy s' \<noteq> None"
      then have c: "\<not> off" "ts_copy s \<noteq> None" unfolding k by (simp_all split: if_splits)
      have "TWAI_ALERT_BUS_RECOVERED \<notin> set (ts_alerts s)" using recovered c(2) by auto
      then have "ts_state s' = ts_state s" using c(1) unfolding k by simp
      then show "ts_state s' = TWAI_STATE_RUNNING \<or> ts_state s' = TWAI_STATE_BUS_OFF"
        using I(2) c(2) by (simp only: tx_driver_ok_def) blast
    qed (rule k)
  qed
  moreover have "tx_events_ok s'"
  proof -
    have "evs \<in> {[], [CAN_TX_EVENT_ABORT]} \<and> (e \<noteq> CAN_TX_EVENT_ABORT \<longrightarrow> outstanding s' \<and> ts_done s = []) \<and>
        (e = CAN_TX_EVENT_ABORT \<longrightarrow> evs = [])" if "service_events s = e # evs" for e evs
      using that un out unfolding ev by (auto split: if_splits)
    moreover have "CAN_TX_EVENT_ABORT \<in> set (service_events s) \<longrightarrow> off" unfolding ev by auto
    ultimately show ?thesis using k(8) unfolding tx_events_ok_def k(2,3,7,9) assms(3) by auto
  qed
  moreover have "tx_owner_ok s'"
  proof (cases "\<exists>f. tk_inflight (ts_task s) \<and> ts_copy s = Some f")
    case True
    then have o: "\<not> outstanding s" "ts_done s = []" "ts_wire s = butlast (ts_kept s)" "tk_have (ts_task s)"
      using I(1,4) by (auto simp: tx_owner_ok_def outstanding_def tx_logs_ok_def)
    then have "service_events s = (if off then [CAN_TX_EVENT_ABORT] else [])" using un ev by auto
    then show ?thesis using I(4) True o v(1) assms(3) unfolding tx_owner_ok_def k by (auto simp: outstanding_def k)
  next
    case False
    then have "outstanding s' = outstanding s" using I(4) by (cases "ts_copy s") (auto simp: outstanding_def k tx_owner_ok_def)
    then show ?thesis using I(4) False v unfolding tx_owner_ok_def k by auto
  qed
  ultimately show ?thesis by (simp add: tx_inv_def s'_def)
qed

lemma teardown_inv:
  assumes "tx_inv s" "ts_ctrl s = KHeld [] True"
    and "s' = s\<lparr>ts_state := st, ts_copy := None, ts_alerts := [], ts_ctrl := KTorn [CAN_TX_EVENT_ABORT]\<rparr>"
  shows "tx_inv s'"
proof -
  note I = inv_parts [OF assms(1)]
  have k: "ts_task s' = ts_task s" "ts_done s' = ts_done s" "ts_ctrl s' = KTorn [CAN_TX_EVENT_ABORT]"
    "ts_kept s' = ts_kept s" "ts_wire s' = ts_wire s" "ts_copy s' = None" "ts_alerts s' = []" "\<not> unread s'"
    by (simp_all add: assms(3) unread_def)
  have v: "verdicts s' = ts_done s @ [CAN_TX_EVENT_ABORT]" "verdicts s = ts_done s @ service_events s"
    by (simp_all add: verdicts_def k assms(2)) (simp add: service_events_eq k)
  have "TWAI_ALERT_TX_SUCCESS \<notin> set (ts_alerts s)" using I(3) assms(2) by (simp add: tx_events_ok_def)
  then have ne: "service_events s \<noteq> [] \<Longrightarrow> hd (service_events s) \<noteq> CAN_TX_EVENT_OK"
    by (auto simp: service_events_eq split: if_splits)
  have "tx_logs_ok s'" using I(1) by (simp add: tx_logs_ok_def assms(3))
  moreover have "tx_driver_ok s'" unfolding tx_driver_ok_def k by simp
  moreover have "tx_events_ok s'" using k(8) unfolding tx_events_ok_def k by simp
  moreover have "tx_owner_ok s'"
  proof (cases "\<exists>f. tk_inflight (ts_task s) \<and> ts_copy s = Some f")
    case True
    then show ?thesis using I(1,4) v(1) unfolding tx_owner_ok_def k by (auto simp: tx_logs_ok_def)
  next
    case False
    then have o: "outstanding s' = outstanding s"
      using I(4) by (cases "ts_copy s") (auto simp: outstanding_def k tx_owner_ok_def)
    show ?thesis using I(4) o v ne unfolding tx_owner_ok_def k by (cases "ts_done s") auto
  qed
  ultimately show ?thesis by (simp add: tx_inv_def)
qed

lemma refused_inv:
  assumes "tx_inv s" "ts_ctrl s = KHeld [] True" "ts_state s = TWAI_STATE_RECOVERING"
  shows "tx_inv (s\<lparr>ts_ctrl := KTorn [CAN_TX_EVENT_ABORT]\<rparr>)"
proof (rule teardown_inv [OF assms(1,2)])
  have "ts_copy s = None" "ts_alerts s = []" using inv_parts(2) [OF assms(1)] assms(3) by (auto simp: tx_driver_ok_def)
  then show "s\<lparr>ts_ctrl := KTorn [CAN_TX_EVENT_ABORT]\<rparr> =
      s\<lparr>ts_state := TWAI_STATE_RECOVERING, ts_copy := None, ts_alerts := [], ts_ctrl := KTorn [CAN_TX_EVENT_ABORT]\<rparr>"
    using assms(3) by (intro tx_sys.equality) simp_all
qed

lemma posting_shape:
  assumes "tx_events_ok s" "ts_done s \<noteq> [] \<or> \<not> outstanding s"
  shows "\<not> unread s" "posting (ts_ctrl s) = [] \<or> posting (ts_ctrl s) = [CAN_TX_EVENT_ABORT]"
proof -
  show "\<not> unread s" using assms by (auto simp: tx_events_ok_def)
  show "posting (ts_ctrl s) = [] \<or> posting (ts_ctrl s) = [CAN_TX_EVENT_ABORT]"
  proof (cases "posting (ts_ctrl s)")
    case (Cons ev evs)
    then have "ev = CAN_TX_EVENT_ABORT" "ev = CAN_TX_EVENT_ABORT \<longrightarrow> evs = []"
      using assms unfolding tx_events_ok_def by blast+
    then show ?thesis using Cons by simp
  qed simp
qed

text \<open>The pass of the task: waiting, and submitting a frame it already holds or has just popped.\<close>

lemma await_inv:
  assumes "tx_inv s" "tk_have (ts_task s)" "tk_inflight (ts_task s)"
  shows "tx_inv (task_pass e s)"
proof -
  note I = inv_parts [OF assms(1)]
  obtain t q where a: "can_tx_await (ts_task s) (ts_done s) = (t, q)" by fastforce
  have p: "task_pass e s = s\<lparr>ts_task := t, ts_done := q\<rparr>"
    using assms(2,3) a by (simp add: task_pass_def can_tx_pass_def can_tx_work_def)
  define s' where "s' = s\<lparr>ts_task := t, ts_done := q\<rparr>"
  have k: "ts_task s' = t" "ts_done s' = q" "ts_ctrl s' = ts_ctrl s" "ts_kept s' = ts_kept s" "unread s' = unread s"
    "ts_wire s' = ts_wire s" "ts_copy s' = ts_copy s" "ts_state s' = ts_state s" "ts_alerts s' = ts_alerts s"
    "service_events s' = service_events s"
    by (simp_all add: s'_def unread_def service_events_def)
  have "tx_inv s'"
  proof (cases "ts_done s")
    case Nil
    then have t: "tk_have t" "tk_inflight t" "tk_pending t = tk_pending (ts_task s)" "q = []"
      using a assms(2,3) by (auto simp: can_tx_await_def Let_def split: if_splits)
    then have o: "outstanding s' = outstanding s" "verdicts s' = verdicts s"
      using assms(3) Nil by (simp_all add: outstanding_def verdicts_def k)
    have "tx_logs_ok s'" using I(1) t assms(2) by (simp add: tx_logs_ok_def s'_def)
    moreover have "tx_driver_ok s'" using I(2) unfolding tx_driver_ok_def k .
    moreover have "tx_events_ok s'" using I(3) Nil t unfolding tx_events_ok_def k o by simp
    moreover have "tx_owner_ok s'" using I(4) assms(2,3) Nil t unfolding tx_owner_ok_def k o by simp
    ultimately show ?thesis by (simp add: tx_inv_def)
  next
    case (Cons ev q')
    have c: "ts_copy s = None"
      using I(4) assms(3) Cons by (cases "ts_copy s") (auto simp: tx_owner_ok_def)
    then have out: "outstanding s" using assms(3) by (simp add: outstanding_def)
    have t: "tk_have t = (ev \<noteq> CAN_TX_EVENT_OK)" "\<not> tk_inflight t" "tk_pending t = tk_pending (ts_task s)" "q = q'"
      using a assms(2) Cons by (auto simp: can_tx_await_def Let_def split: if_splits)
    have w: "ts_wire s = (if ev = CAN_TX_EVENT_OK then ts_kept s else butlast (ts_kept s))"
      using I(4) out Cons by (simp add: tx_owner_ok_def verdicts_def)
    have u: "\<not> unread s" "posting (ts_ctrl s) = [] \<or> posting (ts_ctrl s) = [CAN_TX_EVENT_ABORT]"
      using posting_shape [OF I(3)] Cons by simp_all
    have o: "\<not> outstanding s'" using t(2) by (simp add: outstanding_def k)
    have "tx_logs_ok s'" using I(1) t assms(2) by (simp add: tx_logs_ok_def s'_def)
    moreover have "tx_driver_ok s'" using I(2) unfolding tx_driver_ok_def k .
    moreover have "tx_events_ok s'" using I(3) u unfolding tx_events_ok_def k by auto
    moreover have "tx_owner_ok s'" using c t w o unfolding tx_owner_ok_def k by simp
    ultimately show ?thesis by (simp add: tx_inv_def)
  qed
  then show ?thesis by (simp add: p s'_def)
qed

text \<open>A task holding a frame that is not on the wire and not with the driver.\<close>

definition ready_to_submit :: "tx_sys \<Rightarrow> bool" where
  "ready_to_submit s \<longleftrightarrow> tk_have (ts_task s) \<and> \<not> tk_inflight (ts_task s)"

lemma submit_inv:
  assumes "tx_inv s" "ready_to_submit s" "ts_ctrl s = KFree evs" "e = ESP_OK \<Longrightarrow> ts_state s = TWAI_STATE_RUNNING"
  shows "tx_inv (task_pass e s)"
proof -
  note I = inv_parts [OF assms(1)]
  have h: "tk_have (ts_task s)" "\<not> tk_inflight (ts_task s)" using assms(2) by (simp_all add: ready_to_submit_def)
  define t c where "t = fst (can_tx_submit (offer e) (ts_task s) (ts_copy s))"
    and "c = snd (snd (can_tx_submit (offer e) (ts_task s) (ts_copy s)))"
  have a: "can_tx_submit (offer e) (ts_task s) (ts_copy s) = (t, [], c)"
    by (simp add: t_def c_def can_tx_submit_def offer_def)
  have cp: "ts_copy s = None" "ts_wire s = butlast (ts_kept s)" "ts_kept s \<noteq> []"
    using I(1,4) h by (auto simp: tx_owner_ok_def tx_logs_ok_def)
  define kept where "kept = (if e = ESP_ERR_NOT_SUPPORTED then butlast (ts_kept s) else ts_kept s)"
  have p: "task_pass e s = s\<lparr>ts_task := t, ts_done := [], ts_copy := c, ts_kept := kept\<rparr>"
    using h a by (simp add: task_pass_def can_tx_pass_def can_tx_work_def kept_def)
  have t: "tk_inflight t = (e = ESP_OK)" "tk_have t = (e \<noteq> ESP_ERR_NOT_SUPPORTED)" "tk_pending t = tk_pending (ts_task s)"
    "c = (if e = ESP_OK then Some (tk_pending (ts_task s)) else None)"
    unfolding t_def c_def can_tx_submit_def offer_def by (cases e; simp add: h cp(1))+
  define s' where "s' = s\<lparr>ts_task := t, ts_done := [], ts_copy := c, ts_kept := kept\<rparr>"
  have k: "ts_task s' = t" "ts_done s' = []" "ts_ctrl s' = ts_ctrl s" "ts_kept s' = kept" "unread s' = unread s"
    "ts_wire s' = ts_wire s" "ts_copy s' = c" "ts_state s' = ts_state s" "ts_alerts s' = ts_alerts s"
    by (simp_all add: s'_def unread_def)
  have no: "\<not> outstanding s" "\<not> outstanding s'" using h t by (simp_all add: outstanding_def k)
  have u: "\<not> unread s" "evs = [] \<or> evs = [CAN_TX_EVENT_ABORT]"
    using posting_shape [OF I(3)] no(1) assms(3) by simp_all
  have "CAN_TX_EVENT_ABORT \<in> set evs \<Longrightarrow> ts_state s \<noteq> TWAI_STATE_RUNNING"
    using I(3) assms(3) by (simp add: tx_events_ok_def)
  then have run: "e = ESP_OK \<Longrightarrow> evs = []" using assms(4) u(2) by auto
  have "subseq kept (ts_taken s)"
  proof -
    have "subseq (butlast (ts_kept s)) (ts_kept s)" by (rule prefix_imp_subseq) (rule prefixeq_butlast)
    then show ?thesis using I(1) subseq_order.trans unfolding kept_def tx_logs_ok_def by fastforce
  qed
  then have "tx_logs_ok s'" using I(1) t h by (auto simp: tx_logs_ok_def s'_def kept_def)
  moreover have "tx_driver_ok s'"
  proof (rule driver_ok_copy [OF I(2)])
    show "ts_copy s' \<noteq> None \<Longrightarrow> ts_state s' = TWAI_STATE_RUNNING"
      using assms(4) unfolding k t(4) by (simp split: if_splits)
  qed (simp_all only: k)
  moreover have "tx_events_ok s'" using I(3) u no assms(3) unfolding tx_events_ok_def k by auto
  moreover have "tx_owner_ok s'"
    using cp t no(2) run assms(3) unfolding tx_owner_ok_def k by (auto simp: kept_def)
  ultimately have "tx_inv s'" by (simp add: tx_inv_def)
  then show ?thesis by (simp add: p s'_def)
qed

text \<open>Popping first gives the pass that submits the popped frame.\<close>

definition popped :: "pcan_frame \<Rightarrow> pcan_frame list \<Rightarrow> tx_sys \<Rightarrow> tx_sys" where
  "popped f r s = s\<lparr>ts_task := (ts_task s)\<lparr>tk_pending := f, tk_have := True\<rparr>, ts_ring := r,
     ts_taken := ts_taken s @ [f], ts_kept := ts_kept s @ [f]\<rparr>"

lemma popped_inv:
  assumes "tx_inv s" "\<not> tk_have (ts_task s)" "ts_ring s = f # r"
  shows "tx_inv (popped f r s) \<and> ready_to_submit (popped f r s)"
proof -
  note I = inv_parts [OF assms(1)]
  have n: "\<not> tk_inflight (ts_task s)" using I(1) assms(2) by (auto simp: tx_logs_ok_def)
  define s' where "s' = popped f r s"
  have k: "ts_done s' = ts_done s" "ts_ctrl s' = ts_ctrl s" "ts_kept s' = ts_kept s @ [f]" "unread s' = unread s"
    "ts_wire s' = ts_wire s" "ts_copy s' = ts_copy s" "ts_state s' = ts_state s" "ts_alerts s' = ts_alerts s"
    "\<not> outstanding s'" "\<not> outstanding s" "tk_have (ts_task s')" "\<not> tk_inflight (ts_task s')" "tk_pending (ts_task s') = f"
    using n by (simp_all add: s'_def popped_def unread_def outstanding_def)
  have "tx_logs_ok s'" using I(1) assms(3) n by (simp add: tx_logs_ok_def s'_def popped_def)
  moreover have "tx_driver_ok s'" using I(2) unfolding tx_driver_ok_def k .
  moreover have "tx_events_ok s'" using I(3) k(9,10) unfolding tx_events_ok_def k(1,2,4,7,8) by simp
  moreover have "tx_owner_ok s'" using I(4) assms(2) n k(9,11,12) unfolding tx_owner_ok_def k(3,5,6) by simp
  ultimately show ?thesis using k(11,12) by (simp add: tx_inv_def s'_def ready_to_submit_def)
qed

lemma pass_popped:
  assumes "tx_inv s" "\<not> tk_have (ts_task s)" "ts_ring s = f # r"
  shows "task_pass e s = task_pass e (popped f r s)"
proof -
  have "\<not> tk_inflight (ts_task s)" using inv_parts(1) [OF assms(1)] assms(2) by (auto simp: tx_logs_ok_def)
  then show ?thesis
    using assms(2,3)
    by (simp add: task_pass_def can_tx_pass_def can_tx_work_def list_pop_def popped_def split_beta Let_def)
qed

lemma task_inv:
  assumes "tx_inv s" "ts_ctrl s = KFree evs" "e = ESP_OK \<Longrightarrow> ts_state s = TWAI_STATE_RUNNING"
  shows "tx_inv (task_pass e s)"
proof (cases "tk_have (ts_task s)")
  case True
  show ?thesis
  proof (cases "tk_inflight (ts_task s)")
    case True
    then show ?thesis by (rule await_inv [OF assms(1) \<open>tk_have (ts_task s)\<close>])
  next
    case False
    with \<open>tk_have (ts_task s)\<close> have "ready_to_submit s" by (simp add: ready_to_submit_def)
    then show ?thesis using submit_inv assms by blast
  qed
next
  case False
  show ?thesis
  proof (cases "ts_ring s")
    case Nil
    then have "task_pass e s = s" using False by (simp add: task_pass_def can_tx_pass_def list_pop_def)
    then show ?thesis using assms(1) by simp
  next
    case (Cons f r)
    note p = popped_inv [OF assms(1) False Cons]
    show ?thesis
      unfolding pass_popped [OF assms(1) False Cons]
    proof (rule submit_inv)
      show "ts_ctrl (popped f r s) = KFree evs" "e = ESP_OK \<Longrightarrow> ts_state (popped f r s) = TWAI_STATE_RUNNING"
        using assms(2,3) by (simp_all add: popped_def)
    qed (use p in simp_all)
  qed
qed

lemma tx_move_inv: "tx_move True s s' \<Longrightarrow> tx_inv s \<Longrightarrow> tx_inv s'"
proof (induction rule: tx_move.induct)
  case (host s f)
  then show ?case by (rule host_inv)
next
  case (task s evs e)
  then show ?case using task_inv by blast
next
  case (complete s f)
  show ?case by (rule verdict_inv [OF complete.prems complete.hyps(1,2)]) (use complete.hyps(3) in simp)
next
  case (fail s f)
  have "s\<lparr>ts_copy := None, ts_alerts := ts_alerts s @ [TWAI_ALERT_TX_FAILED]\<rparr> =
      s\<lparr>ts_copy := None, ts_wire := ts_wire s, ts_alerts := ts_alerts s @ [TWAI_ALERT_TX_FAILED]\<rparr>"
    by (rule tx_sys.equality) simp_all
  then show ?case using verdict_inv [OF fail.prems fail.hyps, of TWAI_ALERT_TX_FAILED "ts_wire s"] by simp
next
  case (bus_off s)
  show ?case by (rule state_alert_inv [OF bus_off.prems]) (simp add: bus_off.hyps)
next
  case (recovered s)
  show ?case by (rule state_alert_inv [OF recovered.prems]) (simp add: recovered.hyps)
next
  case (service s)
  show ?case by (rule service_inv [OF service.prems]) (simp_all add: service.hyps)
next
  case (post s ev evs)
  show ?case by (rule post_inv [OF post.prems]) (simp_all add: post.hyps)
next
  case (hold s)
  show ?case by (rule ctrl_move_inv [OF hold.prems]) (simp_all add: hold.hyps)
next
  case (held_service s)
  show ?case by (rule service_inv [OF held_service.prems]) (simp_all add: held_service.hyps)
next
  case (held_post s ev evs b)
  show ?case by (rule post_inv [OF held_post.prems]) (simp_all add: held_post.hyps)
next
  case (teardown s st)
  show ?case by (rule teardown_inv [OF teardown.prems teardown.hyps(1) refl])
next
  case (teardown_refused s)
  show ?case by (rule refused_inv [OF teardown_refused.prems teardown_refused.hyps])
next
  case (torn_post s ev evs)
  show ?case by (rule post_inv [OF torn_post.prems]) (simp_all add: torn_post.hyps)
next
  case (release s)
  show ?case by (rule ctrl_move_inv [OF release.prems]) (simp_all add: release.hyps)
qed

lemma tx_reachable_inv: "(tx_move True)\<^sup>*\<^sup>* tx_sys_start s \<Longrightarrow> tx_inv s"
  by (induction rule: rtranclp_induct) (use tx_start_inv tx_move_inv in auto)

subsection \<open>Once each and in order\<close>

text \<open>The wire against what was kept, and against what was handed over.\<close>

lemma pending_last: "tx_inv s \<Longrightarrow> tk_have (ts_task s) \<Longrightarrow> butlast (ts_kept s) @ [tk_pending (ts_task s)] = ts_kept s"
  using append_butlast_last_id [of "ts_kept s"] by (simp add: tx_inv_def tx_logs_ok_def)

lemma wire_kept:
  assumes "tx_inv s"
  shows "ts_wire s = ts_kept s \<or> tk_have (ts_task s) \<and> ts_wire s @ [tk_pending (ts_task s)] = ts_kept s"
proof (cases "tk_have (ts_task s)")
  case True
  have "ts_wire s = butlast (ts_kept s) \<or> ts_wire s = ts_kept s"
  proof (cases "outstanding s")
    case True
    then show ?thesis using inv_parts(4) [OF assms] by (auto simp: tx_owner_ok_def split: if_splits)
  next
    case False
    then show ?thesis using inv_parts(4) [OF assms] True by (auto simp: tx_owner_ok_def outstanding_def)
  qed
  then show ?thesis using pending_last [OF assms True] True by auto
next
  case False
  then show ?thesis using inv_parts(4) [OF assms] by (simp add: tx_owner_ok_def)
qed

lemma wire_subseq:
  assumes "tx_inv s"
  shows "subseq (ts_wire s) (ts_input s)"
proof -
  have "ts_input s = ts_taken s @ ts_ring s" "subseq (ts_kept s) (ts_taken s)"
    using inv_parts(1) [OF assms] by (simp_all add: tx_logs_ok_def)
  moreover have "subseq (ts_wire s) (ts_kept s)"
    using wire_kept [OF assms] by (metis prefixI prefix_imp_subseq subseq_order.refl)
  ultimately show ?thesis by (metis list_emb_prefix subseq_order.trans)
qed


definition one_sent :: tx_sys where
  "one_sent =
     (let s = tx_sys_start;
          s = s\<lparr>ts_ring := ts_ring s @ [zero_frame], ts_input := ts_input s @ [zero_frame]\<rparr>;
          s = task_pass ESP_OK s
      in s\<lparr>ts_copy := None, ts_wire := ts_wire s @ [zero_frame], ts_alerts := ts_alerts s @ [TWAI_ALERT_TX_SUCCESS]\<rparr>)"

lemmas tx_compute = tx_sys_start_def tx_task_start_def task_pass_def can_tx_pass_def list_pop_def can_tx_work_def
  can_tx_submit_def can_tx_await_def offer_def Let_def

lemma one_sent_fields:
  "ts_wire one_sent = [zero_frame]" "ts_input one_sent = [zero_frame]" "ts_taken one_sent = [zero_frame]"
  "ts_ring one_sent = []" "ts_kept one_sent = [zero_frame]" "ts_copy one_sent = None" "ts_done one_sent = []"
  "ts_ctrl one_sent = KFree []" "ts_state one_sent = TWAI_STATE_RUNNING"
  "ts_alerts one_sent = [TWAI_ALERT_TX_SUCCESS]"
  "tk_have (ts_task one_sent)" "tk_inflight (ts_task one_sent)" "tk_pending (ts_task one_sent) = zero_frame"
  by (simp_all add: one_sent_def tx_compute)

lemma move_step2: "R a b \<Longrightarrow> R b c \<Longrightarrow> R\<^sup>*\<^sup>* a c"
  by (rule converse_rtranclp_into_rtranclp, assumption, rule r_into_rtranclp)

lemma move_step3: "R a b \<Longrightarrow> R b c \<Longrightarrow> R c d \<Longrightarrow> R\<^sup>*\<^sup>* a d"
  by (rule converse_rtranclp_into_rtranclp, assumption, rule move_step2)

lemma move_step4: "R a b \<Longrightarrow> R b c \<Longrightarrow> R c d \<Longrightarrow> R d e \<Longrightarrow> R\<^sup>*\<^sup>* a e"
  by (rule converse_rtranclp_into_rtranclp, assumption, rule move_step3)

text \<open>A frame handed over, submitted and transmitted.\<close>

lemma one_sent_reachable: "(tx_move b)\<^sup>*\<^sup>* tx_sys_start one_sent"
proof -
  let ?a = "tx_sys_start\<lparr>ts_ring := ts_ring tx_sys_start @ [zero_frame], ts_input := ts_input tx_sys_start @ [zero_frame]\<rparr>"
  have 1: "tx_move b tx_sys_start ?a" by (rule tx_move.host)
  have 2: "tx_move b ?a (task_pass ESP_OK ?a)" by (rule tx_move.task) (simp_all add: tx_sys_start_def)
  have 3: "tx_move b (task_pass ESP_OK ?a) one_sent"
    unfolding one_sent_def Let_def by (rule tx_move.complete) (simp_all add: tx_compute)
  show ?thesis by (rule move_step3 [where R = "tx_move b", OF 1 2 3])
qed


subsection \<open>The window\<close>

text \<open>Reconfiguring with a frame just completed: the alerts are serviced before the transmission
  succeeds, the teardown erases the success, and the abort event sends the frame a second time.\<close>

definition dup_handed :: tx_sys where
  "dup_handed = tx_sys_start\<lparr>ts_ring := ts_ring tx_sys_start @ [zero_frame], ts_input := ts_input tx_sys_start @ [zero_frame]\<rparr>"

definition dup_serviced :: tx_sys where
  "dup_serviced = (let s = (task_pass ESP_OK dup_handed)\<lparr>ts_ctrl := KHeld [] False\<rparr>
                   in (service s)\<lparr>ts_ctrl := KHeld (service_events s) True\<rparr>)"

definition dup_torn :: tx_sys where
  "dup_torn = (let s = dup_serviced\<lparr>ts_copy := None, ts_wire := ts_wire dup_serviced @ [zero_frame],
                     ts_alerts := ts_alerts dup_serviced @ [TWAI_ALERT_TX_SUCCESS]\<rparr>
               in s\<lparr>ts_state := TWAI_STATE_RUNNING, ts_copy := None, ts_alerts := [], ts_ctrl := KTorn [CAN_TX_EVENT_ABORT]\<rparr>)"

definition dup_free :: tx_sys where
  "dup_free = (let s = dup_torn\<lparr>ts_done := queue_send (ts_done dup_torn) CAN_TX_EVENT_ABORT, ts_ctrl := KTorn []\<rparr>
               in s\<lparr>ts_ctrl := KFree []\<rparr>)"

definition dup_again :: tx_sys where
  "dup_again = task_pass ESP_OK (task_pass ESP_OK dup_free)"

definition sent_twice :: tx_sys where
  "sent_twice = dup_again\<lparr>ts_copy := None, ts_wire := ts_wire dup_again @ [zero_frame],
     ts_alerts := ts_alerts dup_again @ [TWAI_ALERT_TX_SUCCESS]\<rparr>"

lemmas dup_defs = dup_handed_def dup_serviced_def dup_torn_def dup_free_def dup_again_def tx_compute service_def
  service_events_eq queue_send_def

lemma dup_serviced_fields:
  "ts_state dup_serviced = TWAI_STATE_RUNNING" "ts_copy dup_serviced = Some zero_frame"
  "ts_ctrl dup_serviced = KHeld [] True"
  by (simp_all add: dup_defs)

lemma dup_serviced_reachable: "(tx_move b)\<^sup>*\<^sup>* tx_sys_start dup_serviced"
proof -
  have 1: "tx_move b tx_sys_start dup_handed" unfolding dup_handed_def by (rule tx_move.host)
  have 2: "tx_move b dup_handed (task_pass ESP_OK dup_handed)" by (rule tx_move.task) (simp_all add: dup_defs)
  have 3: "tx_move b (task_pass ESP_OK dup_handed) ((task_pass ESP_OK dup_handed)\<lparr>ts_ctrl := KHeld [] False\<rparr>)"
    by (rule tx_move.hold) (simp add: dup_defs)
  have 4: "tx_move b ((task_pass ESP_OK dup_handed)\<lparr>ts_ctrl := KHeld [] False\<rparr>) dup_serviced"
    unfolding dup_serviced_def Let_def by (rule tx_move.held_service) simp
  show ?thesis by (rule move_step4 [where R = "tx_move b", OF 1 2 3 4])
qed

lemma dup_torn_reachable: "(tx_move False)\<^sup>*\<^sup>* dup_serviced dup_torn"
proof -
  let ?c = "dup_serviced\<lparr>ts_copy := None, ts_wire := ts_wire dup_serviced @ [zero_frame],
     ts_alerts := ts_alerts dup_serviced @ [TWAI_ALERT_TX_SUCCESS]\<rparr>"
  have "tx_move False dup_serviced ?c" by (rule tx_move.complete) (simp_all add: dup_serviced_fields)
  moreover have "tx_move False ?c dup_torn"
    unfolding dup_torn_def Let_def by (rule tx_move.teardown) (simp_all add: dup_serviced_fields)
  ultimately show ?thesis by (rule move_step2)
qed

lemma dup_torn_fields:
  "ts_ctrl dup_torn = KTorn [CAN_TX_EVENT_ABORT]" "ts_state dup_torn = TWAI_STATE_RUNNING"
  by (simp_all add: dup_torn_def Let_def)

lemma dup_free_reachable: "(tx_move False)\<^sup>*\<^sup>* dup_torn dup_free"
proof -
  let ?p = "dup_torn\<lparr>ts_done := queue_send (ts_done dup_torn) CAN_TX_EVENT_ABORT, ts_ctrl := KTorn []\<rparr>"
  have "tx_move False dup_torn ?p" by (rule tx_move.torn_post) (simp add: dup_torn_fields)
  moreover have "tx_move False ?p dup_free" unfolding dup_free_def Let_def by (rule tx_move.release) simp
  ultimately show ?thesis by (rule move_step2)
qed

lemma sent_twice_reachable: "(tx_move False)\<^sup>*\<^sup>* dup_free sent_twice"
proof -
  have "tx_move False dup_free (task_pass ESP_OK dup_free)" by (rule tx_move.task) (simp_all add: dup_defs)
  moreover have "tx_move False (task_pass ESP_OK dup_free) dup_again"
    unfolding dup_again_def by (rule tx_move.task) (simp_all add: dup_defs)
  moreover have "tx_move False dup_again sent_twice"
    unfolding sent_twice_def by (rule tx_move.complete) (simp_all add: dup_defs)
  ultimately show ?thesis by (rule move_step3)
qed


end
