(* ===== verification/Usb_Session.thy ===== *)
theory Usb_Session
  imports Usb_Glue
begin

text \<open>
  The USB glue at work: the sender (\<open>usb_tx_task\<close>), the TinyUSB task with its callbacks and deferred
  functions, and the host take turns. \<open>usb_move\<close> composes the operations of \<open>Usb_Glue\<close> with a device
  stack that satisfies \<open>usbd_documented\<close>; what the stack does on its own (completions, resets) is seen
  through three observations of its state.
\<close>

subsection \<open>The device stack\<close>

text \<open>The transfer the controller holds on EP2 IN, the OUT endpoints that are armed, and the deferred
  calls that wait for the TinyUSB task.\<close>

record 'u usb_view =
  v_in :: "'u \<Rightarrow> u8 list option"
  v_armed :: "'u \<Rightarrow> u8 \<Rightarrow> bool"
  v_deferred :: "'u \<Rightarrow> glue_call list"

definition usb_is :: "'u usb_view \<Rightarrow> 'u \<Rightarrow> u8 list option \<Rightarrow> (u8 \<Rightarrow> bool) \<Rightarrow> glue_call list \<Rightarrow> bool" where
  "usb_is v u i a d \<longleftrightarrow> v_in v u = i \<and> v_armed v u = a \<and> v_deferred v u = d"

text \<open>The documented behaviour: a transfer that is accepted is pending on its endpoint; nothing else is
  started by a call; a deferred call is queued, or dropped without notice when the queue is full.\<close>

definition usbd_documented :: "'u usbd \<Rightarrow> 'u usb_view \<Rightarrow> bool" where
  "usbd_documented usb v \<longleftrightarrow>
     (\<forall>ep bs u. usb_is v (snd (edpt_xfer usb ep bs u))
        (if fst (edpt_xfer usb ep bs u) \<and> ep = PCAN_USB_EP_MSGIN then Some bs else v_in v u)
        (if fst (edpt_xfer usb ep bs u) then (v_armed v u)(ep := True) else v_armed v u) (v_deferred v u)) \<and>
     (\<forall>ep u. usb_is v (snd (edpt_claim usb ep u)) (v_in v u) (v_armed v u) (v_deferred v u)) \<and>
     (\<forall>ep u. usb_is v (edpt_release usb ep u) (v_in v u) (v_armed v u) (v_deferred v u)) \<and>
     (\<forall>d u. usb_is v (snd (edpt_open usb d u)) (v_in v u) (v_armed v u) (v_deferred v u)) \<and>
     (\<forall>c u. v_in v (defer_func usb c u) = v_in v u \<and> v_armed v (defer_func usb c u) = v_armed v u \<and>
        (v_deferred v (defer_func usb c u) = v_deferred v u \<or>
         v_deferred v (defer_func usb c u) = v_deferred v u @ [c]))"

lemma usbd_laws:
  assumes "usbd_documented usb v"
  shows "v_in v (snd (edpt_xfer usb ep bs u)) =
      (if fst (edpt_xfer usb ep bs u) \<and> ep = 0x82 then Some bs else v_in v u)"
    "v_armed v (snd (edpt_xfer usb ep bs u)) = (if fst (edpt_xfer usb ep bs u) then (v_armed v u)(ep := True) else v_armed v u)"
    "v_deferred v (snd (edpt_xfer usb ep bs u)) = v_deferred v u"
    "v_in v (snd (edpt_claim usb ep u)) = v_in v u" "v_armed v (snd (edpt_claim usb ep u)) = v_armed v u"
    "v_deferred v (snd (edpt_claim usb ep u)) = v_deferred v u"
    "v_in v (edpt_release usb ep u) = v_in v u" "v_armed v (edpt_release usb ep u) = v_armed v u"
    "v_deferred v (edpt_release usb ep u) = v_deferred v u"
    "v_in v (snd (edpt_open usb d u)) = v_in v u" "v_armed v (snd (edpt_open usb d u)) = v_armed v u"
    "v_deferred v (snd (edpt_open usb d u)) = v_deferred v u"
    "v_in v (defer_func usb c u) = v_in v u" "v_armed v (defer_func usb c u) = v_armed v u"
  using assms by (simp_all add: usbd_documented_def usb_is_def split del: if_split)

lemma deferred_by:
  assumes "usbd_documented usb v"
  shows "set (v_deferred v (defer_func usb c u)) \<subseteq> insert c (set (v_deferred v u))"
proof -
  have "v_deferred v (defer_func usb c u) = v_deferred v u \<or> v_deferred v (defer_func usb c u) = v_deferred v u @ [c]"
    using assms unfolding usbd_documented_def by blast
  then show ?thesis by auto
qed

subsection \<open>The moves\<close>

text \<open>The ghosts: the batch the sender presents, the batches it was told are done, those that reached
  the host; the frames decoded and the frames pushed in this session.\<close>

record 'u usb_sys =
  uy_glue :: glue
  uy_usb :: 'u
  uy_ring :: "pcan_frame list"
  uy_batch :: "u8 list option"
  uy_released :: "u8 list list"
  uy_wire :: "u8 list list"
  uy_decoded :: "pcan_frame list"
  uy_pushed :: "pcan_frame list"

definition list_push :: "nat \<Rightarrow> pcan_frame \<Rightarrow> pcan_frame list \<Rightarrow> bool \<times> pcan_frame list" where
  "list_push cap f r = (if length r < cap then (True, r @ [f]) else (False, r))"

definition present :: "'u usbd \<Rightarrow> u8 list \<Rightarrow> 'u usb_sys \<Rightarrow> 'u usb_sys" where
  "present usb b s =
     (let (n, g, u) = usb_glue_send_msg_batch usb b (uy_glue s) (uy_usb s)
      in s\<lparr>uy_glue := g, uy_usb := u, uy_batch := if n = length b then None else Some b,
           uy_released := if n = length b then uy_released s @ [b] else uy_released s\<rparr>)"

text \<open>Running a deferred call; \<open>cap\<close> is the room the ring offers at that moment.\<close>

fun run_call :: "'u usbd \<Rightarrow> nat \<Rightarrow> glue_call \<Rightarrow> 'u usb_sys \<Rightarrow> 'u usb_sys" where
  "run_call usb cap (MsgOutDeferred gen) s =
     (let (g, r, u) = usb_glue_msg_out_deferred (list_push cap) usb gen (uy_glue s) (uy_ring s) (uy_usb s)
      in s\<lparr>uy_glue := g, uy_usb := u, uy_ring := r, uy_pushed := uy_pushed s @ drop (length (uy_ring s)) r\<rparr>)"
| "run_call usb cap (CmdOutDeferred gen) s =
     (let (g, u) = usb_glue_cmd_out_deferred usb gen (uy_glue s) (uy_usb s) in s\<lparr>uy_glue := g, uy_usb := u\<rparr>)"
| "run_call usb cap (MsgInDeferred gen) s =
     (let (g, u) = usb_glue_msg_in_deferred usb gen (uy_glue s) (uy_usb s) in s\<lparr>uy_glue := g, uy_usb := u\<rparr>)"

definition decoded_frames :: "bool \<Rightarrow> u32 \<Rightarrow> u8 list \<Rightarrow> pcan_frame list" where
  "decoded_frames success n buf =
     (if success \<and> n > 0
      then case pcan_msg_decode_tx buf (unat (ucast n :: u16)) 32 of None \<Rightarrow> [] | Some fs \<Rightarrow> fs else [])"

text \<open>\<open>api\<close> and \<open>st\<close> belong to the command handler. A connection is opened with the interface
  descriptor \<open>d\<close>; it is closed by a bus reset, which also removes every transfer.\<close>

inductive usb_move :: "'s sem_api \<Rightarrow> 'u usbd \<Rightarrow> 'u usb_view \<Rightarrow> 'u usb_sys \<Rightarrow> 'u usb_sys \<Rightarrow> bool"
  for api usb v where
  fill: "uy_batch s = None \<Longrightarrow> b \<noteq> [] \<Longrightarrow> length b \<le> 64 \<Longrightarrow> usb_move api usb v s (s\<lparr>uy_batch := Some b\<rparr>)"
| send: "uy_batch s = Some b \<Longrightarrow> usb_move api usb v s (present usb b s)"
| service: "usb_move api usb v s (s\<lparr>uy_usb := usb_glue_service usb (uy_glue s) (uy_usb s)\<rparr>)"
| deferred: "v_deferred v (uy_usb s) = c # cs \<Longrightarrow>
    usb_is v u (v_in v (uy_usb s)) (v_armed v (uy_usb s)) cs \<Longrightarrow>
    usb_move api usb v s (run_call usb cap c (s\<lparr>uy_usb := u\<rparr>))"
| in_done: "v_in v (uy_usb s) = Some bs \<Longrightarrow>
    usb_is v u None (v_armed v (uy_usb s)) (v_deferred v (uy_usb s)) \<Longrightarrow>
    usb_move api usb v s (s\<lparr>uy_glue := msg_in_complete ok (uy_glue s), uy_usb := u,
      uy_wire := if ok then uy_wire s @ [bs] else uy_wire s\<rparr>)"
| msg_out: "v_armed v (uy_usb s) PCAN_USB_EP_MSGOUT \<Longrightarrow>
    usb_is v u (v_in v (uy_usb s)) ((v_armed v (uy_usb s))(PCAN_USB_EP_MSGOUT := False)) (v_deferred v (uy_usb s)) \<Longrightarrow>
    usb_move api usb v s (s\<lparr>uy_glue := msg_out_complete ok n buf (uy_glue s), uy_usb := u,
      uy_decoded := uy_decoded s @ decoded_frames ok n buf\<rparr>)"
| cmd_out: "v_armed v (uy_usb s) PCAN_USB_EP_CMDOUT \<Longrightarrow>
    usb_is v u (v_in v (uy_usb s)) ((v_armed v (uy_usb s))(PCAN_USB_EP_CMDOUT := False)) (v_deferred v (uy_usb s)) \<Longrightarrow>
    cmd_out_complete api usb ok n buf st (uy_glue s) u = (st', g', u') \<Longrightarrow>
    usb_move api usb v s (s\<lparr>uy_glue := g', uy_usb := u'\<rparr>)"
| consume: "usb_move api usb v s (s\<lparr>uy_ring := tl (uy_ring s)\<rparr>)"
| reset: "usb_is v u None (\<lambda>_. False) (v_deferred v (uy_usb s)) \<Longrightarrow>
    usb_move api usb v s (s\<lparr>uy_glue := pcan_drv_reset (uy_glue s), uy_usb := u, uy_decoded := [], uy_pushed := []\<rparr>)"
| connect: "\<not> gl_itf_open (uy_glue s) \<Longrightarrow>
    pcan_drv_open usb rhport d max_len (uy_glue s) (uy_usb s) = (n, g', u') \<Longrightarrow>
    usb_move api usb v s (s\<lparr>uy_glue := g', uy_usb := u', uy_decoded := [], uy_pushed := []\<rparr>)"

definition usb_sys_start :: "'u \<Rightarrow> 'u usb_sys" where
  "usb_sys_start u = \<lparr>uy_glue = usb_glue_bind (pcan_drv_init glue_zero), uy_usb = u, uy_ring = [], uy_batch = None,
     uy_released = [], uy_wire = [], uy_decoded = [], uy_pushed = []\<rparr>"

subsection \<open>The batch state machine\<close>

text \<open>What the state says about the batch, the controller and the wire.\<close>

definition in_inv ::
    "msg_in_state \<Rightarrow> nat \<Rightarrow> u8 list \<Rightarrow> u8 list option \<Rightarrow> u8 list option \<Rightarrow> u8 list list \<Rightarrow> u8 list list \<Rightarrow> bool" where
  "in_inv st len buf i batch released wire \<longleftrightarrow>
     length buf = 64 \<and> (\<forall>b. batch = Some b \<longrightarrow> b \<noteq> [] \<and> length b \<le> 64) \<and>
     (if st = MSG_IN_IDLE then i = None \<and> wire = released
      else st \<noteq> MSG_IN_DROPPED \<and>
        (\<exists>b. batch = Some b \<and> len = length b \<and> take (length b) buf = b \<and>
           i = (if st = MSG_IN_SUBMITTED then Some b else None) \<and>
           wire = (if st = MSG_IN_COMPLETE then released @ [b] else released)))"

definition in_ok :: "'u usb_view \<Rightarrow> 'u usb_sys \<Rightarrow> bool" where
  "in_ok v s \<longleftrightarrow> in_inv (gl_in_state (uy_glue s)) (gl_in_len (uy_glue s)) (gl_msg_in (uy_glue s)) (v_in v (uy_usb s))
     (uy_batch s) (uy_released s) (uy_wire s)"

text \<open>Two glue states with the same batch.\<close>

definition same_in :: "glue \<Rightarrow> glue \<Rightarrow> bool" where
  "same_in g h \<longleftrightarrow> gl_in_state g = gl_in_state h \<and> gl_in_len g = gl_in_len h \<and> gl_msg_in g = gl_msg_in h"

lemma in_ok_same:
  "in_ok v s \<Longrightarrow> same_in (uy_glue t) (uy_glue s) \<Longrightarrow> v_in v (uy_usb t) = v_in v (uy_usb s) \<Longrightarrow>
   uy_batch t = uy_batch s \<Longrightarrow> uy_released t = uy_released s \<Longrightarrow> uy_wire t = uy_wire s \<Longrightarrow> in_ok v t"
  by (simp add: in_ok_def same_in_def)

lemma present_in_ok:
  assumes "usbd_documented usb v" "in_ok v s" "uy_batch s = Some b"
  shows "in_ok v (present usb b s)"
proof -
  have b: "b \<noteq> []" "length b \<le> 64" using assms(2,3) by (simp_all add: in_ok_def in_inv_def)
  show ?thesis
    using assms(2,3) b
    by (cases "gl_in_state (uy_glue s)")
      (auto simp: in_ok_def in_inv_def present_def usb_glue_send_msg_batch_def usbd_laws [OF assms(1)] Let_def)
qed

lemma msg_in_call_ok:
  assumes "usbd_documented usb v" "in_ok v s"
  shows "in_ok v (run_call usb cap (MsgInDeferred gen) s)"
  using assms(2)
  by (cases "gl_in_state (uy_glue s)")
    (auto simp: in_ok_def in_inv_def usb_glue_msg_in_deferred_def usbd_laws [OF assms(1)] split_beta Let_def)

lemma msg_in_complete_ok:
  assumes "in_ok v s" "v_in v (uy_usb s) = Some bs" "v_in v u = None"
  shows "in_ok v (s\<lparr>uy_glue := msg_in_complete ok (uy_glue s), uy_usb := u,
    uy_wire := if ok then uy_wire s @ [bs] else uy_wire s\<rparr>)"
  using assms
  by (cases "gl_in_state (uy_glue s)") (auto simp: in_ok_def in_inv_def msg_in_complete_def)

lemma reset_in_ok:
  assumes "in_ok v s" "v_in v u = None"
  shows "in_ok v (s\<lparr>uy_glue := pcan_drv_reset (uy_glue s), uy_usb := u, uy_decoded := [], uy_pushed := []\<rparr>)"
  using assms
  by (cases "gl_in_state (uy_glue s)")
    (auto simp: in_ok_def in_inv_def pcan_drv_reset_def drop_session_def count_reset_drops_def in_busy_def Let_def)

subsection \<open>What leaves the batch alone\<close>

lemma cmd_reply_keeps:
  assumes "usbd_documented usb v" "usb_glue_send_cmd_reply usb r g u = (n, g', u')"
  shows "\<exists>c. g' = g\<lparr>gl_cmd_in := c\<rparr>" "v_in v u' = v_in v u"
    "v_armed v u' 1 = v_armed v u 1" "v_armed v u' 2 = v_armed v u 2" "v_deferred v u' = v_deferred v u"
  using assms(2)
  by (auto simp: usb_glue_send_cmd_reply_def usbd_laws [OF assms(1)] Let_def split_beta intro: exI [of _ "gl_cmd_in g"]
      split: if_splits)

lemma cmd_loop_keeps:
  assumes "usbd_documented usb v" "cmd_loop api usb buf st g u = (st', g', u')"
  shows "(\<exists>c. g' = g\<lparr>gl_cmd_in := c\<rparr>) \<and> v_in v u' = v_in v u \<and>
    v_armed v u' 1 = v_armed v u 1 \<and> v_armed v u' 2 = v_armed v u 2 \<and> v_deferred v u' = v_deferred v u"
  using assms(2)
proof (induction buf arbitrary: st g u rule: measure_induct_rule [of length])
  case (less buf)
  show ?case
  proof (cases "length buf < PCAN_USB_CMD_LEN")
    case True
    then show ?thesis using less.prems by (auto simp: cmd_loop.simps [of api usb buf] intro: exI [of _ "gl_cmd_in g"])
  next
    case False
    obtain k reply st1 where h: "pcan_cmd_handle api st (take PCAN_USB_CMD_LEN buf) = (k, reply, st1)"
      by (cases "pcan_cmd_handle api st (take PCAN_USB_CMD_LEN buf)") auto
    define gu where "gu = (case reply of None \<Rightarrow> (g, u) | Some r \<Rightarrow> snd (usb_glue_send_cmd_reply usb r g u))"
    have 1: "(\<exists>c. fst gu = g\<lparr>gl_cmd_in := c\<rparr>) \<and> v_in v (snd gu) = v_in v u \<and>
      v_armed v (snd gu) 1 = v_armed v u 1 \<and> v_armed v (snd gu) 2 = v_armed v u 2 \<and> v_deferred v (snd gu) = v_deferred v u"
    proof (cases reply)
      case None
      then show ?thesis by (auto simp: gu_def intro: exI [of _ "gl_cmd_in g"])
    next
      case (Some r)
      obtain n g1 u1 where r: "usb_glue_send_cmd_reply usb r g u = (n, g1, u1)"
        by (cases "usb_glue_send_cmd_reply usb r g u") auto
      show ?thesis using cmd_reply_keeps [OF assms(1) r] by (simp add: gu_def Some r)
    qed
    have "cmd_loop api usb (drop PCAN_USB_CMD_LEN buf) st1 (fst gu) (snd gu) = (st', g', u')"
      using less.prems False h by (simp add: cmd_loop.simps [of api usb buf] gu_def split_beta)
    from less.IH [OF _ this] False have 2: "(\<exists>c. g' = (fst gu)\<lparr>gl_cmd_in := c\<rparr>) \<and> v_in v u' = v_in v (snd gu) \<and>
      v_armed v u' 1 = v_armed v (snd gu) 1 \<and> v_armed v u' 2 = v_armed v (snd gu) 2 \<and> v_deferred v u' = v_deferred v (snd gu)"
      by simp
    then show ?thesis using 1 by auto
  qed
qed

lemma cmd_complete_keeps:
  assumes "usbd_documented usb v" "cmd_out_complete api usb ok n buf st g u = (st', g', u')"
  obtains x c where "same_in g' g" "v_in v u' = v_in v u" "v_deferred v u' = v_deferred v u"
    "v_armed v u' 2 = v_armed v u 2"
    "v_armed v u' 1 = (if x then True else v_armed v u 1)"
    "g' = (if x then g\<lparr>gl_cmd_in := c\<rparr> else g\<lparr>gl_cmd_in := c, gl_cmd_out_needs_rearm := True,
       gl_stats := (gl_stats g)\<lparr>us_cmd_out_rearm_failures := us_cmd_out_rearm_failures (gl_stats g) + 1\<rparr>\<rparr>)"
proof -
  define r where "r = (if ok \<and> n > 0 then usb_glue_handle_cmd api usb (take (unat (ucast n :: u16)) buf) st g u else (st, g, u))"
  obtain st1 g1 u1 where r1: "r = (st1, g1, u1)" by (cases r) auto
  have 1: "(\<exists>c. g1 = g\<lparr>gl_cmd_in := c\<rparr>) \<and> v_in v u1 = v_in v u \<and>
    v_armed v u1 1 = v_armed v u 1 \<and> v_armed v u1 2 = v_armed v u 2 \<and> v_deferred v u1 = v_deferred v u"
    using cmd_loop_keeps [OF assms(1), of api "take (unat (ucast n :: u16)) buf" st g u st1 g1 u1] r1
    by (auto simp: r_def usb_glue_handle_cmd_def intro: exI [of _ "gl_cmd_in g"] split: if_splits)
  then obtain c where c: "g1 = g\<lparr>gl_cmd_in := c\<rparr>" by blast
  let ?x = "fst (edpt_xfer usb PCAN_USB_EP_CMDOUT [] u1)"
  have e: "u' = snd (edpt_xfer usb PCAN_USB_EP_CMDOUT [] u1)"
    "g' = (if ?x then g1 else g1\<lparr>gl_cmd_out_needs_rearm := True,
       gl_stats := (gl_stats g1)\<lparr>us_cmd_out_rearm_failures := us_cmd_out_rearm_failures (gl_stats g1) + 1\<rparr>\<rparr>)"
    using assms(2) unfolding cmd_out_complete_def r_def [symmetric] r1 by (auto simp: Let_def split_beta)
  show ?thesis
    by (rule that [of ?x c]) (use 1 e c in \<open>auto simp: usbd_laws [OF assms(1)] same_in_def\<close>)
qed

lemma service_keeps:
  assumes "usbd_documented usb v"
  shows "v_in v (usb_glue_service usb g u) = v_in v u" "v_armed v (usb_glue_service usb g u) = v_armed v u"
  by (simp_all add: usb_glue_service_def Let_def usbd_laws [OF assms])

lemma cmd_deferred_keeps:
  assumes "usbd_documented usb v" "usb_glue_cmd_out_deferred usb gen g u = (g', u')"
  shows "same_in g' g" "v_in v u' = v_in v u" "v_armed v u' 2 = v_armed v u 2" "v_deferred v u' = v_deferred v u"
    "\<exists>st. g' = g\<lparr>gl_stats := st\<rparr> \<and> v_armed v u' 1 = v_armed v u 1 \<or>
       g' = g\<lparr>gl_cmd_out_needs_rearm := False\<rparr> \<and> gl_itf_open g \<and> v_armed v u' 1"
  using assms(2)
  by (auto simp: usb_glue_cmd_out_deferred_def usbd_laws [OF assms(1)] same_in_def Let_def split_beta
      intro: exI [of _ "gl_stats g"] split: if_splits)

subsection \<open>Host frames on their way\<close>

definition pending_wf :: "glue \<Rightarrow> bool" where
  "pending_wf g \<longleftrightarrow> length (gl_pending g) = 32 \<and> unat (gl_pending_count g) \<le> 32 \<and>
     (gl_pending_index g < gl_pending_count g \<or> gl_pending_index g = 0 \<and> gl_pending_count g = 0)"

definition pending_frames :: "glue \<Rightarrow> pcan_frame list" where
  "pending_frames g = drop (unat (gl_pending_index g)) (take (unat (gl_pending_count g)) (gl_pending g))"

lemma pending_frames_Nil: "pending_wf g \<Longrightarrow> pending_frames g = [] \<longleftrightarrow> gl_pending_count g = 0"
  by (auto simp: pending_wf_def pending_frames_def word_less_nat_alt)

lemma pending_step:
  assumes "pending_wf g" "gl_pending_index g < gl_pending_count g"
  shows "pending_wf (pending_advance g)"
    "pending_frames g = gl_pending g ! unat (gl_pending_index g) # pending_frames (pending_advance g)"
proof -
  let ?i = "unat (gl_pending_index g)" and ?n = "unat (gl_pending_count g)"
  have b: "?i < ?n" "?n \<le> 32" "length (gl_pending g) = 32"
    using assms by (simp_all add: pending_wf_def word_less_nat_alt)
  then have i: "unat (gl_pending_index g + 1) = ?i + 1" by (simp add: unat_word_ariths)
  show "pending_wf (pending_advance g)"
    using b by (simp add: pending_wf_def pending_advance_def Let_def not_le)
  have d: "drop ?i (take ?n (gl_pending g)) = gl_pending g ! ?i # drop (Suc ?i) (take ?n (gl_pending g))"
    using b by (subst Cons_nth_drop_Suc [symmetric]) simp_all
  show "pending_frames g = gl_pending g ! ?i # pending_frames (pending_advance g)"
    unfolding pending_frames_def [of g] d
    using b i by (auto simp: pending_frames_def pending_advance_def Let_def word_le_nat_alt)
qed

text \<open>Glue states that differ at most in the pending frames and in whether EP2 OUT waits for a re-arm.\<close>

definition same_session :: "glue \<Rightarrow> glue \<Rightarrow> bool" where
  "same_session g h \<longleftrightarrow> same_in g h \<and> gl_itf_open g = gl_itf_open h \<and> gl_generation g = gl_generation h \<and>
     gl_cmd_out_needs_rearm g = gl_cmd_out_needs_rearm h"

lemma pending_advance_same:
  "same_session (pending_advance g) g" "gl_msg_out_needs_rearm (pending_advance g) = gl_msg_out_needs_rearm g"
  by (simp_all add: pending_advance_def Let_def same_session_def same_in_def)

lemma same_session_trans: "same_session a b \<Longrightarrow> same_session b c \<Longrightarrow> same_session a c"
  by (simp add: same_session_def same_in_def)

text \<open>A run of the deferred function moves a prefix of the pending frames into the ring, in order, and
  re-arms the endpoint only when none is left.\<close>

definition drained :: "'u usb_view \<Rightarrow> glue \<Rightarrow> pcan_frame list \<Rightarrow> 'u \<Rightarrow> glue \<Rightarrow> pcan_frame list \<Rightarrow> 'u \<Rightarrow> bool" where
  "drained v g r u g' r' u' \<longleftrightarrow>
     pending_wf g' \<and> same_session g' g \<and> (\<exists>new. r' = r @ new \<and> pending_frames g = new @ pending_frames g') \<and>
     v_in v u' = v_in v u \<and> v_deferred v u' = v_deferred v u \<and> v_armed v u' 1 = v_armed v u 1 \<and>
     (gl_msg_out_needs_rearm g' = gl_msg_out_needs_rearm g \<and> v_armed v u' 2 = v_armed v u 2 \<or>
      gl_itf_open g \<and> \<not> gl_msg_out_needs_rearm g' \<and> v_armed v u' 2 \<and> gl_pending_count g' = 0)"

lemma drained_same: "pending_wf g \<Longrightarrow> drained v g r u g r u"
  by (simp add: drained_def same_session_def same_in_def)

lemma drained_stats: "pending_wf g \<Longrightarrow> drained v g r u (g\<lparr>gl_stats := x\<rparr>) r u"
  by (simp add: drained_def same_session_def same_in_def pending_wf_def pending_frames_def)

lemma drained_rearm:
  assumes "usbd_documented usb v" "pending_wf g" "gl_pending_count g = 0" "gl_itf_open g" "gen = gl_generation g"
    and "msg_out_rearm usb gen g u = (g', u')"
  shows "drained v g r u g' r u'"
  using assms(2-) by (auto simp: msg_out_rearm_def drained_def same_session_def same_in_def pending_wf_def
      pending_frames_def usbd_laws [OF assms(1)] Let_def split_beta split: if_splits)

lemma drained_push:
  assumes "pending_wf g" "gl_pending_index g < gl_pending_count g"
    and "drained v (pending_advance g) (r @ [gl_pending g ! unat (gl_pending_index g)]) u g' r' u'"
  shows "drained v g r u g' r' u'"
proof -
  note p = pending_step [OF assms(1,2)]
  have "\<exists>new. r' = r @ new \<and> pending_frames g = new @ pending_frames g'"
    using assms(3) p(2) by (auto simp: drained_def)
  moreover have "gl_itf_open (pending_advance g) = gl_itf_open g" using pending_advance_same(1) [of g] by (simp add: same_session_def)
  ultimately show ?thesis
    using assms(3) same_session_trans [OF _ pending_advance_same(1)] pending_advance_same(2) [of g] by (auto simp: drained_def)
qed

lemma msg_out_deferred_drains:
  assumes "usbd_documented usb v" "pending_wf g"
    and "usb_glue_msg_out_deferred (list_push cap) usb gen g r u = (g', r', u')"
  shows "drained v g r u g' r' u'"
  using assms(2-)
proof (induction "unat (gl_pending_count g) - unat (gl_pending_index g)" arbitrary: g r rule: less_induct)
  case less
  note E = usb_glue_msg_out_deferred.simps [of "list_push cap" usb gen g r u]
  consider (stale) "\<not> gl_itf_open g \<or> gen \<noteq> gl_generation g \<or> \<not> gl_msg_out_needs_rearm g"
    | (full) "gl_itf_open g" "gen = gl_generation g" "gl_msg_out_needs_rearm g" "gl_pending_index g < gl_pending_count g"
        "\<not> length r < cap"
    | (room) "gl_itf_open g" "gen = gl_generation g" "gl_msg_out_needs_rearm g" "gl_pending_index g < gl_pending_count g"
        "length r < cap"
    | (rearm) "gl_itf_open g" "gen = gl_generation g" "gl_msg_out_needs_rearm g" "\<not> gl_pending_index g < gl_pending_count g"
    by blast
  then show ?case
  proof cases
    case stale
    then show ?thesis using less.prems drained_same by (auto simp: E)
  next
    case full
    then have "usb_glue_msg_out_deferred (list_push cap) usb gen g r u =
        (g\<lparr>gl_stats := (gl_stats g)\<lparr>us_tx_backpressure_retries := us_tx_backpressure_retries (gl_stats g) + 1\<rparr>\<rparr>, r, u)"
      by (subst E) (simp add: list_push_def)
    then have "g' = g\<lparr>gl_stats := (gl_stats g)\<lparr>us_tx_backpressure_retries := us_tx_backpressure_retries (gl_stats g) + 1\<rparr>\<rparr>"
      "r' = r" "u' = u"
      using less.prems(2) by simp_all
    then show ?thesis using drained_stats [OF less.prems(1)] by simp
  next
    case room
    have "usb_glue_msg_out_deferred (list_push cap) usb gen (pending_advance g)
        (r @ [gl_pending g ! unat (gl_pending_index g)]) u = (g', r', u')"
      using less.prems(2) by (subst (asm) E) (use room in \<open>simp add: list_push_def\<close>)
    moreover have "unat (gl_pending_count (pending_advance g)) - unat (gl_pending_index (pending_advance g)) <
        unat (gl_pending_count g) - unat (gl_pending_index g)"
    proof -
      have "length (pending_frames (pending_advance g)) < length (pending_frames g)"
        using pending_step(2) [OF less.prems(1) room(4)] by simp
      then show ?thesis
        using less.prems(1) pending_step(1) [OF less.prems(1) room(4)] by (simp add: pending_frames_def pending_wf_def)
    qed
    ultimately have "drained v (pending_advance g) (r @ [gl_pending g ! unat (gl_pending_index g)]) u g' r' u'"
      using less.hyps pending_step(1) [OF less.prems(1) room(4)] by blast
    then show ?thesis by (rule drained_push [OF less.prems(1) room(4)])
  next
    case rearm
    then have "gl_pending_count g = 0" using less.prems(1) by (auto simp: pending_wf_def)
    moreover have "usb_glue_msg_out_deferred (list_push cap) usb gen g r u =
        (let (g, u) = msg_out_rearm usb gen g u in (g, r, u))"
      by (subst E) (use rearm in simp)
    then have "msg_out_rearm usb gen g u = (g', u')" "r' = r"
      using less.prems(2) by (auto simp: split_beta)
    ultimately show ?thesis using drained_rearm [OF assms(1) less.prems(1) _ rearm(1,2)] by blast
  qed
qed

lemma decoded_length: "length (decoded_frames ok n buf) \<le> 32"
proof -
  have "length fs \<le> 32" if "pcan_msg_decode_tx buf len 32 = Some fs" for len fs
    using that decode_tx_loop_wf [of buf len "if len \<ge> 64 then buf ! 63 else 0" 32 "unat (buf ! 1)" 2 "[]" fs]
    by (auto simp: pcan_msg_decode_tx_def Let_def split: if_splits)
  then show ?thesis by (auto simp: decoded_frames_def split: option.splits)
qed

lemma msg_out_complete_pending:
  fixes ok n buf
  assumes "pending_wf g" "gl_pending_count g = 0"
  defines "g' \<equiv> msg_out_complete ok n buf g"
  shows "pending_wf g'" "pending_frames g' = decoded_frames ok n buf" "same_session g' g" "gl_msg_out_needs_rearm g'"
proof -
  let ?fs = "decoded_frames ok n buf"
  have l: "length ?fs \<le> 32" by (rule decoded_length)
  then have "length ?fs < 2 ^ LENGTH(8)" by simp
  then have c: "unat (word_of_nat (length ?fs) :: u8) = length ?fs"
    unfolding unat_of_nat by (rule mod_less)
  have p: "length (gl_pending g) = 32" "gl_pending_index g = 0" using assms(1,2) by (auto simp: pending_wf_def)
  have k: "g' = (if ok \<and> n > 0 then g\<lparr>gl_pending := memcpy_at (gl_pending g) 0 ?fs, gl_pending_index := 0,
      gl_pending_count := word_of_nat (length ?fs), gl_msg_out_needs_rearm := True\<rparr> else g\<lparr>gl_msg_out_needs_rearm := True\<rparr>)"
    using p assms(2)
    by (simp add: g'_def msg_out_complete_def usb_glue_handle_msg_def decoded_frames_def Let_def)
  have e: "\<not> (ok \<and> n > 0) \<Longrightarrow> ?fs = []" by (auto simp: decoded_frames_def)
  define n8 where "n8 = (word_of_nat (length ?fs) :: u8)"
  have n8: "unat n8 = length ?fs" using c by (simp add: n8_def)
  have z: "n8 = 0 \<or> 0 < n8" by (simp add: word_gt_0)
  have f: "gl_pending g' = memcpy_at (gl_pending g) 0 ?fs \<and> gl_pending_index g' = 0 \<and> gl_pending_count g' = n8"
  proof (cases "ok \<and> n > 0")
    case True
    then show ?thesis unfolding k n8_def by simp
  next
    case False
    have "g' = g\<lparr>gl_msg_out_needs_rearm := True\<rparr>" unfolding k by (rule if_not_P [OF False])
    then show ?thesis using e [OF False] p(2) assms(2) by (simp add: n8_def)
  qed
  note f = conjunct1 [OF f] conjunct1 [OF conjunct2 [OF f]] conjunct2 [OF conjunct2 [OF f]]
  show "pending_wf g'"
    unfolding pending_wf_def f n8 using l p(1) z by auto
  show "pending_frames g' = ?fs"
    unfolding pending_frames_def f n8 using l p(1) by simp
  show "same_session g' g" "gl_msg_out_needs_rearm g'" using k by (simp_all add: same_session_def same_in_def)
qed

definition out_ok :: "'u usb_view \<Rightarrow> 'u usb_sys \<Rightarrow> bool" where
  "out_ok v s \<longleftrightarrow>
     (let g = uy_glue s; a = v_armed v (uy_usb s) in
      pending_wf g \<and> uy_decoded s = uy_pushed s @ pending_frames g \<and>
      (a 2 \<longleftrightarrow> gl_itf_open g \<and> \<not> gl_msg_out_needs_rearm g) \<and>
      (a 1 \<longleftrightarrow> gl_itf_open g \<and> \<not> gl_cmd_out_needs_rearm g) \<and>
      (gl_msg_out_needs_rearm g \<or> gl_pending_count g = 0) \<and> (gl_itf_open g \<or> \<not> gl_msg_out_needs_rearm g))"

lemmas out_ok_simp = out_ok_def Let_def

lemma out_ok_keeps:
  assumes "out_ok v s" "same_session (uy_glue t) (uy_glue s)" "pending_wf (uy_glue t)"
    and "pending_frames (uy_glue t) = pending_frames (uy_glue s)" "gl_pending_count (uy_glue t) = gl_pending_count (uy_glue s)"
    and "gl_msg_out_needs_rearm (uy_glue t) = gl_msg_out_needs_rearm (uy_glue s)"
    and "v_armed v (uy_usb t) 1 = v_armed v (uy_usb s) 1" "v_armed v (uy_usb t) 2 = v_armed v (uy_usb s) 2"
    and "uy_decoded t = uy_decoded s" "uy_pushed t = uy_pushed s"
  shows "out_ok v t"
  using assms by (simp add: out_ok_simp same_session_def)

text \<open>Glue states that agree on everything the OUT direction is about.\<close>

definition same_out :: "glue \<Rightarrow> glue \<Rightarrow> bool" where
  "same_out g h \<longleftrightarrow> gl_pending g = gl_pending h \<and> gl_pending_count g = gl_pending_count h \<and>
     gl_pending_index g = gl_pending_index h \<and> gl_itf_open g = gl_itf_open h \<and>
     gl_msg_out_needs_rearm g = gl_msg_out_needs_rearm h \<and> gl_cmd_out_needs_rearm g = gl_cmd_out_needs_rearm h"

lemma out_ok_same:
  "out_ok v s \<Longrightarrow> same_out (uy_glue t) (uy_glue s) \<Longrightarrow> v_armed v (uy_usb t) 1 = v_armed v (uy_usb s) 1 \<Longrightarrow>
   v_armed v (uy_usb t) 2 = v_armed v (uy_usb s) 2 \<Longrightarrow> uy_decoded t = uy_decoded s \<Longrightarrow> uy_pushed t = uy_pushed s \<Longrightarrow>
   out_ok v t"
  by (simp add: out_ok_simp same_out_def pending_wf_def pending_frames_def)

lemma present_out_ok:
  assumes "usbd_documented usb v" "out_ok v s"
  shows "out_ok v (present usb b s)"
proof -
  have "same_out (uy_glue (present usb b s)) (uy_glue s)" "v_armed v (uy_usb (present usb b s)) = v_armed v (uy_usb s)"
    by (auto simp: present_def usb_glue_send_msg_batch_def same_out_def usbd_laws [OF assms(1)] Let_def
        split: msg_in_state.splits)
  then show ?thesis by (rule_tac out_ok_same [OF assms(2)]) (simp_all add: present_def split_beta)
qed

lemma msg_in_call_out_ok:
  assumes "usbd_documented usb v" "out_ok v s"
  shows "out_ok v (run_call usb cap (MsgInDeferred gen) s)"
  by (rule out_ok_same [OF assms(2)])
    (auto simp: usb_glue_msg_in_deferred_def same_out_def usbd_laws [OF assms(1)] split_beta Let_def)

lemma msg_out_call_ok:
  assumes "usbd_documented usb v" "out_ok v s"
  shows "out_ok v (run_call usb cap (MsgOutDeferred gen) s)" "in_ok v s \<Longrightarrow> in_ok v (run_call usb cap (MsgOutDeferred gen) s)"
proof -
  obtain g r u where d: "usb_glue_msg_out_deferred (list_push cap) usb gen (uy_glue s) (uy_ring s) (uy_usb s) = (g, r, u)"
    by (cases "usb_glue_msg_out_deferred (list_push cap) usb gen (uy_glue s) (uy_ring s) (uy_usb s)") auto
  have w: "pending_wf (uy_glue s)" using assms(2) by (simp add: out_ok_simp)
  note D = msg_out_deferred_drains [OF assms(1) w d]
  have e: "run_call usb cap (MsgOutDeferred gen) s = s\<lparr>uy_glue := g, uy_usb := u, uy_ring := r,
      uy_pushed := uy_pushed s @ drop (length (uy_ring s)) r\<rparr>"
    by (simp add: d)
  show "out_ok v (run_call usb cap (MsgOutDeferred gen) s)"
  proof -
    have c: "gl_pending_count g = 0" if "gl_pending_count (uy_glue s) = 0"
      using that D pending_frames_Nil [OF w] pending_frames_Nil [of g] by (auto simp: drained_def)
    have f: "pending_wf g" "gl_itf_open g = gl_itf_open (uy_glue s)"
      "gl_cmd_out_needs_rearm g = gl_cmd_out_needs_rearm (uy_glue s)" "v_armed v u 1 = v_armed v (uy_usb s) 1"
      using D by (simp_all add: drained_def same_session_def)
    have p: "uy_decoded s = (uy_pushed s @ drop (length (uy_ring s)) r) @ pending_frames g"
      using D assms(2) by (auto simp: drained_def out_ok_simp)
    have a: "v_armed v u 2 \<longleftrightarrow> gl_itf_open (uy_glue s) \<and> \<not> gl_msg_out_needs_rearm g"
      "gl_msg_out_needs_rearm g \<or> gl_pending_count g = 0" "gl_itf_open g \<or> \<not> gl_msg_out_needs_rearm g"
      using D assms(2) c f(2) by (auto simp: drained_def out_ok_simp)
    show ?thesis unfolding e out_ok_def Let_def using f p a assms(2) by (simp add: out_ok_simp)
  qed
  show "in_ok v (run_call usb cap (MsgOutDeferred gen) s)" if "in_ok v s"
    unfolding e using D by (intro in_ok_same [OF that]) (auto simp: drained_def same_session_def)
qed

subsection \<open>Every move keeps both invariants\<close>

lemma cmd_call_ok:
  assumes "usbd_documented usb v" "in_ok v s" "out_ok v s"
  shows "in_ok v (run_call usb cap (CmdOutDeferred gen) s) \<and> out_ok v (run_call usb cap (CmdOutDeferred gen) s)"
proof -
  obtain g u where d: "usb_glue_cmd_out_deferred usb gen (uy_glue s) (uy_usb s) = (g, u)"
    by (cases "usb_glue_cmd_out_deferred usb gen (uy_glue s) (uy_usb s)") auto
  note D = cmd_deferred_keeps [OF assms(1) d]
  have e: "run_call usb cap (CmdOutDeferred gen) s = s\<lparr>uy_glue := g, uy_usb := u\<rparr>" by (simp add: d)
  have "in_ok v (s\<lparr>uy_glue := g, uy_usb := u\<rparr>)" by (rule in_ok_same [OF assms(2)]) (simp_all add: D)
  moreover obtain st where "g = (uy_glue s)\<lparr>gl_stats := st\<rparr> \<and> v_armed v u 1 = v_armed v (uy_usb s) 1 \<or>
      g = (uy_glue s)\<lparr>gl_cmd_out_needs_rearm := False\<rparr> \<and> gl_itf_open (uy_glue s) \<and> v_armed v u 1"
    using D(5) by blast
  then have "out_ok v (s\<lparr>uy_glue := g, uy_usb := u\<rparr>)"
    using assms(3) D(3) by (elim disjE conjE) (simp_all add: out_ok_simp pending_wf_def pending_frames_def)
  ultimately show ?thesis unfolding e by blast
qed

lemma run_call_ok:
  assumes "usbd_documented usb v" "in_ok v s" "out_ok v s"
  shows "in_ok v (run_call usb cap c s) \<and> out_ok v (run_call usb cap c s)"
  using msg_out_call_ok [OF assms(1,3)] msg_in_call_ok [OF assms(1,2)] msg_in_call_out_ok [OF assms(1,3)]
    cmd_call_ok [OF assms] assms(2)
  by (cases c) (simp_all del: run_call.simps)

lemma msg_out_move_ok:
  fixes ok n buf
  assumes "in_ok v s" "out_ok v s" "v_armed v (uy_usb s) 2"
    and "usb_is v u (v_in v (uy_usb s)) ((v_armed v (uy_usb s))(2 := False)) (v_deferred v (uy_usb s))"
  defines "t \<equiv> s\<lparr>uy_glue := msg_out_complete ok n buf (uy_glue s), uy_usb := u,
    uy_decoded := uy_decoded s @ decoded_frames ok n buf\<rparr>"
  shows "in_ok v t \<and> out_ok v t"
proof -
  have w: "pending_wf (uy_glue s)" "gl_pending_count (uy_glue s) = 0"
    using assms(2,3) by (auto simp: out_ok_simp)
  note C = msg_out_complete_pending [OF w, of ok n buf]
  have "pending_frames (uy_glue s) = []" using pending_frames_Nil [OF w(1)] w(2) by simp
  then have d: "uy_decoded s = uy_pushed s" using assms(2) by (simp add: out_ok_simp)
  have "in_ok v t"
    by (rule in_ok_same [OF assms(1)]) (use C(3) assms(4) in \<open>simp_all add: t_def same_session_def usb_is_def\<close>)
  moreover have "out_ok v t"
    using C assms(2,3,4) d by (auto simp: t_def out_ok_simp same_session_def usb_is_def)
  ultimately show ?thesis ..
qed

lemma cmd_out_move_ok:
  assumes "usbd_documented usb v" "in_ok v s" "out_ok v s" "v_armed v (uy_usb s) 1"
    and "usb_is v u (v_in v (uy_usb s)) ((v_armed v (uy_usb s))(1 := False)) (v_deferred v (uy_usb s))"
    and "cmd_out_complete api usb ok n buf st (uy_glue s) u = (st', g', u')"
  defines "t \<equiv> s\<lparr>uy_glue := g', uy_usb := u'\<rparr>"
  shows "in_ok v t \<and> out_ok v t"
proof -
  obtain x c where k: "same_in g' (uy_glue s)" "v_in v u' = v_in v u" "v_armed v u' 2 = v_armed v u 2"
    "v_armed v u' 1 = (if x then True else v_armed v u 1)"
    "g' = (if x then (uy_glue s)\<lparr>gl_cmd_in := c\<rparr> else (uy_glue s)\<lparr>gl_cmd_in := c, gl_cmd_out_needs_rearm := True,
       gl_stats := (gl_stats (uy_glue s))\<lparr>us_cmd_out_rearm_failures := us_cmd_out_rearm_failures (gl_stats (uy_glue s)) + 1\<rparr>\<rparr>)"
    by (rule cmd_complete_keeps [OF assms(1,6)])
  have "in_ok v t" by (rule in_ok_same [OF assms(2)]) (use k assms(5) in \<open>simp_all add: t_def usb_is_def\<close>)
  moreover have "out_ok v t"
  proof (cases x)
    case True
    have "out_ok v (s\<lparr>uy_glue := (uy_glue s)\<lparr>gl_cmd_in := c\<rparr>, uy_usb := u'\<rparr>)"
      using k(3,4) True assms(3,4,5) by (simp add: out_ok_simp usb_is_def pending_wf_def pending_frames_def)
    then show ?thesis using k(5) True by (simp add: t_def)
  next
    case False
    have "out_ok v (s\<lparr>uy_glue := (uy_glue s)\<lparr>gl_cmd_in := c, gl_cmd_out_needs_rearm := True, gl_stats := z\<rparr>, uy_usb := u'\<rparr>)" for z
      using k(3,4) False assms(3,5) by (simp add: out_ok_simp usb_is_def pending_wf_def pending_frames_def)
    then show ?thesis using k(5) False by (simp add: t_def)
  qed
  ultimately show ?thesis ..
qed

lemma reset_move_ok:
  assumes "in_ok v s" "out_ok v s" "usb_is v u None (\<lambda>_. False) (v_deferred v (uy_usb s))"
  defines "t \<equiv> s\<lparr>uy_glue := pcan_drv_reset (uy_glue s), uy_usb := u, uy_decoded := [], uy_pushed := []\<rparr>"
  shows "in_ok v t \<and> out_ok v t"
proof -
  have "in_ok v t" unfolding t_def by (rule reset_in_ok [OF assms(1)]) (use assms(3) in \<open>simp add: usb_is_def\<close>)
  moreover have "length (gl_pending (uy_glue s)) = 32" using assms(2) by (simp add: out_ok_simp pending_wf_def)
  then have "out_ok v t" using assms(3)
    by (simp add: t_def out_ok_simp usb_is_def pcan_drv_reset_def drop_session_def count_reset_drops_def pending_wf_def
        pending_frames_def)
  ultimately show ?thesis ..
qed

lemma open_endpoints_keeps:
  assumes "usbd_documented usb v"
  shows "v_in v (snd (open_endpoints usb n d u)) = v_in v u \<and> v_armed v (snd (open_endpoints usb n d u)) = v_armed v u \<and>
    v_deferred v (snd (open_endpoints usb n d u)) = v_deferred v u"
  by (induction n arbitrary: d u) (auto simp: usbd_laws [OF assms] split_beta Let_def)

lemma connect_move_ok:
  assumes "usbd_documented usb v" "in_ok v s" "out_ok v s" "\<not> gl_itf_open (uy_glue s)"
    and "pcan_drv_open usb rhport d max_len (uy_glue s) (uy_usb s) = (n, g', u')"
  defines "t \<equiv> s\<lparr>uy_glue := g', uy_usb := u', uy_decoded := [], uy_pushed := []\<rparr>"
  shows "in_ok v t \<and> out_ok v t"
proof -
  have a: "\<not> v_armed v (uy_usb s) 1" "\<not> v_armed v (uy_usb s) 2" using assms(3,4) by (simp_all add: out_ok_simp)
  let ?o = "open_endpoints usb 4 (desc_next d) (uy_usb s)"
  have ok: "v_in v (snd ?o) = v_in v (uy_usb s)" "v_armed v (snd ?o) = v_armed v (uy_usb s)"
    using open_endpoints_keeps [OF assms(1)] by blast+
  consider (no) "g' = uy_glue s" "v_in v u' = v_in v (uy_usb s)" "v_armed v u' = v_armed v (uy_usb s)"
    | (yes) "(g', u') = arm_out_endpoints usb (drv_session_begin rhport (uy_glue s)) (snd ?o)"
    using assms(5) ok unfolding pcan_drv_open_def Let_def by (auto simp: split_beta split: if_splits)
  then show ?thesis
  proof cases
    case no
    have "in_ok v t" by (rule in_ok_same [OF assms(2)]) (simp_all add: t_def no same_in_def)
    moreover have "gl_pending_count (uy_glue s) = 0" using assms(3,4) by (auto simp: out_ok_simp)
    then have "pending_frames (uy_glue s) = []"
      using assms(3) pending_frames_Nil by (auto simp: out_ok_simp)
    then have "out_ok v t" using assms(3) by (simp add: t_def out_ok_simp no)
    ultimately show ?thesis ..
  next
    case yes
    let ?g = "drv_session_begin rhport (uy_glue s)"
    let ?x = "edpt_xfer usb PCAN_USB_EP_CMDOUT [] (snd ?o)"
    let ?y = "edpt_xfer usb PCAN_USB_EP_MSGOUT [] (snd ?x)"
    have b: "same_in ?g (uy_glue s)" "gl_itf_open ?g" "gl_pending_count ?g = 0" "gl_pending_index ?g = 0"
      "gl_pending ?g = gl_pending (uy_glue s)" "\<not> gl_msg_out_needs_rearm ?g" "\<not> gl_cmd_out_needs_rearm ?g"
      by (simp_all add: drv_session_begin_def drop_session_def same_in_def Let_def)
    have u: "u' = snd ?y" using yes by (simp add: arm_out_endpoints_def split_beta Let_def)
    have g: "same_in g' ?g" "gl_itf_open g'" "gl_pending_count g' = 0" "gl_pending_index g' = 0"
      "gl_pending g' = gl_pending (uy_glue s)" "gl_cmd_out_needs_rearm g' \<longleftrightarrow> \<not> fst ?x" "gl_msg_out_needs_rearm g' \<longleftrightarrow> \<not> fst ?y"
      using yes b by (simp_all add: arm_out_endpoints_def split_beta Let_def same_in_def)
    have "in_ok v t"
      by (rule in_ok_same [OF assms(2)])
        (use g(1) b(1) ok in \<open>simp_all add: t_def u same_in_def usbd_laws [OF assms(1)]\<close>)
    moreover have "length (gl_pending (uy_glue s)) = 32" using assms(3) by (simp add: out_ok_simp pending_wf_def)
    then have "out_ok v t"
      using g ok a by (auto simp: t_def u out_ok_simp pending_wf_def pending_frames_def usbd_laws [OF assms(1)])
    ultimately show ?thesis ..
  qed
qed

lemma fill_in_ok:
  assumes "in_ok v s" "uy_batch s = None" "b \<noteq> []" "length b \<le> 64"
  shows "in_ok v (s\<lparr>uy_batch := Some b\<rparr>)"
proof -
  have "gl_in_state (uy_glue s) = MSG_IN_IDLE" using assms(1,2) by (simp add: in_ok_def in_inv_def split: if_splits)
  then show ?thesis using assms by (simp add: in_ok_def in_inv_def)
qed

lemma usb_move_ok:
  assumes "usbd_documented usb v"
  shows "usb_move api usb v s t \<Longrightarrow> in_ok v s \<and> out_ok v s \<Longrightarrow> in_ok v t \<and> out_ok v t"
proof (induction rule: usb_move.induct)
  case (fill s b)
  have "in_ok v (s\<lparr>uy_batch := Some b\<rparr>)"
    by (rule fill_in_ok [OF conjunct1 [OF fill.prems] fill.hyps])
  moreover have "out_ok v (s\<lparr>uy_batch := Some b\<rparr>)" by (rule out_ok_same [OF conjunct2 [OF fill.prems]]) (simp_all add: same_out_def)
  ultimately show ?case ..
next
  case (send s b)
  then show ?case using present_in_ok [OF assms] present_out_ok [OF assms] by blast
next
  case (service s)
  let ?t = "s\<lparr>uy_usb := usb_glue_service usb (uy_glue s) (uy_usb s)\<rparr>"
  note k = service_keeps [OF assms, of "uy_glue s" "uy_usb s"]
  have "in_ok v ?t" by (rule in_ok_same [OF conjunct1 [OF service.prems]]) (simp_all add: same_in_def k)
  moreover have "out_ok v ?t" by (rule out_ok_same [OF conjunct2 [OF service.prems]]) (simp_all add: same_out_def k)
  ultimately show ?case ..
next
  case (deferred s c cs u cap)
  have "in_ok v (s\<lparr>uy_usb := u\<rparr>) \<and> out_ok v (s\<lparr>uy_usb := u\<rparr>)"
    using deferred by (simp add: in_ok_def out_ok_simp usb_is_def)
  then show ?case by (intro run_call_ok [OF assms]) (rule conjunct1, assumption, rule conjunct2, assumption)
next
  case (in_done s bs u ok)
  have "in_ok v (s\<lparr>uy_glue := msg_in_complete ok (uy_glue s), uy_usb := u,
      uy_wire := if ok then uy_wire s @ [bs] else uy_wire s\<rparr>)"
    by (rule msg_in_complete_ok [OF conjunct1 [OF in_done.prems] in_done.hyps(1)]) (use in_done.hyps(2) in \<open>simp add: usb_is_def\<close>)
  moreover have "same_out (msg_in_complete ok (uy_glue s)) (uy_glue s)" by (simp add: msg_in_complete_def same_out_def)
  then have "out_ok v (s\<lparr>uy_glue := msg_in_complete ok (uy_glue s), uy_usb := u,
      uy_wire := if ok then uy_wire s @ [bs] else uy_wire s\<rparr>)"
    by (rule_tac out_ok_same [OF conjunct2 [OF in_done.prems]]) (use in_done.hyps(2) in \<open>simp_all add: usb_is_def\<close>)
  ultimately show ?case ..
next
  case (msg_out s u ok n buf)
  then show ?case using msg_out_move_ok [of v s u ok n buf] by simp
next
  case (cmd_out s u ok n buf st st' g' u')
  then show ?case using cmd_out_move_ok [OF assms, of s u api ok n buf st st' g' u'] by simp
next
  case (consume s)
  then show ?case by (simp add: in_ok_def out_ok_simp)
next
  case (reset u s)
  show ?case by (rule reset_move_ok [OF conjunct1 [OF reset.prems] conjunct2 [OF reset.prems] reset.hyps])
next
  case (connect s rhport d max_len n g' u')
  show ?case by (rule connect_move_ok [OF assms conjunct1 [OF connect.prems] conjunct2 [OF connect.prems] connect.hyps])
qed

lemma usb_start_ok:
  assumes "usb_is v u None (\<lambda>_. False) []"
  shows "in_ok v (usb_sys_start u) \<and> out_ok v (usb_sys_start u)"
  using assms
  by (simp add: usb_sys_start_def usb_glue_bind_def pcan_drv_init_def drop_session_def glue_zero_def in_ok_def in_inv_def
      out_ok_simp pending_wf_def pending_frames_def usb_is_def)

lemma usb_reachable_ok:
  assumes "usbd_documented usb v" "usb_is v u None (\<lambda>_. False) []" "(usb_move api usb v)\<^sup>*\<^sup>* (usb_sys_start u) s"
  shows "in_ok v s" "out_ok v s"
proof -
  have "in_ok v s \<and> out_ok v s"
    using assms(3) by (induction rule: rtranclp_induct) (use usb_start_ok [OF assms(2)] usb_move_ok [OF assms(1)] in blast)+
  then show "in_ok v s" "out_ok v s" by blast+
qed

end
