(* ===== verification/Usb_Descriptors.thy ===== *)
theory Usb_Descriptors
  imports Usb_Glue
begin

text \<open>
  The descriptors of \<open>main/usb_descriptors.c\<close>, byte by byte, and their fit with the class driver of
  \<open>Usb_Glue\<close>, which walks them when the host selects the configuration. The macros of TinyUSB are
  written out as the bytes the USB specification gives them.
\<close>

subsection \<open>The tables\<close>

definition PCAN_USB_VENDOR_ID :: u16 where [simp]: "PCAN_USB_VENDOR_ID = 0x0C72"
definition PCAN_USB_PRODUCT_ID :: u16 where [simp]: "PCAN_USB_PRODUCT_ID = 0x000C"
definition PCAN_USB_BCD_USB :: u16 where [simp]: "PCAN_USB_BCD_USB = 0x0100"
definition PCAN_USB_BCD_DEVICE :: u16 where [simp]: "PCAN_USB_BCD_DEVICE = 0x54FF"
definition PCAN_USB_DEVICE_REV :: u8 where [simp]: "PCAN_USB_DEVICE_REV = 0x54"
definition PCAN_USB_REV_SILENT_MIN :: u8 where [simp]: "PCAN_USB_REV_SILENT_MIN = 3"
definition PCAN_USB_REV_ONESHOT_MIN :: u8 where [simp]: "PCAN_USB_REV_ONESHOT_MIN = 41"
definition PCAN_USB_EP0_MPS :: u8 where [simp]: "PCAN_USB_EP0_MPS = 64"
definition PCAN_USB_MAX_POWER_MA :: nat where [simp]: "PCAN_USB_MAX_POWER_MA = 200"
definition PCAN_USB_STR_MANUFACTURER :: u8 where [simp]: "PCAN_USB_STR_MANUFACTURER = 1"
definition PCAN_USB_STR_PRODUCT :: u8 where [simp]: "PCAN_USB_STR_PRODUCT = 2"
definition PCAN_USB_STR_SERIAL :: u8 where [simp]: "PCAN_USB_STR_SERIAL = 0"
definition PCAN_ITF_NUM_VENDOR :: u8 where [simp]: "PCAN_ITF_NUM_VENDOR = 0"
definition PCAN_ITF_NUM_TOTAL :: u8 where [simp]: "PCAN_ITF_NUM_TOTAL = 1"
definition PCAN_STRING_DESC_COUNT :: nat where [simp]: "PCAN_STRING_DESC_COUNT = 6"
definition PCAN_CONFIG_TOTAL_LEN :: nat where [simp]: "PCAN_CONFIG_TOTAL_LEN = 9 + 9 + 4 * 7"

definition u16_le :: "u16 \<Rightarrow> u8 list" where
  "u16_le w = [ucast w, ucast (drop_bit 8 w)]"

definition s_device_desc :: "u8 list" where
  "s_device_desc =
     [18, 1] @ u16_le PCAN_USB_BCD_USB @ [TUSB_CLASS_VENDOR_SPECIFIC, 0x00, 0x00, PCAN_USB_EP0_MPS] @
     u16_le PCAN_USB_VENDOR_ID @ u16_le PCAN_USB_PRODUCT_ID @ u16_le PCAN_USB_BCD_DEVICE @
     [PCAN_USB_STR_MANUFACTURER, PCAN_USB_STR_PRODUCT, PCAN_USB_STR_SERIAL, 1]"

text \<open>\<open>TUD_CONFIG_DESCRIPTOR\<close> sets the reserved bit 7 of the attributes and halves the current.\<close>

definition config_header :: "u8 \<Rightarrow> u8 \<Rightarrow> u8 \<Rightarrow> nat \<Rightarrow> u8 \<Rightarrow> nat \<Rightarrow> u8 list" where
  "config_header num itf_count str_idx total_len attr power_ma =
     [9, 2] @ u16_le (word_of_nat total_len) @
     [itf_count, num, str_idx, 0x80 OR attr, word_of_nat (power_ma div 2)]"

definition PCAN_EP_DESC :: "u8 \<Rightarrow> u8 list" where
  "PCAN_EP_DESC addr = [7, TUSB_DESC_ENDPOINT, addr, 2] @ u16_le (word_of_nat PCAN_USB_EP_MPS) @ [0]"

definition s_fs_config_desc :: "u8 list" where
  "s_fs_config_desc =
     config_header 1 PCAN_ITF_NUM_TOTAL 0 PCAN_CONFIG_TOTAL_LEN 0x00 PCAN_USB_MAX_POWER_MA @
     [9, TUSB_DESC_INTERFACE, PCAN_ITF_NUM_VENDOR, 0x00, 4, TUSB_CLASS_VENDOR_SPECIFIC, 0x00, 0x00, 0x00] @
     PCAN_EP_DESC PCAN_USB_EP_CMDOUT @ PCAN_EP_DESC PCAN_USB_EP_CMDIN @
     PCAN_EP_DESC PCAN_USB_EP_MSGOUT @ PCAN_EP_DESC PCAN_USB_EP_MSGIN"

text \<open>The string table; entry 0 is the language id.\<close>

definition s_str_desc :: "u8 list list" where
  "s_str_desc = [0x09, 0x04] #
     map (map (\<lambda>c. word_of_nat (of_char c)))
       [''PEAK-System Technik GmbH'', ''PCAN-USB'', [], ''PCAN-USB Command'', ''PCAN-USB Message'']"

definition pcan_desc_device :: "u8 list" where "pcan_desc_device = s_device_desc"
definition pcan_desc_configuration :: "u8 \<Rightarrow> u8 list" where "pcan_desc_configuration index = s_fs_config_desc"
definition pcan_desc_string_table :: "u8 list list" where "pcan_desc_string_table = s_str_desc"

text \<open>The interface descriptor and what follows it, as TinyUSB hands it to the class driver.\<close>

definition vendor_interface :: "u8 list" where
  "vendor_interface = drop 9 (pcan_desc_configuration 0)"

subsection \<open>Fit with the class driver\<close>

lemma vendor_interface_eq:
  "vendor_interface = [9, 4, 0, 0, 4, 0xFF, 0, 0, 0,
     7, 5, 0x01, 2, 64, 0, 0, 7, 5, 0x81, 2, 64, 0, 0, 7, 5, 0x02, 2, 64, 0, 0, 7, 5, 0x82, 2, 64, 0, 0]"
  by code_simp

text \<open>The endpoint descriptors in the order in which the driver opens them.\<close>

fun open_all :: "'u usbd \<Rightarrow> u8 list list \<Rightarrow> 'u \<Rightarrow> bool \<times> 'u" where
  "open_all usb [] u = (True, u)"
| "open_all usb (d # ds) u = (let (ok, u) = edpt_open usb d u in if \<not> ok then (False, u) else open_all usb ds u)"

lemma ep_desc_bytes: "PCAN_EP_DESC addr = [7, 5, addr, 2, 64, 0, 0]"
  by (simp add: PCAN_EP_DESC_def u16_le_def)

lemma open_step:
  "open_endpoints usb (Suc n) (PCAN_EP_DESC addr @ rest) u =
     (let (ok, u) = edpt_open usb (PCAN_EP_DESC addr) u in if \<not> ok then (False, u) else open_endpoints usb n rest u)"
proof -
  have "desc_next (7 # 5 # addr # 2 # 64 # 0 # 0 # rest) = rest" by (simp add: desc_next_def)
  then show ?thesis by (simp add: ep_desc_bytes split_beta)
qed

lemma interface_endpoints:
  "desc_next vendor_interface = PCAN_EP_DESC 0x01 @ PCAN_EP_DESC 0x81 @ PCAN_EP_DESC 0x02 @ PCAN_EP_DESC 0x82 @ []"
  by (simp add: vendor_interface_eq desc_next_def ep_desc_bytes)

lemma open_own_endpoints:
  "open_endpoints usb 4 (desc_next vendor_interface) u =
     open_all usb (map PCAN_EP_DESC [PCAN_USB_EP_CMDOUT, PCAN_USB_EP_CMDIN, PCAN_USB_EP_MSGOUT, PCAN_USB_EP_MSGIN]) u"
proof -
  have n: "(4 :: nat) = Suc (Suc (Suc (Suc 0)))" by simp
  show ?thesis unfolding interface_endpoints n open_step by (simp add: Let_def split_beta)
qed

text \<open>The firmware's own descriptors are consistent with each other and with the class driver: the
  lengths announced are the real ones, the fields carry the ids and the revision the host
  driver keys its features on, and when the stack can open endpoints the driver claims
  exactly the 37 bytes of its interface, opening the four endpoints in order.\<close>

theorem own_descriptors_fit:
  "length pcan_desc_device = unat (pcan_desc_device ! 0) \<and>
   length (pcan_desc_configuration i) = PCAN_CONFIG_TOTAL_LEN \<and>
   take 2 (drop 2 (pcan_desc_configuration i)) = u16_le (word_of_nat PCAN_CONFIG_TOTAL_LEN) \<and>
   pcan_desc_device ! 13 = PCAN_USB_DEVICE_REV \<and> PCAN_USB_REV_SILENT_MIN < pcan_desc_device ! 13 \<and>
   PCAN_USB_REV_ONESHOT_MIN \<le> pcan_desc_device ! 13 \<and>
   length pcan_desc_string_table = PCAN_STRING_DESC_COUNT \<and>
   pcan_drv_open usb rhport vendor_interface (length vendor_interface) g u =
     (let (ok, u) = open_all usb (map PCAN_EP_DESC [PCAN_USB_EP_CMDOUT, PCAN_USB_EP_CMDIN, PCAN_USB_EP_MSGOUT, PCAN_USB_EP_MSGIN]) u
      in if ok then (37, arm_out_endpoints usb (drv_session_begin rhport g) u) else (0, g, u))"
proof -
  have c: "length pcan_desc_device = unat (pcan_desc_device ! 0)" "pcan_desc_device ! 13 = 0x54"
    "length s_fs_config_desc = 46" "take 2 (drop 2 s_fs_config_desc) = u16_le 46" "length pcan_desc_string_table = 6"
    by code_simp+
  have v: "vendor_interface ! 5 = 0xFF" "vendor_interface ! 4 = 4" "length vendor_interface = 37"
    by (simp_all add: vendor_interface_eq)
  have o: "pcan_drv_open usb rhport vendor_interface (length vendor_interface) g u =
      (let (ok, u) = open_all usb (map PCAN_EP_DESC [PCAN_USB_EP_CMDOUT, PCAN_USB_EP_CMDIN, PCAN_USB_EP_MSGOUT, PCAN_USB_EP_MSGIN]) u
       in if ok then (37, arm_out_endpoints usb (drv_session_begin rhport g) u) else (0, g, u))"
    unfolding pcan_drv_open_def v by (simp add: open_own_endpoints split_beta Let_def)
  show ?thesis using c o by (simp add: pcan_desc_configuration_def)
qed

end
