(* ===== verification/Usb_Delivery.thy ===== *)
theory Usb_Delivery
  imports Usb_Session Usb_Descriptors
begin

text \<open>
  What the USB glue delivers: every batch to the host once, every host frame into the ring, OUT
  endpoints that never stay dead; and the one way in which it stops: a deferred submission that
  TinyUSB drops. The last subsection has a concrete device stack on which the properties are applied.
\<close>

subsection \<open>Re-arming with room in the ring\<close>

text \<open>With room for the pending frames and a stack that accepts the transfer, one run of the deferred
  function empties the pending frames and re-arms the endpoint.\<close>

lemma deferred_rearms:
  assumes "usbd_documented usb v" "pending_wf g" "gl_itf_open g" "gl_msg_out_needs_rearm g"
    and "length r + length (pending_frames g) \<le> cap" "\<And>u. fst (edpt_xfer usb 2 [] u)"
    and "usb_glue_msg_out_deferred (list_push cap) usb (gl_generation g) g r u = (g', r', u')"
  shows "r' = r @ pending_frames g \<and> \<not> gl_msg_out_needs_rearm g' \<and> v_armed v u' 2"
  using assms(2-5,7)
proof (induction "length (pending_frames g)" arbitrary: g r)
  case 0
  then have z: "\<not> gl_pending_index g < gl_pending_count g"
    using pending_frames_Nil [of g] by (auto simp: pending_wf_def)
  have "usb_glue_msg_out_deferred (list_push cap) usb (gl_generation g) g r u =
      (let (g', u) = msg_out_rearm usb (gl_generation g) g u in (g', r, u))"
    by (subst usb_glue_msg_out_deferred.simps) (use 0 z in simp)
  then show ?case using 0 assms(6)
    by (auto simp: msg_out_rearm_def usbd_laws [OF assms(1)] split_beta Let_def split: if_splits)
next
  case (Suc n)
  have lt: "gl_pending_index g < gl_pending_count g"
    using Suc.hyps(2) Suc.prems(1) pending_frames_Nil [of g] by (auto simp: pending_wf_def)
  note p = pending_step [OF Suc.prems(1) lt]
  let ?f = "gl_pending g ! unat (gl_pending_index g)"
  note same = pending_advance_same [of g]
  have room: "length r < cap" using Suc.prems(4) p(2) by simp
  have "usb_glue_msg_out_deferred (list_push cap) usb (gl_generation g) g r u =
      usb_glue_msg_out_deferred (list_push cap) usb (gl_generation g) (pending_advance g) (r @ [?f]) u"
    by (subst usb_glue_msg_out_deferred.simps) (use Suc.prems(2,3) lt room in \<open>simp add: list_push_def\<close>)
  moreover have "gl_generation g = gl_generation (pending_advance g)" using same(1) by (simp add: same_session_def)
  ultimately have "usb_glue_msg_out_deferred (list_push cap) usb (gl_generation (pending_advance g)) (pending_advance g)
      (r @ [?f]) u = (g', r', u')"
    using Suc.prems(5) by simp
  moreover have "gl_itf_open (pending_advance g)" using same(1) Suc.prems(2) by (simp add: same_session_def)
  ultimately have "r' = (r @ [?f]) @ pending_frames (pending_advance g) \<and> \<not> gl_msg_out_needs_rearm g' \<and> v_armed v u' 2"
    using Suc.hyps(1) [of "pending_advance g" "r @ [?f]"] Suc.hyps(2) Suc.prems(3,4) p same(2) by simp
  then show ?case using p(2) by simp
qed

subsection \<open>Properties\<close>

text \<open>C3. Batches for the host are delivered exactly once and in order, over failed submissions, failed
  transfers, bus resets and re-enumerations: what the host received is what the sender was told is
  done, plus at most the one batch whose completion it has not collected; whatever the controller
  is sending is the sender's current batch, not received yet, and the transfer buffer holds it.\<close>

theorem ep2_in_exactly_once:
  assumes "usbd_documented usb v" "usb_is v u None (\<lambda>_. False) []" "(usb_move api usb v)\<^sup>*\<^sup>* (usb_sys_start u) s"
  shows "(uy_wire s = uy_released s \<or>
      (\<exists>b. uy_batch s = Some b \<and> gl_in_state (uy_glue s) = MSG_IN_COMPLETE \<and> uy_wire s = uy_released s @ [b])) \<and>
    (\<forall>bs. v_in v (uy_usb s) = Some bs \<longrightarrow> uy_batch s = Some bs \<and> uy_wire s = uy_released s \<and>
      take (length bs) (gl_msg_in (uy_glue s)) = bs)"
  using usb_reachable_ok(1) [OF assms] by (auto simp: in_ok_def in_inv_def split: if_splits)

text \<open>C9. Host frames are not lost while a connection lasts: what the transfers of this connection
  decoded to is what was pushed into the transmit ring followed by what is pending, so the endpoint
  is armed for the next transfer only when everything is in the ring. While the interface is open
  each OUT endpoint is armed or marked for a retry, never neither; and a retry that finds room in
  the ring and a stack that takes the transfer completes the job in one run.\<close>

theorem ep2_out_lossless:
  assumes "usbd_documented usb v" "usb_is v u None (\<lambda>_. False) []" "(usb_move api usb v)\<^sup>*\<^sup>* (usb_sys_start u) s"
  shows "uy_decoded s = uy_pushed s @ pending_frames (uy_glue s) \<and>
    (v_armed v (uy_usb s) PCAN_USB_EP_MSGOUT \<longrightarrow> uy_decoded s = uy_pushed s) \<and>
    (gl_itf_open (uy_glue s) \<longrightarrow>
      (v_armed v (uy_usb s) PCAN_USB_EP_MSGOUT \<noteq> gl_msg_out_needs_rearm (uy_glue s)) \<and>
      (v_armed v (uy_usb s) PCAN_USB_EP_CMDOUT \<noteq> gl_cmd_out_needs_rearm (uy_glue s))) \<and>
    (gl_itf_open (uy_glue s) \<and> gl_msg_out_needs_rearm (uy_glue s) \<and>
      length (uy_ring s) + 32 \<le> cap \<and> (\<forall>u. fst (edpt_xfer usb PCAN_USB_EP_MSGOUT [] u)) \<longrightarrow>
      (let t = run_call usb cap (MsgOutDeferred (gl_generation (uy_glue s))) s
       in v_armed v (uy_usb t) PCAN_USB_EP_MSGOUT \<and> uy_pushed t = uy_decoded s))"
proof -
  note O = usb_reachable_ok(2) [OF assms]
  have w: "pending_wf (uy_glue s)" using O by (simp add: out_ok_simp)
  have l: "length (pending_frames (uy_glue s)) \<le> 32" using w by (auto simp: pending_wf_def pending_frames_def)
  have "v_armed v (uy_usb s) 2 \<Longrightarrow> uy_decoded s = uy_pushed s"
    using O pending_frames_Nil [OF w] by (auto simp: out_ok_simp)
  moreover have "let t = run_call usb cap (MsgOutDeferred (gl_generation (uy_glue s))) s
      in v_armed v (uy_usb t) 2 \<and> uy_pushed t = uy_decoded s"
    if "gl_itf_open (uy_glue s)" "gl_msg_out_needs_rearm (uy_glue s)" "length (uy_ring s) + 32 \<le> cap"
      "\<And>u. fst (edpt_xfer usb 2 [] u)"
  proof -
    obtain g r u where d: "usb_glue_msg_out_deferred (list_push cap) usb (gl_generation (uy_glue s)) (uy_glue s)
        (uy_ring s) (uy_usb s) = (g, r, u)"
      by (cases "usb_glue_msg_out_deferred (list_push cap) usb (gl_generation (uy_glue s)) (uy_glue s)
        (uy_ring s) (uy_usb s)") auto
    have "length (uy_ring s) + length (pending_frames (uy_glue s)) \<le> cap" using that(3) l by simp
    from deferred_rearms [OF assms(1) w that(1,2) this that(4) d] show ?thesis
      using O by (simp add: d Let_def out_ok_simp)
  qed
  ultimately show ?thesis using O by (auto simp: out_ok_simp)
qed

text \<open>A move within a connection.\<close>

definition same_connection :: "'s sem_api \<Rightarrow> 'u usbd \<Rightarrow> 'u usb_view \<Rightarrow> 'u usb_sys \<Rightarrow> 'u usb_sys \<Rightarrow> bool" where
  "same_connection api usb v s t \<longleftrightarrow> usb_move api usb v s t \<and> gl_generation (uy_glue t) = gl_generation (uy_glue s)"

definition stalled :: "'u usb_view \<Rightarrow> 'u usb_sys \<Rightarrow> bool" where
  "stalled v s \<longleftrightarrow> gl_in_state (uy_glue s) = MSG_IN_QUEUED \<and> (\<forall>gen. MsgInDeferred gen \<notin> set (v_deferred v (uy_usb s)))"

lemma service_deferred:
  assumes "usbd_documented usb v"
  shows "MsgInDeferred gen \<in> set (v_deferred v (usb_glue_service usb g u)) \<Longrightarrow> MsgInDeferred gen \<in> set (v_deferred v u)"
  using deferred_by [OF assms, of "CmdOutDeferred (gl_generation g)" u]
    deferred_by [OF assms, of "MsgOutDeferred (gl_generation g)"]
  by (fastforce simp: usb_glue_service_def Let_def split: if_splits)

lemma stalled_stays:
  assumes "usbd_documented usb v" "in_ok v s" "out_ok v s" "stalled v s"
  shows "same_connection api usb v s t \<Longrightarrow> stalled v t \<and> uy_wire t = uy_wire s \<and> uy_released t = uy_released s"
  unfolding same_connection_def
proof (elim conjE)
  assume m: "usb_move api usb v s t" and gen: "gl_generation (uy_glue t) = gl_generation (uy_glue s)"
  have q: "gl_in_state (uy_glue s) = MSG_IN_QUEUED" using assms(4) by (simp add: stalled_def)
  have i: "v_in v (uy_usb s) = None" "uy_batch s \<noteq> None" using assms(2) q by (auto simp: in_ok_def in_inv_def)
  show ?thesis using m
  proof cases
    case (fill b)
    then show ?thesis using i by simp
  next
    case (send b)
    have "b \<noteq> []" using assms(2) send by (simp add: in_ok_def in_inv_def)
    then show ?thesis using send q assms(4)
      by (simp add: present_def usb_glue_send_msg_batch_def stalled_def Let_def)
  next
    case service
    then show ?thesis using assms(4) service_deferred [OF assms(1)] by (auto simp: stalled_def)
  next
    case (deferred c cs u cap)
    have no: "MsgInDeferred g \<notin> set (c # cs)" for g using deferred(2) assms(4) by (simp add: stalled_def)
    define s1 where "s1 = s\<lparr>uy_usb := u\<rparr>"
    have s1: "out_ok v s1" "gl_in_state (uy_glue s1) = MSG_IN_QUEUED" "v_deferred v (uy_usb s1) = cs"
      using deferred(3) assms(3) q by (simp_all add: s1_def out_ok_simp usb_is_def)
    have "stalled v (run_call usb cap c s1) \<and> uy_wire (run_call usb cap c s1) = uy_wire s1 \<and>
        uy_released (run_call usb cap c s1) = uy_released s1"
    proof (cases c)
      case (MsgOutDeferred gen)
      obtain g r u1 where d: "usb_glue_msg_out_deferred (list_push cap) usb gen (uy_glue s1) (uy_ring s1) (uy_usb s1) = (g, r, u1)"
        by (cases "usb_glue_msg_out_deferred (list_push cap) usb gen (uy_glue s1) (uy_ring s1) (uy_usb s1)") auto
      have w: "pending_wf (uy_glue s1)" using s1(1) by (simp add: out_ok_simp)
      from msg_out_deferred_drains [OF assms(1) w d] show ?thesis
        using MsgOutDeferred d s1 no by (simp add: stalled_def drained_def same_session_def same_in_def)
    next
      case (CmdOutDeferred gen)
      obtain g u1 where d: "usb_glue_cmd_out_deferred usb gen (uy_glue s1) (uy_usb s1) = (g, u1)"
        by (cases "usb_glue_cmd_out_deferred usb gen (uy_glue s1) (uy_usb s1)") auto
      from cmd_deferred_keeps [OF assms(1) d] show ?thesis
        using CmdOutDeferred d s1 no by (simp add: stalled_def same_in_def)
    next
      case (MsgInDeferred gen)
      then show ?thesis using no [of gen] by simp
    qed
    then show ?thesis using deferred(1) by (simp add: s1_def)
  next
    case (in_done bs u ok)
    then show ?thesis using i by simp
  next
    case (msg_out u ok n buf)
    have "gl_in_state (msg_out_complete ok n buf (uy_glue s)) = gl_in_state (uy_glue s)"
      by (simp add: msg_out_complete_def usb_glue_handle_msg_def count_reset_drops_def Let_def)
    then show ?thesis using msg_out assms(4) by (simp add: stalled_def usb_is_def)
  next
    case (cmd_out u ok n buf st st' g' u')
    obtain x c where "same_in g' (uy_glue s)" "v_deferred v u' = v_deferred v u"
      by (rule cmd_complete_keeps [OF assms(1) cmd_out(4)])
    then show ?thesis using cmd_out assms(4) by (simp add: stalled_def usb_is_def same_in_def)
  next
    case consume
    then show ?thesis using assms(4) by (simp add: stalled_def)
  next
    case (reset u)
    have "gl_generation (pcan_drv_reset (uy_glue s)) = gl_generation (uy_glue s) + 1"
      by (simp add: pcan_drv_reset_def drop_session_def count_reset_drops_def Let_def)
    then show ?thesis using gen reset by simp
  next
    case (connect rhport d max_len n g' u')
    note views = open_endpoints_keeps [OF assms(1), of 4 "desc_next d" "uy_usb s"]
    have "g' = uy_glue s \<and> v_deferred v u' = v_deferred v (uy_usb s) \<or> gl_generation g' = gl_generation (uy_glue s) + 1"
      using connect(3) views unfolding pcan_drv_open_def arm_out_endpoints_def drv_session_begin_def drop_session_def
      by (auto simp: Let_def split_beta split: if_splits)
    then show ?thesis using gen connect assms(4) by (auto simp: stalled_def)
  qed
qed

text \<open>C35. A batch whose deferred submission TinyUSB drops is stuck: in the state QUEUED, with no call for
  it waiting, nothing short of a bus reset ever submits it, however often the sender presents it and
  the service function runs: the host receives nothing more and the sender is never released. (The
  OUT endpoints are protected against the same loss by their flags.)\<close>

theorem lost_deferral_stalls:
  assumes "usbd_documented usb v" "usb_is v u None (\<lambda>_. False) []" "(usb_move api usb v)\<^sup>*\<^sup>* (usb_sys_start u) s"
    and "stalled v s" "(same_connection api usb v)\<^sup>*\<^sup>* s t"
  shows "stalled v t \<and> uy_wire t = uy_wire s \<and> uy_released t = uy_released s"
proof -
  have "stalled v t \<and> uy_wire t = uy_wire s \<and> uy_released t = uy_released s \<and> in_ok v t \<and> out_ok v t"
    using assms(5)
  proof (induction rule: rtranclp_induct)
    case base
    then show ?case using assms(4) usb_reachable_ok [OF assms(1-3)] by simp
  next
    case (step x y)
    have "usb_move api usb v x y" using step.hyps(2) by (simp add: same_connection_def)
    from usb_move_ok [OF assms(1) this] show ?case
      using stalled_stays [OF assms(1) _ _ _ step.hyps(2)] step.IH by simp
  qed
  then show ?thesis by blast
qed

subsection \<open>A concrete device stack\<close>

text \<open>The transfer on EP2 IN, the armed endpoints, the deferred calls and the room of their queue.\<close>

type_synonym demo_usb = "u8 list option \<times> u8 list \<times> glue_call list \<times> nat"

definition demo_usbd :: "demo_usb usbd" where
  "demo_usbd = \<lparr>edpt_xfer = (\<lambda>ep bs (i, a, d, n).
       if ep = PCAN_USB_EP_MSGIN \<and> i \<noteq> None then (False, i, a, d, n)
       else (True, if ep = PCAN_USB_EP_MSGIN then Some bs else i, ep # a, d, n)),
     edpt_claim = (\<lambda>ep u. (True, u)), edpt_release = (\<lambda>ep u. u), edpt_open = (\<lambda>d u. (True, u)),
     defer_func = (\<lambda>c (i, a, d, n). (i, a, if length d < n then d @ [c] else d, n)), mounted = (\<lambda>u. True)\<rparr>"

definition demo_view :: "demo_usb usb_view" where
  "demo_view = \<lparr>v_in = fst, v_armed = (\<lambda>(i, a, d, n) ep. ep \<in> set a), v_deferred = (\<lambda>(i, a, d, n). d)\<rparr>"

lemma demo_usb_documented: "usbd_documented demo_usbd demo_view"
  by (auto simp: usbd_documented_def usb_is_def demo_usbd_def demo_view_def fun_eq_iff)

lemma demo_usb_idle: "usb_is demo_view (None, [], [], n) None (\<lambda>_. False) []"
  by (simp add: usb_is_def demo_view_def)

definition demo_connected :: "nat \<Rightarrow> demo_usb usb_sys" where
  "demo_connected n =
     (let s = usb_sys_start (None, [], [], n);
          (k, g, u) = pcan_drv_open demo_usbd 0 vendor_interface 37 (uy_glue s) (uy_usb s)
      in s\<lparr>uy_glue := g, uy_usb := u, uy_decoded := [], uy_pushed := []\<rparr>)"

lemma demo_connected_move:
  "usb_move pair_sems demo_usbd demo_view (usb_sys_start (None, [], [], n)) (demo_connected n)"
proof -
  let ?s = "usb_sys_start (None, [], [], n) :: demo_usb usb_sys"
  have "\<not> gl_itf_open (uy_glue ?s)"
    by (simp add: usb_sys_start_def usb_glue_bind_def pcan_drv_init_def drop_session_def glue_zero_def)
  moreover obtain k g u where o: "pcan_drv_open demo_usbd 0 vendor_interface 37 (uy_glue ?s) (uy_usb ?s) = (k, g, u)"
    by (metis prod.collapse)
  ultimately have "usb_move pair_sems demo_usbd demo_view ?s (?s\<lparr>uy_glue := g, uy_usb := u, uy_decoded := [], uy_pushed := []\<rparr>)"
    by (rule usb_move.connect)
  then show ?thesis by (simp only: demo_connected_def Let_def o prod.case)
qed

lemma demo_connected_reachable:
  "(usb_move pair_sems demo_usbd demo_view)\<^sup>*\<^sup>* (usb_sys_start (None, [], [], n)) (demo_connected n)"
  by (rule r_into_rtranclp) (rule demo_connected_move)

text \<open>The sender presents a batch; \<open>n\<close> is the room of the deferred queue.\<close>

definition demo_presented :: "nat \<Rightarrow> demo_usb usb_sys" where
  "demo_presented n = present demo_usbd [2, 0, 7] ((demo_connected n)\<lparr>uy_batch := Some [2, 0, 7]\<rparr>)"

lemma demo_presented_reachable:
  "(usb_move pair_sems demo_usbd demo_view)\<^sup>*\<^sup>* (usb_sys_start (None, [], [], n)) (demo_presented n)"
proof -
  let ?f = "(demo_connected n)\<lparr>uy_batch := Some [2, 0, 7]\<rparr>"
  have "uy_batch (demo_connected n) = None"
    by (simp add: demo_connected_def usb_sys_start_def Let_def split_beta)
  then have 1: "usb_move pair_sems demo_usbd demo_view (demo_connected n) ?f" by (rule usb_move.fill) simp_all
  have 2: "usb_move pair_sems demo_usbd demo_view ?f (demo_presented n)"
    unfolding demo_presented_def by (rule usb_move.send) simp
  show ?thesis
    by (rule rtranclp.rtrancl_into_rtrancl [OF rtranclp.rtrancl_into_rtrancl [OF demo_connected_reachable 1] 2])
qed

text \<open>The deferred submission runs and the host takes the batch.\<close>

definition demo_submitted :: "demo_usb usb_sys" where
  "demo_submitted = (let s = demo_presented 1
     in run_call demo_usbd 0 (MsgInDeferred 2) (s\<lparr>uy_usb := (None, [2, 1], [], 1)\<rparr>))"

definition demo_received :: "demo_usb usb_sys" where
  "demo_received = demo_submitted\<lparr>uy_glue := msg_in_complete True (uy_glue demo_submitted),
     uy_usb := (None, [0x82, 2, 1], [], 1), uy_wire := uy_wire demo_submitted @ [[2, 0, 7]]\<rparr>"

lemma demo_presented_usb:
  "uy_usb (demo_presented 1) = (None, [2, 1], [MsgInDeferred 2], 1)"
  "uy_usb (demo_presented 0) = (None, [2, 1], [], 0)"
  "gl_in_state (uy_glue (demo_presented 0)) = MSG_IN_QUEUED" "uy_wire (demo_presented 0) = []"
  by code_simp+

lemma demo_submitted_usb:
  "uy_usb demo_submitted = (Some [2, 0, 7], [0x82, 2, 1], [], 1)" "uy_wire demo_submitted = []" "uy_released demo_submitted = []"
  by code_simp+

lemma demo_received_reachable:
  "(usb_move pair_sems demo_usbd demo_view)\<^sup>*\<^sup>* (usb_sys_start (None, [], [], 1)) demo_received"
proof -
  have 1: "usb_move pair_sems demo_usbd demo_view (demo_presented 1) demo_submitted"
    unfolding demo_submitted_def Let_def
    by (rule usb_move.deferred [where cs = "[]"]) (simp_all add: demo_presented_usb(1) [unfolded One_nat_def] demo_view_def usb_is_def)
  have "usb_move pair_sems demo_usbd demo_view demo_submitted (demo_submitted\<lparr>uy_glue := msg_in_complete True (uy_glue demo_submitted),
      uy_usb := (None, [0x82, 2, 1], [], 1),
      uy_wire := if True then uy_wire demo_submitted @ [[2, 0, 7]] else uy_wire demo_submitted\<rparr>)"
    by (rule usb_move.in_done) (simp_all add: demo_submitted_usb demo_view_def usb_is_def)
  then have 2: "usb_move pair_sems demo_usbd demo_view demo_submitted demo_received" by (simp add: demo_received_def)
  show ?thesis
    by (rule rtranclp.rtrancl_into_rtrancl [OF rtranclp.rtrancl_into_rtrancl [OF demo_presented_reachable 1] 2])
qed

lemma demo_received_fields:
  "uy_wire demo_received = [[2, 0, 7]]" "uy_released demo_received = []"
  by (simp_all add: demo_received_def demo_submitted_usb)

theorem ep2_in_exactly_once_witness:
  "uy_batch demo_received = Some [2, 0, 7] \<and> gl_in_state (uy_glue demo_received) = MSG_IN_COMPLETE \<and>
   uy_wire demo_received = [[2, 0, 7]] \<and> uy_released demo_received = []"
  using ep2_in_exactly_once [OF demo_usb_documented demo_usb_idle demo_received_reachable]
  by (simp add: demo_received_fields)

lemma demo_connected_fields:
  "gl_itf_open (uy_glue (demo_connected 0))" "\<not> gl_msg_out_needs_rearm (uy_glue (demo_connected 0))"
  by code_simp+

theorem ep2_out_lossless_witness:
  "v_armed demo_view (uy_usb (demo_connected 0)) PCAN_USB_EP_MSGOUT \<and>
   uy_decoded (demo_connected 0) = uy_pushed (demo_connected 0)"
  using ep2_out_lossless [OF demo_usb_documented demo_usb_idle demo_connected_reachable [of 0], of 0] demo_connected_fields
  by auto

text \<open>With no room in the deferred queue the first batch is lost at once; presenting it again changes
  nothing.\<close>

theorem lost_deferral_stalls_witness:
  "stalled demo_view (present demo_usbd [2, 0, 7] (demo_presented 0)) \<and>
   uy_wire (present demo_usbd [2, 0, 7] (demo_presented 0)) = []"
proof -
  have b: "uy_batch (demo_presented 0) = Some [2, 0, 7]" by code_simp
  have st: "stalled demo_view (demo_presented 0)"
    using demo_presented_usb(2,3) by (simp add: stalled_def demo_view_def)
  have "usb_move pair_sems demo_usbd demo_view (demo_presented 0) (present demo_usbd [2, 0, 7] (demo_presented 0))"
    by (rule usb_move.send [OF b])
  moreover have "gl_generation (uy_glue (present demo_usbd [2, 0, 7] (demo_presented 0))) = gl_generation (uy_glue (demo_presented 0))"
    by code_simp
  ultimately have "(same_connection pair_sems demo_usbd demo_view)\<^sup>*\<^sup>* (demo_presented 0)
      (present demo_usbd [2, 0, 7] (demo_presented 0))"
    by (intro r_into_rtranclp) (simp add: same_connection_def)
  from lost_deferral_stalls [OF demo_usb_documented demo_usb_idle demo_presented_reachable st this]
  show ?thesis by (simp add: demo_presented_usb(4))
qed

end
