(* ===== verification/Usb_Tx.thy ===== *)
theory Usb_Tx
  imports Host_Codec
begin

text \<open>
  \<open>usb_tx_task\<close> and \<open>usb_tx_flush_pending\<close> of \<open>main/main.c\<close>: frames from the receive ring, calibration
  records and the control task's error masks are packed into EP2-IN batches and handed to the USB
  glue. The ring, the event queue, the clock and the glue belong to other tasks; the task's calls on
  them are the record \<open>usb_link\<close> on an abstract environment. Flushing waits for the host as long as
  it takes, so the loops are partial functions and \<open>None\<close> means that a pass does not return.
\<close>

subsection \<open>State\<close>

definition USBTX_POLL_MS :: u32 where [simp]: "USBTX_POLL_MS = 5"
definition USBTX_RETRY_MS :: u32 where [simp]: "USBTX_RETRY_MS = 1"
definition USBTX_MAX_DRAIN :: nat where [simp]: "USBTX_MAX_DRAIN = 96"

record 'e usb_link =
  lk_service :: "'e \<Rightarrow> 'e"
  lk_send :: "u8 list \<Rightarrow> 'e \<Rightarrow> nat \<times> 'e"
  lk_mounted :: "'e \<Rightarrow> bool"
  lk_delay :: "u32 \<Rightarrow> 'e \<Rightarrow> 'e"
  lk_pop :: "u32 \<Rightarrow> 'e \<Rightarrow> pcan_frame option \<times> 'e"
  lk_event :: "'e \<Rightarrow> u8 option \<times> 'e"
  lk_now16 :: "'e \<Rightarrow> u16 \<times> 'e"
  lk_now_us :: "'e \<Rightarrow> u64 \<times> 'e"

text \<open>What was taken for the host, as ghosts: the items in order, the requests in the current batch, and
  the batches the glue accepted with the requests in each.\<close>

datatype tx_item = ItemFrame pcan_frame | ItemError u8

record 'e usb_tx =
  ut_batch :: pcan_batch
  ut_last_calib_us :: u64
  ut_busy_retries :: u32
  ut_env :: 'e
  ut_taken :: "tx_item list"
  ut_open :: "batch_req list"
  ut_shipped :: "(batch_req list \<times> u8 list) list"

definition usb_tx_start :: "'e usb_link \<Rightarrow> pcan_batch \<Rightarrow> 'e \<Rightarrow> 'e usb_tx" where
  "usb_tx_start lk b e =
     (let (now, e) = lk_now_us lk e
      in \<lparr>ut_batch = pcan_msg_batch_reset b, ut_last_calib_us = now, ut_busy_retries = 0, ut_env = e,
          ut_taken = [], ut_open = [], ut_shipped = []\<rparr>)"

subsection \<open>Flushing\<close>

text \<open>One attempt: whether the glue accepted the batch, and the state after it.\<close>

definition flush_attempt :: "'e usb_link \<Rightarrow> 'e usb_tx \<Rightarrow> bool \<times> 'e usb_tx" where
  "flush_attempt lk s =
     (let bytes = batch_bytes (ut_batch s);
          e = lk_service lk (ut_env s);
          (n, e) = lk_send lk bytes e
      in if n = b_len (ut_batch s)
         then (True, s\<lparr>ut_batch := pcan_msg_batch_reset (ut_batch s), ut_env := e,
                       ut_shipped := ut_shipped s @ [(ut_open s, bytes)], ut_open := []\<rparr>)
         else let m = lk_mounted lk e
              in (False, s\<lparr>ut_busy_retries := if m then ut_busy_retries s + 1 else ut_busy_retries s,
                           ut_env := lk_delay lk (if m then USBTX_RETRY_MS else USBTX_POLL_MS) e\<rparr>))"

partial_function (option) usb_tx_flush_pending :: "'e usb_link \<Rightarrow> 'e usb_tx \<Rightarrow> 'e usb_tx option" where
  "usb_tx_flush_pending lk s =
     (if pcan_msg_batch_count (ut_batch s) = 0 then Some s
      else let (accepted, s) = flush_attempt lk s in if accepted then Some s else usb_tx_flush_pending lk s)"

subsection \<open>A pass of the task\<close>

text \<open>Adding a record, after a flush when it does not fit; the request may read the clock.\<close>

definition try_add :: "batch_req \<Rightarrow> 'e usb_tx \<Rightarrow> bool \<times> 'e usb_tx" where
  "try_add r s =
     (let (ok, b) = batch_request (ut_batch s) r
      in (ok, if ok then s\<lparr>ut_batch := b, ut_open := ut_open s @ [r]\<rparr> else s))"

definition add_or_flush :: "'e usb_link \<Rightarrow> ('e \<Rightarrow> batch_req \<times> 'e) \<Rightarrow> 'e usb_tx \<Rightarrow> 'e usb_tx option" where
  "add_or_flush lk req s =
     (let (r, e) = req (ut_env s);
          (ok, s) = try_add r (s\<lparr>ut_env := e\<rparr>)
      in if ok then Some s
         else case usb_tx_flush_pending lk s of
           None \<Rightarrow> None
         | Some s \<Rightarrow> let (r, e) = req (ut_env s) in Some (snd (try_add r (s\<lparr>ut_env := e\<rparr>))))"

definition put_frame :: "'e usb_link \<Rightarrow> pcan_frame \<Rightarrow> 'e usb_tx \<Rightarrow> 'e usb_tx option" where
  "put_frame lk f s = add_or_flush lk (\<lambda>e. (ReqFrame f, e)) (s\<lparr>ut_taken := ut_taken s @ [ItemFrame f]\<rparr>)"

definition put_error :: "'e usb_link \<Rightarrow> u8 \<Rightarrow> 'e usb_tx \<Rightarrow> 'e usb_tx option" where
  "put_error lk err_mask s =
     add_or_flush lk (\<lambda>e. let (t, e) = lk_now16 lk e in (ReqError err_mask t, e)) (s\<lparr>ut_taken := ut_taken s @ [ItemError err_mask]\<rparr>)"

text \<open>Coalescing at most \<open>USBTX_MAX_DRAIN\<close> more frames.\<close>

fun drain_ring :: "nat \<Rightarrow> 'e usb_link \<Rightarrow> 'e usb_tx \<Rightarrow> 'e usb_tx option" where
  "drain_ring 0 lk s = Some s"
| "drain_ring (Suc n) lk s =
     (case lk_pop lk 0 (ut_env s) of
        (None, e) \<Rightarrow> Some (s\<lparr>ut_env := e\<rparr>)
      | (Some f, e) \<Rightarrow> Option.bind (put_frame lk f (s\<lparr>ut_env := e\<rparr>)) (drain_ring n lk))"

definition take_frames :: "'e usb_link \<Rightarrow> 'e usb_tx \<Rightarrow> 'e usb_tx option" where
  "take_frames lk s =
     (case lk_pop lk USBTX_POLL_MS (lk_service lk (ut_env s)) of
        (None, e) \<Rightarrow> Some (s\<lparr>ut_env := e\<rparr>)
      | (Some f, e) \<Rightarrow> Option.bind (put_frame lk f (s\<lparr>ut_env := e\<rparr>)) (drain_ring USBTX_MAX_DRAIN lk))"

text \<open>The calibration record ships alone: flush, add, flush.\<close>

definition calib_step :: "'e usb_link \<Rightarrow> 'e usb_tx \<Rightarrow> 'e usb_tx option" where
  "calib_step lk s =
     (let (now, e) = lk_now_us lk (ut_env s); s = s\<lparr>ut_env := e\<rparr>
      in if now - ut_last_calib_us s \<ge> PCAN_USB_TS_CALIB_PERIOD_MS * 1000 then
           Option.bind (usb_tx_flush_pending lk s) (\<lambda>s.
             let (t, e) = lk_now16 lk (ut_env s)
             in Option.bind (usb_tx_flush_pending lk (snd (try_add (ReqCalib t) (s\<lparr>ut_env := e\<rparr>)))) (\<lambda>s.
               let (now, e) = lk_now_us lk (ut_env s) in Some (s\<lparr>ut_env := e, ut_last_calib_us := now\<rparr>)))
         else Some s)"

partial_function (option) fold_errors :: "'e usb_link \<Rightarrow> 'e usb_tx \<Rightarrow> 'e usb_tx option" where
  "fold_errors lk s =
     (case lk_event lk (ut_env s) of
        (None, e) \<Rightarrow> Some (s\<lparr>ut_env := e\<rparr>)
      | (Some err_mask, e) \<Rightarrow> Option.bind (put_error lk err_mask (s\<lparr>ut_env := e\<rparr>)) (fold_errors lk))"

definition usb_tx_pass :: "'e usb_link \<Rightarrow> 'e usb_tx \<Rightarrow> 'e usb_tx option" where
  "usb_tx_pass lk s =
     Option.bind (take_frames lk s) (\<lambda>s.
       Option.bind (calib_step lk s) (\<lambda>s.
         Option.bind (fold_errors lk s) (usb_tx_flush_pending lk)))"

fun usb_tx_passes :: "nat \<Rightarrow> 'e usb_link \<Rightarrow> 'e usb_tx \<Rightarrow> 'e usb_tx option" where
  "usb_tx_passes 0 lk s = Some s"
| "usb_tx_passes (Suc n) lk s = Option.bind (usb_tx_pass lk s) (usb_tx_passes n lk)"

subsection \<open>What a batch holds\<close>

text \<open>\<open>packed b rs\<close>: the batch is a reset batch with the frames and error records \<open>rs\<close>, all accepted;
  \<open>packed_calib b rs\<close>: a reset batch with one calibration record and nothing else.\<close>

definition packed :: "pcan_batch \<Rightarrow> batch_req list \<Rightarrow> bool" where
  "packed b rs \<longleftrightarrow> (\<exists>b0 its. length (b_buf b0) = 64 \<and> (\<forall>it \<in> set its. item_ok it) \<and> rs = map item_req its \<and>
     batch_items (pcan_msg_batch_reset b0) its = Some b)"

definition packed_calib :: "pcan_batch \<Rightarrow> batch_req list \<Rightarrow> bool" where
  "packed_calib b rs \<longleftrightarrow> (\<exists>b0 t. length (b_buf b0) = 64 \<and> rs = [ReqCalib t] \<and>
     pcan_msg_batch_add_calib_ts (pcan_msg_batch_reset b0) t = (True, b))"

lemma batch_items_append:
  "batch_items b (xs @ ys) = Option.bind (batch_items b xs) (\<lambda>b. batch_items b ys)"
  by (induction xs arbitrary: b) (auto split: prod.splits bool.splits)

lemma packed_reset [simp, intro]: "length (b_buf b) = 64 \<Longrightarrow> packed (pcan_msg_batch_reset b) []"
  unfolding packed_def by (intro exI [of _ b] exI [of _ "[]"]) simp

lemma packed_step:
  assumes "packed b rs" "item_ok it" "batch_request b (item_req it) = (True, b')"
  shows "packed b' (rs @ [item_req it])"
proof -
  obtain b0 its where "length (b_buf b0) = 64" "\<forall>it \<in> set its. item_ok it" "rs = map item_req its"
    "batch_items (pcan_msg_batch_reset b0) its = Some b"
    using assms(1) by (auto simp: packed_def)
  then show ?thesis
    unfolding packed_def using assms(2,3)
    by (intro exI [of _ b0] exI [of _ "its @ [it]"]) (simp add: batch_items_append)
qed

lemma packed_ok: "packed b rs \<Longrightarrow> batch_ok b"
  unfolding packed_def using batch_items_bytes [OF _ reset_ok] by blast

lemma packed_count:
  assumes "packed b rs"
  shows "b_rec_cnt b = 0 \<longleftrightarrow> rs = []"
proof -
  obtain b0 its where b: "length (b_buf b0) = 64" "\<forall>it \<in> set its. item_ok it" "rs = map item_req its"
    "batch_items (pcan_msg_batch_reset b0) its = Some b"
    using assms by (auto simp: packed_def)
  note B = batch_items_bytes [OF b(4) reset_ok [OF b(1)] b(2)]
  have "length its \<le> 20"
    using B items_bytes_ge3 [OF b(2), of False] by (simp add: batch_ok_def)
  with B b(3) show ?thesis by (auto simp: word_of_nat_eq_0_iff dest!: dvd_imp_le)
qed

lemma packed_calib_ok:
  assumes "packed_calib b rs"
  shows "batch_ok b" "b_rec_cnt b \<noteq> 0" "rs \<noteq> []"
proof -
  obtain b0 t where b0: "length (b_buf b0) = 64" "rs = [ReqCalib t]"
    and b: "pcan_msg_batch_add_calib_ts (pcan_msg_batch_reset b0) t = (True, b)"
    using assms by (auto simp: packed_calib_def)
  show "batch_ok b"
    using batch_request_ok [OF reset_ok [OF b0(1)], of "ReqCalib t"] b by simp
  show "rs \<noteq> []" using b0 by simp
  have "b = batch_commit (pcan_msg_batch_reset b0) (b_ts (pcan_msg_batch_reset b0))
     (status_record False PCAN_USB_REC_TS 0 (pcan_put_le16 t) False 0)"
    using b add_status_eq [of "pcan_put_le16 t" "pcan_msg_batch_reset b0" PCAN_USB_REC_TS 0 False 0]
    by (simp add: pcan_msg_batch_add_calib_ts_def split: if_splits)
  then show "b_rec_cnt b \<noteq> 0" by simp
qed

subsection \<open>The invariant of the task\<close>

fun req_items :: "batch_req \<Rightarrow> tx_item list" where
  "req_items (ReqFrame f) = [ItemFrame f]"
| "req_items (ReqError m t) = [ItemError m]"
| "req_items _ = []"

definition requested :: "batch_req list \<Rightarrow> tx_item list" where
  "requested rs = concat (map req_items rs)"

definition shipped_ok :: "batch_req list \<times> u8 list \<Rightarrow> bool" where
  "shipped_ok p \<longleftrightarrow> (\<exists>b. snd p = batch_bytes b \<and> fst p \<noteq> [] \<and> (packed b (fst p) \<or> packed_calib b (fst p)))"

text \<open>\<open>items\<close> is what was taken so far; all of it is in a shipped batch or in the open one.\<close>

definition tx_inv :: "tx_item list \<Rightarrow> 'e usb_tx \<Rightarrow> bool" where
  "tx_inv items s \<longleftrightarrow> items = requested (concat (map fst (ut_shipped s)) @ ut_open s) \<and>
     (\<forall>p \<in> set (ut_shipped s). shipped_ok p)"

definition tx_ok :: "'e usb_tx \<Rightarrow> bool" where
  "tx_ok s \<longleftrightarrow> tx_inv (ut_taken s) s \<and> packed (ut_batch s) (ut_open s)"

text \<open>The rings and queues only hand out frames as C stores them, with eight data bytes.\<close>

definition link_frames_ok :: "'e usb_link \<Rightarrow> bool" where
  "link_frames_ok lk \<longleftrightarrow> (\<forall>w e. pred_option frame_ok (fst (lk_pop lk w e)))"

lemma link_frame: "link_frames_ok lk \<Longrightarrow> lk_pop lk w e = (Some f, e') \<Longrightarrow> frame_ok f"
  by (force simp: link_frames_ok_def dest: spec [of _ w] spec [of _ e])

lemma requested_simps [simp]:
  "requested [] = []" "requested (r # rs) = req_items r @ requested rs"
  "requested (rs @ rs') = requested rs @ requested rs'"
  by (simp_all add: requested_def)

lemma tx_inv_cong [simp]:
  "tx_inv items (s\<lparr>ut_env := e\<rparr>) = tx_inv items s" "tx_inv items (s\<lparr>ut_taken := ts\<rparr>) = tx_inv items s"
  "tx_inv items (s\<lparr>ut_busy_retries := n\<rparr>) = tx_inv items s" "tx_inv items (s\<lparr>ut_last_calib_us := u\<rparr>) = tx_inv items s"
  "tx_inv items (s\<lparr>ut_batch := b\<rparr>) = tx_inv items s"
  by (simp_all add: tx_inv_def)

lemma tx_ok_env [simp]: "tx_ok (s\<lparr>ut_env := e\<rparr>) = tx_ok s" "tx_ok (s\<lparr>ut_last_calib_us := u\<rparr>) = tx_ok s"
  by (simp_all add: tx_ok_def tx_inv_def)

lemma flush_attempt_refused:
  assumes "flush_attempt lk s = (False, s')"
  shows "ut_batch s' = ut_batch s" "ut_open s' = ut_open s" "ut_shipped s' = ut_shipped s" "ut_taken s' = ut_taken s"
  using assms by (auto simp: flush_attempt_def Let_def split: prod.splits if_splits)

lemma flush_attempt_accepted:
  assumes "flush_attempt lk s = (True, s')"
  shows "ut_batch s' = pcan_msg_batch_reset (ut_batch s)" "ut_open s' = []" "ut_taken s' = ut_taken s"
    "ut_shipped s' = ut_shipped s @ [(ut_open s, batch_bytes (ut_batch s))]"
  using assms by (auto simp: flush_attempt_def Let_def split: prod.splits if_splits)

lemma flush_cases:
  assumes "usb_tx_flush_pending lk s = Some s'"
  shows "b_rec_cnt (ut_batch s) = 0 \<and> s' = s \<or>
    b_rec_cnt (ut_batch s) \<noteq> 0 \<and> ut_batch s' = pcan_msg_batch_reset (ut_batch s) \<and> ut_open s' = [] \<and>
      ut_taken s' = ut_taken s \<and> ut_shipped s' = ut_shipped s @ [(ut_open s, batch_bytes (ut_batch s))]"
proof (induction rule: usb_tx_flush_pending.raw_induct [OF _ assms])
  case (1 flush lk s s')
  show ?case
  proof (cases "b_rec_cnt (ut_batch s) = 0")
    case True
    with 1(2) show ?thesis by (simp add: pcan_msg_batch_count_def)
  next
    case False
    obtain acc s1 where a: "flush_attempt lk s = (acc, s1)" by (cases "flush_attempt lk s") auto
    show ?thesis
    proof (cases acc)
      case True
      with 1(2) False a have "s' = s1" by (simp add: pcan_msg_batch_count_def)
      with False flush_attempt_accepted [of lk s s1] a True show ?thesis by simp
    next
      case nacc: False
      with 1(2) False a have "flush lk s1 = Some s'" by (simp add: pcan_msg_batch_count_def)
      from 1(1) [OF this] flush_attempt_refused [of lk s s1] a nacc False show ?thesis by simp
    qed
  qed
qed

text \<open>Flushing from a packed batch or from a lone calibration record ends with an empty batch.\<close>

lemma flush_empties:
  assumes "usb_tx_flush_pending lk s = Some s'" "tx_inv items s"
    and "packed (ut_batch s) (ut_open s) \<or> packed_calib (ut_batch s) (ut_open s)"
  shows "tx_inv items s' \<and> ut_open s' = [] \<and> ut_taken s' = ut_taken s \<and> packed (ut_batch s') [] \<and>
    (\<exists>b. length (b_buf b) = 64 \<and> ut_batch s' = pcan_msg_batch_reset b)"
proof -
  have len: "length (b_buf (ut_batch s)) = 64"
    using assms(3) packed_ok packed_calib_ok(1) by (auto simp: batch_ok_def)
  from flush_cases [OF assms(1)] show ?thesis
  proof (elim disjE conjE)
    assume z: "b_rec_cnt (ut_batch s) = 0" "s' = s"
    then have p: "packed (ut_batch s) (ut_open s)" using assms(3) packed_calib_ok(2) by blast
    then have e: "ut_open s = []" using packed_count z by blast
    with p show ?thesis using z assms(2) by (auto simp: packed_def)
  next
    assume nz: "b_rec_cnt (ut_batch s) \<noteq> 0" and s': "ut_batch s' = pcan_msg_batch_reset (ut_batch s)"
      "ut_open s' = []" "ut_taken s' = ut_taken s"
      "ut_shipped s' = ut_shipped s @ [(ut_open s, batch_bytes (ut_batch s))]"
    have "ut_open s \<noteq> []" using assms(3) nz packed_count packed_calib_ok(3) by blast
    then have "shipped_ok (ut_open s, batch_bytes (ut_batch s))"
      using assms(3) by (auto simp: shipped_ok_def)
    with assms(2) s' len show ?thesis by (auto simp: tx_inv_def)
  qed
qed

lemma packed_frame_step:
  "packed b rs \<Longrightarrow> frame_ok f \<Longrightarrow> batch_request b (ReqFrame f) = (True, b') \<Longrightarrow> packed b' (rs @ [ReqFrame f])"
  using packed_step [of b rs "RxFrame f"] by simp

lemma packed_error_step:
  "packed b rs \<Longrightarrow> batch_request b (ReqError m t) = (True, b') \<Longrightarrow> packed b' (rs @ [ReqError m t])"
  using packed_step [of b rs "RxError m t"] by simp

definition fresh_req :: "(batch_req \<Rightarrow> bool)" where
  "fresh_req r \<longleftrightarrow> (case r of ReqFrame f \<Rightarrow> frame_ok f | ReqError _ _ \<Rightarrow> True | _ \<Rightarrow> False)"

lemma packed_fresh:
  "packed b rs \<Longrightarrow> fresh_req r \<Longrightarrow> batch_request b r = (True, b') \<Longrightarrow> packed b' (rs @ [r])"
  by (cases r) (auto simp: fresh_req_def intro: packed_frame_step packed_error_step simp del: batch_request.simps)

lemma fresh_accepted:
  assumes "length (b_buf b) = 64" "fresh_req r"
  shows "fst (batch_request (pcan_msg_batch_reset b) r)"
proof -
  have "fst (batch_request (pcan_msg_batch_reset b) r)" if "r = ReqFrame f" for f
    using empty_batch_accepts [of b f 0 0] assms that by (simp add: fresh_req_def)
  moreover have "fst (batch_request (pcan_msg_batch_reset b) r)" if "r = ReqError m t" for m t
    using empty_batch_accepts [of b demo_frame t m] assms(1) that by simp
  ultimately show ?thesis using assms(2) by (cases r) (auto simp: fresh_req_def)
qed

lemma try_add_accepted:
  assumes "try_add r s = (True, s')" "tx_inv items s" "packed (ut_batch s) (ut_open s)" "fresh_req r"
  shows "tx_inv (items @ req_items r) s' \<and> packed (ut_batch s') (ut_open s') \<and> ut_taken s' = ut_taken s"
proof -
  obtain b where b: "batch_request (ut_batch s) r = (True, b)"
    and s': "s' = s\<lparr>ut_batch := b, ut_open := ut_open s @ [r]\<rparr>"
    using assms(1) by (auto simp: try_add_def split: prod.splits)
  from assms(2) packed_fresh [OF assms(3,4) b] show ?thesis by (simp add: s' tx_inv_def)
qed

lemma try_add_refused: "try_add r s = (False, s') \<Longrightarrow> s' = s"
  by (auto simp: try_add_def split: prod.splits)

text \<open>A record is retried after a flush and then always fits, so none is dropped.\<close>

lemma add_or_flush_adds:
  assumes "add_or_flush lk req s = Some s'" "tx_inv items s" "packed (ut_batch s) (ut_open s)"
    and req: "\<And>e. fresh_req (fst (req e)) \<and> req_items (fst (req e)) = [item]"
  shows "tx_inv (items @ [item]) s' \<and> packed (ut_batch s') (ut_open s') \<and> ut_taken s' = ut_taken s"
proof -
  obtain r e where r: "req (ut_env s) = (r, e)" by fastforce
  have fr: "fresh_req r" "req_items r = [item]" using req [of "ut_env s"] r by simp_all
  obtain ok s1 where a: "try_add r (s\<lparr>ut_env := e\<rparr>) = (ok, s1)" by fastforce
  show ?thesis
  proof (cases ok)
    case True
    with assms(1) r a have "s' = s1" by (simp add: add_or_flush_def)
    with try_add_accepted [of r "s\<lparr>ut_env := e\<rparr>" s1 items] a True assms(2,3) fr show ?thesis by simp
  next
    case False
    then have s1: "s1 = s\<lparr>ut_env := e\<rparr>" using try_add_refused [of r "s\<lparr>ut_env := e\<rparr>" s1] a by simp
    obtain s2 where fl: "usb_tx_flush_pending lk s1 = Some s2"
      using assms(1) r a False by (auto simp: add_or_flush_def split: option.splits)
    obtain r2 e2 where r2: "req (ut_env s2) = (r2, e2)" by fastforce
    have fr2: "fresh_req r2" "req_items r2 = [item]" using req [of "ut_env s2"] r2 by simp_all
    obtain ok3 s3 where a3: "try_add r2 (s2\<lparr>ut_env := e2\<rparr>) = (ok3, s3)" by fastforce
    have s3: "s' = s3" using assms(1) r a False fl r2 a3 by (simp add: add_or_flush_def)
    have E: "tx_inv items s2" "ut_open s2 = []" "ut_taken s2 = ut_taken s" "packed (ut_batch s2) []"
      "\<exists>b. length (b_buf b) = 64 \<and> ut_batch s2 = pcan_msg_batch_reset b"
      using flush_empties [OF fl, of items] assms(2,3) s1 by simp_all
    obtain b where b: "length (b_buf b) = 64" "ut_batch s2 = pcan_msg_batch_reset b" using E(5) by blast
    have ok3: "ok3"
      using b(2) fresh_accepted [OF b(1) fr2(1)] a3 by (simp add: try_add_def split: prod.splits)
    show ?thesis
      using try_add_accepted [of r2 "s2\<lparr>ut_env := e2\<rparr>" s3 items] a3 ok3 E fr2 s3 by simp
  qed
qed

lemma add_or_flush_ok:
  assumes "add_or_flush lk req (s\<lparr>ut_taken := ut_taken s @ [item]\<rparr>) = Some s'" "tx_ok s"
    and req: "\<And>e. fresh_req (fst (req e)) \<and> req_items (fst (req e)) = [item]"
  shows "tx_ok s' \<and> ut_taken s' = ut_taken s @ [item]"
  using add_or_flush_adds [OF assms(1), of "ut_taken s" item] assms(2) req by (simp add: tx_ok_def)

lemma put_frame_ok:
  "put_frame lk f s = Some s' \<Longrightarrow> tx_ok s \<Longrightarrow> frame_ok f \<Longrightarrow> tx_ok s'"
  unfolding put_frame_def by (drule (1) add_or_flush_ok) (simp_all add: fresh_req_def)

lemma put_error_ok: "put_error lk m s = Some s' \<Longrightarrow> tx_ok s \<Longrightarrow> tx_ok s'"
  unfolding put_error_def
  by (drule (1) add_or_flush_ok) (simp_all add: fresh_req_def split: prod.split)

lemma drain_ring_ok:
  "drain_ring n lk s = Some s' \<Longrightarrow> tx_ok s \<Longrightarrow> link_frames_ok lk \<Longrightarrow> tx_ok s'"
proof (induction n arbitrary: s)
  case (Suc n)
  obtain fo e where p: "lk_pop lk 0 (ut_env s) = (fo, e)" by fastforce
  show ?case
  proof (cases fo)
    case None
    with Suc.prems p show ?thesis by auto
  next
    case (Some f)
    then obtain s1 where s1: "put_frame lk f (s\<lparr>ut_env := e\<rparr>) = Some s1" "drain_ring n lk s1 = Some s'"
      using Suc.prems(1) p by (auto simp: bind_eq_Some_conv)
    have "frame_ok f" using link_frame [OF Suc.prems(3)] p Some by blast
    then show ?thesis using Suc.IH [OF s1(2)] put_frame_ok [OF s1(1)] Suc.prems by simp
  qed
qed simp

lemma take_frames_ok:
  assumes "take_frames lk s = Some s'" "tx_ok s" "link_frames_ok lk"
  shows "tx_ok s'"
proof -
  obtain fo e where p: "lk_pop lk USBTX_POLL_MS (lk_service lk (ut_env s)) = (fo, e)" by fastforce
  show ?thesis
  proof (cases fo)
    case None
    with assms p show ?thesis by (auto simp: take_frames_def)
  next
    case (Some f)
    then obtain s1 where s1: "put_frame lk f (s\<lparr>ut_env := e\<rparr>) = Some s1" "drain_ring USBTX_MAX_DRAIN lk s1 = Some s'"
      using assms(1) p by (auto simp: take_frames_def bind_eq_Some_conv simp del: USBTX_MAX_DRAIN_def)
    have "frame_ok f" using link_frame [OF assms(3)] p Some by blast
    then show ?thesis using drain_ring_ok [OF s1(2)] put_frame_ok [OF s1(1)] assms by simp
  qed
qed

lemma flush_ok: "usb_tx_flush_pending lk s = Some s' \<Longrightarrow> tx_ok s \<Longrightarrow> tx_ok s' \<and> ut_open s' = []"
  unfolding tx_ok_def by (drule flush_empties [where items = "ut_taken s"]) auto

lemma try_calib_packed:
  assumes "length (b_buf b) = 64" "ut_batch s = pcan_msg_batch_reset b" "ut_open s = []"
  shows "packed_calib (ut_batch (snd (try_add (ReqCalib t) s))) (ut_open (snd (try_add (ReqCalib t) s)))"
proof -
  obtain b' where "pcan_msg_batch_add_calib_ts (pcan_msg_batch_reset b) t = (True, b')"
    using empty_batch_accepts [of b demo_frame t 0] assms(1)
    by (cases "pcan_msg_batch_add_calib_ts (pcan_msg_batch_reset b) t") auto
  with assms show ?thesis unfolding packed_calib_def by (auto simp: try_add_def)
qed

lemma try_calib_inv:
  "tx_inv items s \<Longrightarrow> tx_inv items (snd (try_add (ReqCalib t) s)) \<and> ut_taken (snd (try_add (ReqCalib t) s)) = ut_taken s"
  by (simp add: try_add_def tx_inv_def split: prod.split)

lemma calib_step_ok:
  assumes "calib_step lk s = Some s'" "tx_ok s"
  shows "tx_ok s'"
proof -
  obtain now e where now: "lk_now_us lk (ut_env s) = (now, e)" by fastforce
  show ?thesis
  proof (cases "now - ut_last_calib_us s \<ge> PCAN_USB_TS_CALIB_PERIOD_MS * 1000")
    case False
    with assms now show ?thesis by (auto simp: calib_step_def simp del: PCAN_USB_TS_CALIB_PERIOD_MS_def)
  next
    case True
    then obtain s1 where f1: "usb_tx_flush_pending lk (s\<lparr>ut_env := e\<rparr>) = Some s1"
      using assms(1) now
      by (auto simp: calib_step_def bind_eq_Some_conv simp del: PCAN_USB_TS_CALIB_PERIOD_MS_def)
    obtain t e1 where t: "lk_now16 lk (ut_env s1) = (t, e1)" by fastforce
    define s2 where "s2 = snd (try_add (ReqCalib t) (s1\<lparr>ut_env := e1\<rparr>))"
    obtain s3 where f3: "usb_tx_flush_pending lk s2 = Some s3"
      using assms(1) now True f1 t
      by (auto simp: calib_step_def bind_eq_Some_conv s2_def simp del: PCAN_USB_TS_CALIB_PERIOD_MS_def)
    obtain now' e3 where n': "lk_now_us lk (ut_env s3) = (now', e3)" by fastforce
    have s': "s' = s3\<lparr>ut_env := e3, ut_last_calib_us := now'\<rparr>"
      using assms(1) now True f1 t f3 n'
      by (simp add: calib_step_def s2_def del: PCAN_USB_TS_CALIB_PERIOD_MS_def)
    have E: "tx_inv (ut_taken s) s1" "ut_open s1 = []" "ut_taken s1 = ut_taken s"
      "\<exists>b. length (b_buf b) = 64 \<and> ut_batch s1 = pcan_msg_batch_reset b"
      using flush_empties [OF f1, of "ut_taken s"] assms(2) by (simp_all add: tx_ok_def)
    have c: "packed_calib (ut_batch s2) (ut_open s2)"
      unfolding s2_def using E(2,4) by (auto intro!: try_calib_packed)
    have "tx_inv (ut_taken s) s2" "ut_taken s2 = ut_taken s"
      unfolding s2_def using try_calib_inv [of "ut_taken s" "s1\<lparr>ut_env := e1\<rparr>" t] E by simp_all
    with flush_empties [OF f3, of "ut_taken s"] c show ?thesis by (auto simp: s' tx_ok_def)
  qed
qed

lemma fold_errors_ok:
  assumes "fold_errors lk s = Some s'"
  shows "tx_ok s \<longrightarrow> tx_ok s'"
proof (induction rule: fold_errors.raw_induct [OF _ assms])
  case (1 fold_errors lk s s')
  obtain m e where p: "lk_event lk (ut_env s) = (m, e)" by fastforce
  show ?case
  proof (cases m)
    case None
    with 1(2) p show ?thesis by auto
  next
    case (Some x)
    then obtain s1 where s1: "put_error lk x (s\<lparr>ut_env := e\<rparr>) = Some s1" "fold_errors lk s1 = Some s'"
      using 1(2) p by (auto simp: bind_eq_Some_conv)
    then show ?thesis using 1(1) [OF s1(2)] put_error_ok [OF s1(1)] by simp
  qed
qed

lemma usb_tx_pass_ok:
  assumes "usb_tx_pass lk s = Some s'" "tx_ok s" "link_frames_ok lk"
  shows "tx_ok s' \<and> ut_open s' = []"
proof -
  obtain s1 s2 s3 where "take_frames lk s = Some s1" "calib_step lk s1 = Some s2"
    "fold_errors lk s2 = Some s3" "usb_tx_flush_pending lk s3 = Some s'"
    using assms(1) by (auto simp: usb_tx_pass_def bind_eq_Some_conv)
  with assms(2,3) show ?thesis
    using take_frames_ok calib_step_ok fold_errors_ok flush_ok by metis
qed

lemma usb_tx_passes_ok:
  "usb_tx_passes n lk s = Some s' \<Longrightarrow> tx_ok s \<Longrightarrow> ut_open s = [] \<Longrightarrow> link_frames_ok lk \<Longrightarrow> tx_ok s' \<and> ut_open s' = []"
proof (induction n arbitrary: s)
  case (Suc n)
  then obtain s1 where "usb_tx_pass lk s = Some s1" "usb_tx_passes n lk s1 = Some s'"
    by (auto simp: bind_eq_Some_conv)
  then show ?case using Suc usb_tx_pass_ok by blast
qed simp

lemma usb_tx_start_ok:
  "length (b_buf b) = 64 \<Longrightarrow> tx_ok (usb_tx_start lk b e) \<and> ut_open (usb_tx_start lk b e) = []"
  by (simp add: usb_tx_start_def tx_ok_def tx_inv_def split: prod.split)

subsection \<open>When a flush returns\<close>

text \<open>The state after \<open>n\<close> attempts.\<close>

fun flush_tries :: "'e usb_link \<Rightarrow> nat \<Rightarrow> 'e usb_tx \<Rightarrow> 'e usb_tx" where
  "flush_tries lk 0 s = s"
| "flush_tries lk (Suc n) s = flush_tries lk n (snd (flush_attempt lk s))"

lemma flush_unfold:
  "pcan_msg_batch_count (ut_batch s) \<noteq> 0 \<Longrightarrow> usb_tx_flush_pending lk s =
    (if fst (flush_attempt lk s) then Some (snd (flush_attempt lk s))
     else usb_tx_flush_pending lk (snd (flush_attempt lk s)))"
  by (subst usb_tx_flush_pending.simps) (simp split: prod.split)

lemma refused_batch: "\<not> fst (flush_attempt lk s) \<Longrightarrow> ut_batch (snd (flush_attempt lk s)) = ut_batch s"
  using flush_attempt_refused(1) [of lk s] by (cases "flush_attempt lk s") simp

lemma flush_tries_batch:
  "\<forall>m<n. \<not> fst (flush_attempt lk (flush_tries lk m s)) \<Longrightarrow> m \<le> n \<Longrightarrow> ut_batch (flush_tries lk m s) = ut_batch s"
proof (induction m arbitrary: s n)
  case (Suc m)
  obtain n' where n: "n = Suc n'" using Suc.prems(2) by (cases n) auto
  have "\<not> fst (flush_attempt lk s)" using Suc.prems(1) n by (auto dest: spec [of _ 0])
  moreover have "\<forall>m<n'. \<not> fst (flush_attempt lk (flush_tries lk m (snd (flush_attempt lk s))))"
    using Suc.prems(1) n by (auto dest: spec [of _ "Suc _"])
  ultimately show ?case using Suc.IH [of n' "snd (flush_attempt lk s)"] Suc.prems(2) n
    by (simp add: refused_batch)
qed simp

lemma flush_after_tries:
  "flush_attempt lk (flush_tries lk n s) = (True, s') \<Longrightarrow>
   \<forall>m<n. \<not> fst (flush_attempt lk (flush_tries lk m s)) \<Longrightarrow>
   pcan_msg_batch_count (ut_batch s) \<noteq> 0 \<Longrightarrow> usb_tx_flush_pending lk s = Some s'"
proof (induction n arbitrary: s)
  case 0
  then show ?case by (simp add: flush_unfold)
next
  case (Suc n)
  have r: "\<not> fst (flush_attempt lk s)" using Suc.prems(2) by (auto dest: spec [of _ 0])
  have "\<forall>m<n. \<not> fst (flush_attempt lk (flush_tries lk m (snd (flush_attempt lk s))))"
    using Suc.prems(2) by (auto dest: spec [of _ "Suc _"])
  with Suc.IH [of "snd (flush_attempt lk s)"] Suc.prems r show ?case
    by (simp add: flush_unfold refused_batch)
qed

lemma flush_first_accepted:
  assumes "usb_tx_flush_pending lk s = Some s'" "pcan_msg_batch_count (ut_batch s) \<noteq> 0"
  shows "\<exists>n. flush_attempt lk (flush_tries lk n s) = (True, s') \<and>
    (\<forall>m<n. \<not> fst (flush_attempt lk (flush_tries lk m s)))"
proof -
  have "pcan_msg_batch_count (ut_batch s) \<noteq> 0 \<longrightarrow> (\<exists>n. flush_attempt lk (flush_tries lk n s) = (True, s') \<and>
    (\<forall>m<n. \<not> fst (flush_attempt lk (flush_tries lk m s))))"
  proof (induction rule: usb_tx_flush_pending.raw_induct [OF _ assms(1)])
    case (1 flush lk s s')
    show ?case
    proof (intro impI)
      assume nz: "pcan_msg_batch_count (ut_batch s) \<noteq> 0"
      obtain acc s1 where a: "flush_attempt lk s = (acc, s1)" by (cases "flush_attempt lk s") auto
      show "\<exists>n. flush_attempt lk (flush_tries lk n s) = (True, s') \<and>
        (\<forall>m<n. \<not> fst (flush_attempt lk (flush_tries lk m s)))"
      proof (cases acc)
        case True
        with 1(2) nz a show ?thesis by (intro exI [of _ 0]) simp
      next
        case False
        have b: "ut_batch s1 = ut_batch s" using flush_attempt_refused(1) a False by simp
        have "flush lk s1 = Some s'" using 1(2) nz a False by simp
        from 1(1) [OF this] b nz obtain n where n: "flush_attempt lk (flush_tries lk n s1) = (True, s')"
          "\<forall>m<n. \<not> fst (flush_attempt lk (flush_tries lk m s1))" by auto
        have "\<not> fst (flush_attempt lk (flush_tries lk m s))" if "m < Suc n" for m
          using that n(2) a False by (cases m) simp_all
        with n(1) a show ?thesis by (intro exI [of _ "Suc n"]) simp
      qed
    qed
  qed
  with assms(2) show ?thesis by blast
qed

subsection \<open>The contract of the glue\<close>

text \<open>What the sender relies on: \<open>idle e sh\<close> holds between batches when the batches \<open>sh\<close> were accepted,
  \<open>busy e sh b\<close> while the batch \<open>b\<close> is presented after them. A call that is not a send keeps either; a
  send of a batch of at most 64 bytes ends in the one or the other, by its result.\<close>

locale batch_sink =
  fixes lk :: "'e usb_link" and idle :: "'e \<Rightarrow> u8 list list \<Rightarrow> bool" and busy :: "'e \<Rightarrow> u8 list list \<Rightarrow> u8 list \<Rightarrow> bool"
  assumes frames: "idle e sh \<Longrightarrow> link_frames_ok lk"
    and idle_calls: "idle e sh \<Longrightarrow> idle (lk_service lk e) sh \<and> idle (snd (lk_pop lk w e)) sh \<and>
      idle (snd (lk_event lk e)) sh \<and> idle (snd (lk_now16 lk e)) sh \<and> idle (snd (lk_now_us lk e)) sh"
    and busy_calls: "busy e sh b \<Longrightarrow> busy (lk_service lk e) sh b \<and> busy (lk_delay lk w e) sh b"
    and send: "idle e sh \<or> busy e sh b \<Longrightarrow> b \<noteq> [] \<Longrightarrow> length b \<le> 64 \<Longrightarrow> lk_send lk b e = (n, e') \<Longrightarrow>
      if n = length b then idle e' (sh @ [b]) else busy e' sh b"

definition sink_idle :: "('e \<Rightarrow> u8 list list \<Rightarrow> bool) \<Rightarrow> 'e usb_tx \<Rightarrow> bool" where
  "sink_idle idle s \<longleftrightarrow> idle (ut_env s) (map snd (ut_shipped s))"

lemma sink_idle_cong [simp]:
  "sink_idle idle (s\<lparr>ut_taken := ts\<rparr>) = sink_idle idle s" "sink_idle idle (s\<lparr>ut_batch := b\<rparr>) = sink_idle idle s"
  "sink_idle idle (s\<lparr>ut_open := rs\<rparr>) = sink_idle idle s" "sink_idle idle (s\<lparr>ut_last_calib_us := u\<rparr>) = sink_idle idle s"
  "sink_idle idle (s\<lparr>ut_env := e\<rparr>) = idle e (map snd (ut_shipped s))"
  by (simp_all add: sink_idle_def)

definition sink_ok :: "('e \<Rightarrow> u8 list list \<Rightarrow> bool) \<Rightarrow> 'e usb_tx \<Rightarrow> bool" where
  "sink_ok idle s \<longleftrightarrow> tx_ok s \<and> sink_idle idle s"

context batch_sink
begin

lemma idle_steps:
  "idle e sh \<Longrightarrow> lk_pop lk w e = (fo, e') \<Longrightarrow> idle e' sh" "idle e sh \<Longrightarrow> lk_event lk e = (m, e') \<Longrightarrow> idle e' sh"
  "idle e sh \<Longrightarrow> lk_now16 lk e = (t, e') \<Longrightarrow> idle e' sh" "idle e sh \<Longrightarrow> lk_now_us lk e = (us, e') \<Longrightarrow> idle e' sh"
  using idle_calls [of e sh w] by simp_all

lemma attempt_sink:
  assumes "batch_ok (ut_batch s)" "flush_attempt lk s = (acc, s')"
    and "idle (ut_env s) sh \<or> busy (ut_env s) sh (batch_bytes (ut_batch s))"
  shows "if acc then idle (ut_env s') (sh @ [batch_bytes (ut_batch s)]) else busy (ut_env s') sh (batch_bytes (ut_batch s))"
proof -
  let ?b = "batch_bytes (ut_batch s)" and ?e = "lk_service lk (ut_env s)"
  have b: "length ?b = b_len (ut_batch s)" "?b \<noteq> []" "length ?b \<le> 64"
    using assms(1) by (auto simp: batch_ok_def batch_bytes_def)
  obtain n e where n: "lk_send lk ?b ?e = (n, e)" by fastforce
  have "idle ?e sh \<or> busy ?e sh ?b" using assms(3) idle_calls busy_calls by blast
  note S = send [OF this b(2,3) n]
  show ?thesis
    using assms(2) S b(1) n busy_calls by (auto simp: flush_attempt_def Let_def split: if_splits)
qed

lemma flush_sink:
  assumes "usb_tx_flush_pending lk s = Some s'" "batch_ok (ut_batch s)" "sink_idle idle s"
  shows "sink_idle idle s'"
proof -
  have "lk' = lk \<longrightarrow> batch_ok (ut_batch s) \<longrightarrow> sink_idle idle s \<or> pcan_msg_batch_count (ut_batch s) \<noteq> 0 \<and>
      busy (ut_env s) (map snd (ut_shipped s)) (batch_bytes (ut_batch s)) \<longrightarrow> sink_idle idle s'"
    if "usb_tx_flush_pending lk' s = Some s'" for lk' s s'
  proof (induction rule: usb_tx_flush_pending.raw_induct [OF _ that])
    case (1 flush lk' s s')
    show ?case
    proof (intro impI)
      assume lk: "lk' = lk" and ok: "batch_ok (ut_batch s)"
        and st: "sink_idle idle s \<or> pcan_msg_batch_count (ut_batch s) \<noteq> 0 \<and>
          busy (ut_env s) (map snd (ut_shipped s)) (batch_bytes (ut_batch s))"
      show "sink_idle idle s'"
      proof (cases "pcan_msg_batch_count (ut_batch s) = 0")
        case True
        with 1(2) st show ?thesis by simp
      next
        case False
        obtain acc s1 where a: "flush_attempt lk s = (acc, s1)" by (cases "flush_attempt lk s") auto
        have A: "if acc then idle (ut_env s1) (map snd (ut_shipped s) @ [batch_bytes (ut_batch s)])
            else busy (ut_env s1) (map snd (ut_shipped s)) (batch_bytes (ut_batch s))"
          by (rule attempt_sink [OF ok a]) (use st in \<open>auto simp: sink_idle_def\<close>)
        show ?thesis
        proof (cases acc)
          case True
          with 1(2) False a lk have "s' = s1" by simp
          with A True flush_attempt_accepted(4) [of lk s s1] a show ?thesis by (simp add: sink_idle_def)
        next
          case nacc: False
          with 1(2) False a lk have "flush lk' s1 = Some s'" by simp
          from 1(1) [OF this] lk ok A nacc False flush_attempt_refused [of lk s s1] a show ?thesis by simp
        qed
      qed
    qed
  qed
  with assms show ?thesis by blast
qed

lemma try_add_sink: "sink_idle idle s \<Longrightarrow> sink_idle idle (snd (try_add r s))"
  by (simp add: try_add_def split: prod.split)

lemma add_or_flush_sink:
  assumes "add_or_flush lk req s = Some s'" "batch_ok (ut_batch s)" "sink_idle idle s"
    and req: "\<And>e sh. idle e sh \<Longrightarrow> idle (snd (req e)) sh"
  shows "sink_idle idle s'"
proof -
  obtain r e where r: "req (ut_env s) = (r, e)" by fastforce
  have e: "sink_idle idle (s\<lparr>ut_env := e\<rparr>)" using req [of "ut_env s"] assms(3) r by (simp add: sink_idle_def)
  obtain ok s1 where a: "try_add r (s\<lparr>ut_env := e\<rparr>) = (ok, s1)" by fastforce
  have s1: "sink_idle idle s1" using try_add_sink [OF e, of r] a by simp
  show ?thesis
  proof (cases ok)
    case True
    with assms(1) r a s1 show ?thesis by (simp add: add_or_flush_def)
  next
    case False
    then have "ut_batch s1 = ut_batch s" using try_add_refused [of r "s\<lparr>ut_env := e\<rparr>" s1] a by simp
    then have ok1: "batch_ok (ut_batch s1)" using assms(2) by simp
    obtain s2 where fl: "usb_tx_flush_pending lk s1 = Some s2"
      using assms(1) r a False by (auto simp: add_or_flush_def split: option.splits)
    have s2: "sink_idle idle s2" by (rule flush_sink [OF fl ok1 s1])
    obtain r2 e2 where r2: "req (ut_env s2) = (r2, e2)" by fastforce
    have "sink_idle idle (s2\<lparr>ut_env := e2\<rparr>)" using req [of "ut_env s2"] s2 r2 by (simp add: sink_idle_def)
    from try_add_sink [OF this, of r2] show ?thesis using assms(1) r a False fl r2 by (auto simp: add_or_flush_def)
  qed
qed

lemma tx_ok_batch: "tx_ok s \<Longrightarrow> batch_ok (ut_batch s)"
  using packed_ok by (auto simp: tx_ok_def)

lemma put_frame_sink:
  "put_frame lk f s = Some s' \<Longrightarrow> tx_ok s \<Longrightarrow> sink_idle idle s \<Longrightarrow> sink_idle idle s'"
  unfolding put_frame_def by (erule add_or_flush_sink) (simp_all add: tx_ok_batch)

lemma put_error_sink:
  "put_error lk m s = Some s' \<Longrightarrow> tx_ok s \<Longrightarrow> sink_idle idle s \<Longrightarrow> sink_idle idle s'"
  unfolding put_error_def
  by (erule add_or_flush_sink) (auto simp: tx_ok_batch dest: idle_steps split: prod.split)

text \<open>The parts of a pass, with the invariant of the batches beside the state of the glue.\<close>

lemma drain_ring_sink:
  "drain_ring n lk s = Some s' \<Longrightarrow> sink_ok idle s \<Longrightarrow> sink_ok idle s'"
proof (induction n arbitrary: s)
  case (Suc n)
  obtain fo e where p: "lk_pop lk 0 (ut_env s) = (fo, e)" by fastforce
  have e: "sink_ok idle (s\<lparr>ut_env := e\<rparr>)" using Suc.prems(2) idle_steps(1) [OF _ p] by (auto simp: sink_ok_def sink_idle_def)
  show ?case
  proof (cases fo)
    case None
    with Suc.prems p e show ?thesis by auto
  next
    case (Some f)
    then obtain s1 where s1: "put_frame lk f (s\<lparr>ut_env := e\<rparr>) = Some s1" "drain_ring n lk s1 = Some s'"
      using Suc.prems(1) p by (auto simp: bind_eq_Some_conv)
    have "frame_ok f" using link_frame [OF frames] Suc.prems(2) p Some by (auto simp: sink_ok_def sink_idle_def)
    then have "sink_ok idle s1" using put_frame_ok [OF s1(1)] put_frame_sink [OF s1(1)] e by (simp add: sink_ok_def)
    then show ?thesis by (rule Suc.IH [OF s1(2)])
  qed
qed simp

lemma take_frames_sink:
  assumes "take_frames lk s = Some s'" "sink_ok idle s"
  shows "sink_ok idle s'"
proof -
  obtain fo e where p: "lk_pop lk USBTX_POLL_MS (lk_service lk (ut_env s)) = (fo, e)" by fastforce
  have e: "sink_ok idle (s\<lparr>ut_env := e\<rparr>)"
    using assms(2) idle_steps(1) [OF _ p] idle_calls by (auto simp: sink_ok_def sink_idle_def)
  show ?thesis
  proof (cases fo)
    case None
    with assms p e show ?thesis by (auto simp: take_frames_def)
  next
    case (Some f)
    then obtain s1 where s1: "put_frame lk f (s\<lparr>ut_env := e\<rparr>) = Some s1" "drain_ring USBTX_MAX_DRAIN lk s1 = Some s'"
      using assms(1) p by (auto simp: take_frames_def bind_eq_Some_conv simp del: USBTX_MAX_DRAIN_def)
    have "frame_ok f" using link_frame [OF frames] assms(2) p Some by (auto simp: sink_ok_def sink_idle_def)
    then have "sink_ok idle s1" using put_frame_ok [OF s1(1)] put_frame_sink [OF s1(1)] e by (simp add: sink_ok_def)
    then show ?thesis by (rule drain_ring_sink [OF s1(2)])
  qed
qed

lemma calib_step_sink:
  assumes "calib_step lk s = Some s'" "sink_ok idle s"
  shows "sink_ok idle s'"
proof -
  obtain now e where now: "lk_now_us lk (ut_env s) = (now, e)" by fastforce
  have e: "sink_idle idle (s\<lparr>ut_env := e\<rparr>)" using assms(2) idle_steps(4) [OF _ now] by (auto simp: sink_ok_def sink_idle_def)
  have ok': "tx_ok s'" using calib_step_ok assms by (auto simp: sink_ok_def)
  show ?thesis
  proof (cases "now - ut_last_calib_us s \<ge> PCAN_USB_TS_CALIB_PERIOD_MS * 1000")
    case False
    with assms now e ok' show ?thesis
      by (auto simp: calib_step_def sink_ok_def simp del: PCAN_USB_TS_CALIB_PERIOD_MS_def)
  next
    case True
    then obtain s1 where f1: "usb_tx_flush_pending lk (s\<lparr>ut_env := e\<rparr>) = Some s1"
      using assms(1) now
      by (auto simp: calib_step_def bind_eq_Some_conv simp del: PCAN_USB_TS_CALIB_PERIOD_MS_def)
    obtain t e1 where t: "lk_now16 lk (ut_env s1) = (t, e1)" by fastforce
    define s2 where "s2 = snd (try_add (ReqCalib t) (s1\<lparr>ut_env := e1\<rparr>))"
    obtain s3 where f3: "usb_tx_flush_pending lk s2 = Some s3"
      using assms(1) now True f1 t
      by (auto simp: calib_step_def bind_eq_Some_conv s2_def simp del: PCAN_USB_TS_CALIB_PERIOD_MS_def)
    obtain now' e3 where n': "lk_now_us lk (ut_env s3) = (now', e3)" by fastforce
    have s': "s' = s3\<lparr>ut_env := e3, ut_last_calib_us := now'\<rparr>"
      using assms(1) now True f1 t f3 n'
      by (simp add: calib_step_def s2_def del: PCAN_USB_TS_CALIB_PERIOD_MS_def)
    have tx: "tx_ok (s\<lparr>ut_env := e\<rparr>)" using assms(2) by (simp add: sink_ok_def)
    have i1: "sink_idle idle s1" by (rule flush_sink [OF f1 tx_ok_batch [OF tx] e])
    have E: "ut_open s1 = []" "\<exists>b. length (b_buf b) = 64 \<and> ut_batch s1 = pcan_msg_batch_reset b"
      using flush_empties [OF f1, of "ut_taken s"] assms(2) by (simp_all add: tx_ok_def sink_ok_def)
    have "packed_calib (ut_batch s2) (ut_open s2)"
      unfolding s2_def using E by (auto intro!: try_calib_packed)
    then have b2: "batch_ok (ut_batch s2)" by (rule packed_calib_ok(1))
    have "sink_idle idle (s1\<lparr>ut_env := e1\<rparr>)" using i1 idle_steps(3) [OF _ t] by (simp add: sink_idle_def)
    then have "sink_idle idle s3" using flush_sink [OF f3 b2] try_add_sink by (simp add: s2_def)
    then show ?thesis using ok' idle_steps(4) [OF _ n'] by (simp add: s' sink_ok_def sink_idle_def)
  qed
qed

lemma fold_errors_sink:
  assumes "fold_errors lk s = Some s'" "sink_ok idle s"
  shows "sink_ok idle s'"
proof -
  have "lk' = lk \<longrightarrow> sink_ok idle s \<longrightarrow> sink_ok idle s'" if "fold_errors lk' s = Some s'" for lk' s s'
  proof (induction rule: fold_errors.raw_induct [OF _ that])
    case (1 fold_errors lk' s s')
    show ?case
    proof (intro impI)
      assume lk: "lk' = lk" and ok: "sink_ok idle s"
      obtain m e where p: "lk_event lk (ut_env s) = (m, e)" by fastforce
      have e: "sink_ok idle (s\<lparr>ut_env := e\<rparr>)" using ok idle_steps(2) [OF _ p] by (auto simp: sink_ok_def sink_idle_def)
      show "sink_ok idle s'"
      proof (cases m)
        case None
        with 1(2) p lk e show ?thesis by auto
      next
        case (Some x)
        then obtain s1 where s1: "put_error lk x (s\<lparr>ut_env := e\<rparr>) = Some s1" "fold_errors lk' s1 = Some s'"
          using 1(2) p lk by (auto simp: bind_eq_Some_conv)
        have "sink_ok idle s1" using put_error_ok [OF s1(1)] put_error_sink [OF s1(1)] e by (simp add: sink_ok_def)
        with 1(1) [OF s1(2)] lk show ?thesis by blast
      qed
    qed
  qed
  with assms show ?thesis by blast
qed

lemma pass_sink:
  assumes "usb_tx_pass lk s = Some s'" "sink_ok idle s"
  shows "sink_ok idle s'"
proof -
  obtain s1 s2 s3 where st: "take_frames lk s = Some s1" "calib_step lk s1 = Some s2"
    "fold_errors lk s2 = Some s3" "usb_tx_flush_pending lk s3 = Some s'"
    using assms(1) by (auto simp: usb_tx_pass_def bind_eq_Some_conv)
  have "sink_ok idle s3"
    by (rule fold_errors_sink [OF st(3) calib_step_sink [OF st(2) take_frames_sink [OF st(1) assms(2)]]])
  then show ?thesis using flush_sink [OF st(4) tx_ok_batch] flush_ok [OF st(4)] by (simp add: sink_ok_def)
qed

lemma passes_sink: "usb_tx_passes n lk s = Some s' \<Longrightarrow> sink_ok idle s \<Longrightarrow> sink_ok idle s'"
  by (induction n arbitrary: s) (auto simp: bind_eq_Some_conv dest: pass_sink)

end

subsection \<open>Properties\<close>

text \<open>Each shipped batch is read by the host driver as what was packed.\<close>

lemma shipped_decoded:
  assumes "shipped_ok (rs, bytes)"
  shows "(\<exists>t mc. rs = [ReqCalib t] \<and> host_decode_batch bytes (length bytes) = Some mc \<and>
      hm_calib mc = [t] \<and> hm_frames mc = [] \<and> hm_err mc = []) \<or>
    (\<exists>its. rs = map item_req its \<and> (ticks_close its \<longrightarrow>
      (\<exists>mc. host_decode_batch bytes (length bytes) = Some mc \<and>
        hm_frames mc = concat (map item_frames its) \<and> hm_err mc = concat (map item_errs its))))"
proof -
  obtain b where b: "bytes = batch_bytes b" "rs \<noteq> []" "packed b rs \<or> packed_calib b rs"
    using assms by (auto simp: shipped_ok_def)
  have len: "batch_ok b \<Longrightarrow> length bytes = pcan_msg_batch_len b"
    by (simp add: b(1) batch_bytes_def batch_ok_def pcan_msg_batch_len_def)
  from b(3) show ?thesis
  proof
    assume p: "packed b rs"
    then obtain b0 its where q: "length (b_buf b0) = 64" "\<forall>it \<in> set its. item_ok it" "rs = map item_req its"
      "batch_items (pcan_msg_batch_reset b0) its = Some b"
      by (auto simp: packed_def)
    have "its \<noteq> []" using q(3) b(2) by blast
    from items_host_decode [OF q(1,2,4) this] q(3) len [OF packed_ok [OF p]] b(1) show ?thesis by metis
  next
    assume p: "packed_calib b rs"
    then obtain b0 t where q: "length (b_buf b0) = 64" "rs = [ReqCalib t]"
      "pcan_msg_batch_add_calib_ts (pcan_msg_batch_reset b0) t = (True, b)"
      by (auto simp: packed_calib_def)
    from calib_alone_decode [OF q(1), of t] q len [OF packed_calib_ok(1) [OF p]] b(1) show ?thesis by auto
  qed
qed


text \<open>C23. \<open>usb_tx_flush_pending\<close> returns exactly when there is nothing to send or the glue accepts the
  batch at some attempt: it then returns the state right after the first accepted attempt, having
  presented the same bytes every time. It never gives the batch up, so it does not return while no
  attempt succeeds.\<close>

theorem usb_tx_flush_returns_iff:
  "usb_tx_flush_pending lk s = Some s' \<longleftrightarrow>
    (pcan_msg_batch_count (ut_batch s) = 0 \<and> s' = s) \<or>
    (pcan_msg_batch_count (ut_batch s) \<noteq> 0 \<and>
     (\<exists>n. flush_attempt lk (flush_tries lk n s) = (True, s') \<and>
       (\<forall>m<n. \<not> fst (flush_attempt lk (flush_tries lk m s))) \<and>
       (\<forall>m\<le>n. batch_bytes (ut_batch (flush_tries lk m s)) = batch_bytes (ut_batch s))))"
  (is "?flush = Some s' \<longleftrightarrow> ?nothing \<or> ?sent")
proof
  assume fl: "?flush = Some s'"
  show "?nothing \<or> ?sent"
  proof (cases "pcan_msg_batch_count (ut_batch s) = 0")
    case True
    with fl show ?thesis by (simp add: usb_tx_flush_pending.simps)
  next
    case False
    from flush_first_accepted [OF fl False] show ?thesis using False flush_tries_batch by metis
  qed
next
  assume "?nothing \<or> ?sent"
  then show "?flush = Some s'"
  proof
    assume ?nothing
    then show ?thesis by (simp add: usb_tx_flush_pending.simps)
  next
    assume ?sent
    then obtain n where "flush_attempt lk (flush_tries lk n s) = (True, s')"
      "\<forall>m<n. \<not> fst (flush_attempt lk (flush_tries lk m s))" "pcan_msg_batch_count (ut_batch s) \<noteq> 0" by blast
    then show ?thesis by (rule flush_after_tries)
  qed
qed

subsection \<open>A concrete link\<close>

text \<open>A ring and an event queue as lists, a clock that advances by a second at each reading of
  microseconds, and a glue that is busy \<open>dl_busy\<close> times for every batch.\<close>

record demo_line =
  dl_frames :: "pcan_frame list"
  dl_events :: "u8 list"
  dl_clock :: u64
  dl_busy :: nat

definition demo_link :: "nat \<Rightarrow> demo_line usb_link" where
  "demo_link k =
     \<lparr>lk_service = id,
      lk_send = (\<lambda>bytes e. if dl_busy e = 0 then (length bytes, e\<lparr>dl_busy := k\<rparr>) else (0, e\<lparr>dl_busy := dl_busy e - 1\<rparr>)),
      lk_mounted = (\<lambda>e. True), lk_delay = (\<lambda>ms e. e),
      lk_pop = (\<lambda>ms e. case dl_frames e of [] \<Rightarrow> (None, e) | f # fs \<Rightarrow>
        (if length (fr_data f) = 8 then Some f else None, e\<lparr>dl_frames := fs\<rparr>)),
      lk_event = (\<lambda>e. case dl_events e of [] \<Rightarrow> (None, e) | m # ms \<Rightarrow> (Some m, e\<lparr>dl_events := ms\<rparr>)),
      lk_now16 = (\<lambda>e. (0x10F8, e)),
      lk_now_us = (\<lambda>e. (dl_clock e, e\<lparr>dl_clock := dl_clock e + 1000000\<rparr>))\<rparr>"

definition demo_line :: demo_line where
  "demo_line = \<lparr>dl_frames = replicate 11 demo_frame,
     dl_events = [4], dl_clock = 0, dl_busy = 2\<rparr>"

lemma demo_link_frames_ok: "link_frames_ok (demo_link k)"
  by (simp add: link_frames_ok_def demo_link_def frame_ok_def split: list.split)

definition demo_tx_run :: "demo_line usb_tx option" where
  "demo_tx_run = usb_tx_passes 2 (demo_link 2) (usb_tx_start (demo_link 2) zero_batch demo_line)"

declare usb_tx_flush_pending.simps [code] fold_errors.simps [code]

lemma demo_tx_run:
  "map_option (\<lambda>s. (map length (map fst (ut_shipped s)), length (ut_taken s))) demo_tx_run = Some ([10, 1, 1, 1, 1], 12)"
  by code_simp


text \<open>With a glue that is busy twice, the third attempt is accepted; a glue that never accepts is
  waited for without end.\<close>

definition demo_pending :: "demo_line usb_tx" where
  "demo_pending = snd (try_add (ReqFrame demo_frame) (usb_tx_start (demo_link 2) zero_batch demo_line))"

lemma demo_pending_tries:
  "fst (flush_attempt (demo_link 2) (flush_tries (demo_link 2) 2 demo_pending))"
  "\<not> fst (flush_attempt (demo_link 2) (flush_tries (demo_link 2) 1 demo_pending))"
  "\<not> fst (flush_attempt (demo_link 2) (flush_tries (demo_link 2) 0 demo_pending))"
  "pcan_msg_batch_count (ut_batch demo_pending) = 1"
  "map_option (\<lambda>s. length (ut_shipped s)) (usb_tx_flush_pending (demo_link 2) demo_pending) = Some 1"
  by code_simp+

theorem usb_tx_flush_returns_iff_witness:
  "\<exists>s'. flush_attempt (demo_link 2) (flush_tries (demo_link 2) 2 demo_pending) = (True, s') \<and>
     usb_tx_flush_pending (demo_link 2) demo_pending = Some s'"
proof -
  obtain s' where s': "usb_tx_flush_pending (demo_link 2) demo_pending = Some s'"
    using demo_pending_tries(5) by auto
  with usb_tx_flush_returns_iff [of "demo_link 2" demo_pending s'] demo_pending_tries(4)
  obtain n where n: "flush_attempt (demo_link 2) (flush_tries (demo_link 2) n demo_pending) = (True, s')"
    "\<forall>m<n. \<not> fst (flush_attempt (demo_link 2) (flush_tries (demo_link 2) m demo_pending))"
    by auto
  have "n \<noteq> 0" using n(1) demo_pending_tries(3) by (intro notI) (simp del: flush_tries.simps)
  moreover have "n \<noteq> 1" using n(1) demo_pending_tries(2) by (intro notI) (simp del: flush_tries.simps)
  moreover have "\<not> 2 < n" using n(2) demo_pending_tries(1) by blast
  ultimately have "n = 2" by linarith
  with n(1) s' show ?thesis by blast
qed

end
