(* ===== verification/Usb_Path.thy ===== *)
theory Usb_Path
  imports Usb_Tx Usb_Delivery
begin

text \<open>
  From the receive ring to the host: \<open>usb_tx_task\<close> of \<open>main/main.c\<close> on the glue of \<open>main/usb_glue.c\<close>, with
  TinyUSB and the host taking any turns while the task waits. The glue meets the contract
  \<open>batch_sink\<close> of the task, so what the task takes is what the host receives and decodes.
\<close>

subsection \<open>The glue behind the task\<close>

text \<open>What happens beside the task: any move of the USB side that leaves the task's batch alone.\<close>

definition background :: "'s sem_api \<Rightarrow> 'u usbd \<Rightarrow> 'u usb_view \<Rightarrow> 'u usb_sys \<Rightarrow> 'u usb_sys \<Rightarrow> bool" where
  "background api usb v s s' \<longleftrightarrow> usb_move api usb v s s' \<and> uy_batch s' = uy_batch s \<and> uy_released s' = uy_released s"

definition glue_send :: "'u usbd \<Rightarrow> u8 list \<Rightarrow> 'u usb_sys \<Rightarrow> nat \<times> 'u usb_sys" where
  "glue_send usb b s = (fst (usb_glue_send_msg_batch usb b (uy_glue s) (uy_usb s)), present usb b (s\<lparr>uy_batch := Some b\<rparr>))"

definition glue_service :: "'u usbd \<Rightarrow> 'u usb_sys \<Rightarrow> 'u usb_sys" where
  "glue_service usb s = s\<lparr>uy_usb := usb_glue_service usb (uy_glue s) (uy_usb s)\<rparr>"

text \<open>The task's calls on an environment whose first part is the USB side: each can be preempted by
  background moves before and after, \<open>send\<close> and \<open>service\<close> are the glue's, the others do not touch it.\<close>

definition glue_link :: "'s sem_api \<Rightarrow> 'u usbd \<Rightarrow> 'u usb_view \<Rightarrow> ('u usb_sys \<times> 'x) usb_link \<Rightarrow> bool" where
  "glue_link api usb v lk \<longleftrightarrow> link_frames_ok lk \<and>
     (\<forall>e b w.
       (\<exists>s. (background api usb v)\<^sup>*\<^sup>* (fst e) s \<and> fst (lk_send lk b e) = fst (glue_send usb b s) \<and>
          (background api usb v)\<^sup>*\<^sup>* (snd (glue_send usb b s)) (fst (snd (lk_send lk b e)))) \<and>
       (\<exists>s. (background api usb v)\<^sup>*\<^sup>* (fst e) s \<and> (background api usb v)\<^sup>*\<^sup>* (glue_service usb s) (fst (lk_service lk e))) \<and>
       (background api usb v)\<^sup>*\<^sup>* (fst e) (fst (lk_delay lk w e)) \<and>
       (background api usb v)\<^sup>*\<^sup>* (fst e) (fst (snd (lk_pop lk w e))) \<and>
       (background api usb v)\<^sup>*\<^sup>* (fst e) (fst (snd (lk_event lk e))) \<and>
       (background api usb v)\<^sup>*\<^sup>* (fst e) (fst (snd (lk_now16 lk e))) \<and>
       (background api usb v)\<^sup>*\<^sup>* (fst e) (fst (snd (lk_now_us lk e))))"

text \<open>The two phases of the sender.\<close>

definition glue_at ::
    "'s sem_api \<Rightarrow> 'u usbd \<Rightarrow> 'u usb_view \<Rightarrow> ('u usb_sys \<times> 'x) usb_link \<Rightarrow> 'u \<Rightarrow> u8 list option \<Rightarrow>
     'u usb_sys \<Rightarrow> u8 list list \<Rightarrow> bool" where
  "glue_at api usb v lk u batch s sh \<longleftrightarrow> usbd_documented usb v \<and> usb_is v u None (\<lambda>_. False) [] \<and> glue_link api usb v lk \<and>
     (usb_move api usb v)\<^sup>*\<^sup>* (usb_sys_start u) s \<and> uy_batch s = batch \<and> uy_released s = sh"

lemma background_at:
  assumes "(background api usb v)\<^sup>*\<^sup>* s s'" "glue_at api usb v lk u batch s sh"
  shows "glue_at api usb v lk u batch s' sh"
  using assms(1)
proof (induction rule: rtranclp_induct)
  case base
  show ?case by (rule assms(2))
next
  case (step y z)
  then have "(usb_move api usb v)\<^sup>*\<^sup>* (usb_sys_start u) z"
    by (auto simp: glue_at_def background_def intro: rtranclp.rtrancl_into_rtrancl)
  with step show ?case by (simp add: glue_at_def background_def)
qed

lemma service_background: "background api usb v s (glue_service usb s)"
  by (simp add: background_def glue_service_def usb_move.service)

lemma send_at:
  assumes at: "glue_at api usb v lk u None s sh \<or> glue_at api usb v lk u (Some b) s sh"
    and b: "b \<noteq> []" "length b \<le> 64" and n: "glue_send usb b s = (n, s')"
  shows "if n = length b then glue_at api usb v lk u None s' (sh @ [b]) else glue_at api usb v lk u (Some b) s' sh"
proof -
  let ?f = "s\<lparr>uy_batch := Some b\<rparr>"
  have f: "(usb_move api usb v)\<^sup>*\<^sup>* (usb_sys_start u) ?f"
    using at
  proof
    assume "glue_at api usb v lk u None s sh"
    then have "(usb_move api usb v)\<^sup>*\<^sup>* (usb_sys_start u) s" "usb_move api usb v s ?f"
      using usb_move.fill [of s b api usb v] b by (simp_all add: glue_at_def)
    then show ?thesis by (rule rtranclp.rtrancl_into_rtrancl)
  next
    assume "glue_at api usb v lk u (Some b) s sh"
    then have "(usb_move api usb v)\<^sup>*\<^sup>* (usb_sys_start u) s" "?f = s" by (simp_all add: glue_at_def)
    then show ?thesis by simp
  qed
  have s': "s' = present usb b ?f" "n = fst (usb_glue_send_msg_batch usb b (uy_glue s) (uy_usb s))"
    using n by (auto simp: glue_send_def)
  have "usb_move api usb v ?f s'" unfolding s' by (rule usb_move.send) simp
  with f have reach: "(usb_move api usb v)\<^sup>*\<^sup>* (usb_sys_start u) s'" by (rule rtranclp.rtrancl_into_rtrancl)
  have "uy_batch s' = (if n = length b then None else Some b)"
    "uy_released s' = (if n = length b then uy_released s @ [b] else uy_released s)"
    using s' by (simp_all add: present_def split_beta Let_def)
  with at reach show ?thesis by (auto simp: glue_at_def)
qed

lemma link_calls:
  assumes "glue_at api usb v lk u batch (fst e) sh"
  shows "glue_at api usb v lk u batch (fst (lk_service lk e)) sh" "glue_at api usb v lk u batch (fst (lk_delay lk w e)) sh"
    "glue_at api usb v lk u batch (fst (snd (lk_pop lk w e))) sh" "glue_at api usb v lk u batch (fst (snd (lk_event lk e))) sh"
    "glue_at api usb v lk u batch (fst (snd (lk_now16 lk e))) sh" "glue_at api usb v lk u batch (fst (snd (lk_now_us lk e))) sh"
proof -
  have L: "glue_link api usb v lk" using assms by (simp add: glue_at_def)
  then obtain s where "(background api usb v)\<^sup>*\<^sup>* (fst e) s" "(background api usb v)\<^sup>*\<^sup>* (glue_service usb s) (fst (lk_service lk e))"
    unfolding glue_link_def by blast
  with service_background have "(background api usb v)\<^sup>*\<^sup>* (fst e) (fst (lk_service lk e))"
    by (meson rtranclp.rtrancl_into_rtrancl rtranclp_trans)
  then show "glue_at api usb v lk u batch (fst (lk_service lk e)) sh" by (rule background_at [OF _ assms])
  have C: "(background api usb v)\<^sup>*\<^sup>* (fst e) (fst (lk_delay lk w e))" "(background api usb v)\<^sup>*\<^sup>* (fst e) (fst (snd (lk_pop lk w e)))"
    "(background api usb v)\<^sup>*\<^sup>* (fst e) (fst (snd (lk_event lk e)))" "(background api usb v)\<^sup>*\<^sup>* (fst e) (fst (snd (lk_now16 lk e)))"
    "(background api usb v)\<^sup>*\<^sup>* (fst e) (fst (snd (lk_now_us lk e)))"
    using L unfolding glue_link_def by blast+
  note at = background_at [OF _ assms]
  show "glue_at api usb v lk u batch (fst (lk_delay lk w e)) sh" by (rule at [OF C(1)])
  show "glue_at api usb v lk u batch (fst (snd (lk_pop lk w e))) sh" by (rule at [OF C(2)])
  show "glue_at api usb v lk u batch (fst (snd (lk_event lk e))) sh" by (rule at [OF C(3)])
  show "glue_at api usb v lk u batch (fst (snd (lk_now16 lk e))) sh" by (rule at [OF C(4)])
  show "glue_at api usb v lk u batch (fst (snd (lk_now_us lk e))) sh" by (rule at [OF C(5)])
qed

lemma link_send:
  assumes "glue_at api usb v lk u None (fst e) sh \<or> glue_at api usb v lk u (Some b) (fst e) sh"
    and "b \<noteq> []" "length b \<le> 64" "lk_send lk b e = (n, e')"
  shows "if n = length b then glue_at api usb v lk u None (fst e') (sh @ [b]) else glue_at api usb v lk u (Some b) (fst e') sh"
proof -
  have "glue_link api usb v lk" using assms(1) by (auto simp: glue_at_def)
  then obtain s where s: "(background api usb v)\<^sup>*\<^sup>* (fst e) s" "n = fst (glue_send usb b s)"
    "(background api usb v)\<^sup>*\<^sup>* (snd (glue_send usb b s)) (fst e')"
    unfolding glue_link_def using assms(4) by (metis fst_conv snd_conv)
  obtain s' where s': "glue_send usb b s = (n, s')" using s(2) by (cases "glue_send usb b s") simp
  have "glue_at api usb v lk u None s sh \<or> glue_at api usb v lk u (Some b) s sh"
    using assms(1) background_at [OF s(1)] by blast
  from send_at [OF this assms(2,3) s'] show ?thesis
    using background_at [OF s(3) [unfolded s' snd_conv]] by (simp split: if_splits)
qed

interpretation glue_sink:
  batch_sink lk "\<lambda>e. glue_at api usb v lk u None (fst e)" "\<lambda>e sh b. glue_at api usb v lk u (Some b) (fst e) sh"
  for api usb v u and lk :: "('u usb_sys \<times> 'x) usb_link"
proof unfold_locales
  fix e :: "'u usb_sys \<times> 'x" and sh and w :: u32
  assume at: "glue_at api usb v lk u None (fst e) sh"
  then show "link_frames_ok lk" by (simp add: glue_at_def glue_link_def)
  show "glue_at api usb v lk u None (fst (lk_service lk e)) sh \<and> glue_at api usb v lk u None (fst (snd (lk_pop lk w e))) sh \<and>
    glue_at api usb v lk u None (fst (snd (lk_event lk e))) sh \<and> glue_at api usb v lk u None (fst (snd (lk_now16 lk e))) sh \<and>
    glue_at api usb v lk u None (fst (snd (lk_now_us lk e))) sh"
    using link_calls [OF at] by simp
next
  fix e :: "'u usb_sys \<times> 'x" and sh b and w :: u32
  assume at: "glue_at api usb v lk u (Some b) (fst e) sh"
  show "glue_at api usb v lk u (Some b) (fst (lk_service lk e)) sh \<and> glue_at api usb v lk u (Some b) (fst (lk_delay lk w e)) sh"
    using link_calls [OF at] by simp
qed (rule link_send)

subsection \<open>What the host sees\<close>

text \<open>The frames and error masks the host driver decodes from the batches it receives, and those taken.\<close>

definition host_frames :: "u8 list list \<Rightarrow> host_frame list" where
  "host_frames wire = concat (map (\<lambda>b. case host_decode_batch b (length b) of None \<Rightarrow> [] | Some mc \<Rightarrow> hm_frames mc) wire)"

definition host_errors :: "u8 list list \<Rightarrow> u8 list" where
  "host_errors wire = concat (map (\<lambda>b. case host_decode_batch b (length b) of None \<Rightarrow> [] | Some mc \<Rightarrow> hm_err mc) wire)"

fun taken_frames :: "tx_item list \<Rightarrow> host_frame list" where
  "taken_frames [] = []"
| "taken_frames (ItemFrame f # its) = host_view (fr_ts16 f) f # taken_frames its"
| "taken_frames (ItemError m # its) = taken_frames its"

fun taken_errors :: "tx_item list \<Rightarrow> u8 list" where
  "taken_errors [] = []"
| "taken_errors (ItemFrame f # its) = taken_errors its"
| "taken_errors (ItemError m # its) = m # taken_errors its"

text \<open>Neighbouring records of a batch are less than 256 ticks apart.\<close>

fun req_tick :: "batch_req \<Rightarrow> u16" where
  "req_tick (ReqFrame f) = fr_ts16 f"
| "req_tick (ReqError m t) = t"
| "req_tick _ = 0"

fun ticks_near :: "batch_req list \<Rightarrow> bool" where
  "ticks_near (a # b # rs) \<longleftrightarrow> req_tick b - req_tick a < 256 \<and> ticks_near (b # rs)"
| "ticks_near _ \<longleftrightarrow> True"

lemma taken_append [simp]:
  "taken_frames (xs @ ys) = taken_frames xs @ taken_frames ys" "taken_errors (xs @ ys) = taken_errors xs @ taken_errors ys"
  by (induction xs rule: taken_frames.induct) simp_all

lemma taken_items [simp]:
  "taken_frames (requested (map item_req its)) = concat (map item_frames its)"
  "taken_errors (requested (map item_req its)) = concat (map item_errs its)"
proof (induction its)
  case (Cons it its)
  case 1
  then show ?case using Cons by (cases it) simp_all
  case 2
  then show ?case using Cons by (cases it) simp_all
qed simp_all

lemma req_tick_item [simp]: "req_tick (item_req it) = item_ts it"
  by (cases it) simp_all

lemma ticks_near_items [simp]: "ticks_near (map item_req its) = ticks_close its"
  by (induction its rule: ticks_close.induct) simp_all

lemma host_simps [simp]:
  "host_frames [] = []" "host_frames (xs @ ys) = host_frames xs @ host_frames ys"
  "host_errors [] = []" "host_errors (xs @ ys) = host_errors xs @ host_errors ys"
  by (simp_all add: host_frames_def host_errors_def)

lemma shipped_seen:
  assumes "shipped_ok (rs, b)" "ticks_near rs"
  shows "host_frames [b] = taken_frames (requested rs)" "host_errors [b] = taken_errors (requested rs)"
  using shipped_decoded [OF assms(1)] assms(2) by (auto simp: host_frames_def host_errors_def)

lemma shipped_all_seen:
  "\<forall>p \<in> set ps. shipped_ok p \<and> ticks_near (fst p) \<Longrightarrow>
   host_frames (map snd ps) = taken_frames (requested (concat (map fst ps))) \<and>
   host_errors (map snd ps) = taken_errors (requested (concat (map fst ps)))"
proof (induction ps)
  case (Cons p ps)
  obtain rs b where p: "p = (rs, b)" by (cases p)
  have "host_frames [b] = taken_frames (requested rs)" "host_errors [b] = taken_errors (requested rs)"
    using shipped_seen [of rs b] Cons.prems p by simp_all
  moreover have "host_frames (b # map snd ps) = host_frames [b] @ host_frames (map snd ps)"
    "host_errors (b # map snd ps) = host_errors [b] @ host_errors (map snd ps)"
    using host_simps(2) [of "[b]" "map snd ps"] host_simps(4) [of "[b]" "map snd ps"] by simp_all
  ultimately show ?case using Cons.IH Cons.prems p by simp
qed simp

text \<open>Between batches everything the sender was told is done is what the host received.\<close>

lemma glue_at_wire:
  assumes "glue_at api usb v lk u None s sh"
  shows "uy_wire s = sh"
proof -
  have "in_ok v s" using assms usb_reachable_ok(1) by (auto simp: glue_at_def)
  with assms show ?thesis by (auto simp: glue_at_def in_ok_def in_inv_def split: if_splits)
qed

lemma start_sink:
  assumes "usbd_documented usb v" "usb_is v u None (\<lambda>_. False) []" "glue_link api usb v lk"
    and "length (b_buf b0) = 64"
  shows "sink_ok (\<lambda>e. glue_at api usb v lk u None (fst e)) (usb_tx_start lk b0 (usb_sys_start u, x))"
proof -
  have "glue_at api usb v lk u None (fst (usb_sys_start u, x)) []"
    using assms by (simp add: glue_at_def usb_sys_start_def)
  from link_calls(6) [OF this] usb_tx_start_ok [OF assms(4)] show ?thesis
    by (simp add: sink_ok_def sink_idle_def usb_tx_start_def split_beta Let_def)
qed

subsection \<open>Delivery\<close>

text \<open>However TinyUSB, the host and the bus behave while \<open>usb_tx_task\<close>
  runs on the glue - failed transfers, resets and reconnections included - after any number of
  completed passes the batches the host received are the batches the task shipped, in order; and
  with neighbouring ticks of a batch close, the frames and error masks the host driver decodes from
  them are those the task took from the receive ring and from the event queue, each once, in order.\<close>

lemma path_delivers:
  assumes "usbd_documented usb v" "usb_is v u None (\<lambda>_. False) []" "glue_link api usb v lk" "length (b_buf b0) = 64"
    and "usb_tx_passes n lk (usb_tx_start lk b0 (usb_sys_start u, x)) = Some s"
  shows "uy_wire (fst (ut_env s)) = map snd (ut_shipped s) \<and>
    ((\<forall>p \<in> set (ut_shipped s). ticks_near (fst p)) \<longrightarrow>
      host_frames (uy_wire (fst (ut_env s))) = taken_frames (ut_taken s) \<and>
      host_errors (uy_wire (fst (ut_env s))) = taken_errors (ut_taken s))"
proof -
  have ok: "sink_ok (\<lambda>e. glue_at api usb v lk u None (fst e)) s"
    by (rule glue_sink.passes_sink [OF assms(5) start_sink [OF assms(1-4)]])
  then have w: "uy_wire (fst (ut_env s)) = map snd (ut_shipped s)"
    using glue_at_wire by (auto simp: sink_ok_def sink_idle_def)
  have "ut_open s = []"
    using usb_tx_passes_ok [OF assms(5)] usb_tx_start_ok [OF assms(4), of lk "(usb_sys_start u, x)"] assms(3)
    by (simp add: glue_link_def)
  then have "ut_taken s = requested (concat (map fst (ut_shipped s)))" "\<forall>p \<in> set (ut_shipped s). shipped_ok p"
    using ok by (auto simp: sink_ok_def tx_ok_def tx_inv_def)
  then show ?thesis using shipped_all_seen [of "ut_shipped s"] by (simp add: w)
qed

subsection \<open>A concrete environment\<close>

text \<open>On the stack of \<open>Usb_Delivery\<close>: while the task waits, the interface is opened if it is closed, else
  the next deferred function runs, else the transfer on EP2 IN completes.\<close>

definition demo_turn :: "demo_usb usb_sys \<Rightarrow> demo_usb usb_sys" where
  "demo_turn s =
     (if \<not> gl_itf_open (uy_glue s)
      then let (k, g, u) = pcan_drv_open demo_usbd 0 vendor_interface 37 (uy_glue s) (uy_usb s)
           in s\<lparr>uy_glue := g, uy_usb := u, uy_decoded := [], uy_pushed := []\<rparr>
      else case uy_usb s of (i, a, d, k) \<Rightarrow>
        case d of c # cs \<Rightarrow> run_call demo_usbd 0 c (s\<lparr>uy_usb := (i, a, cs, k)\<rparr>)
        | [] \<Rightarrow> case i of
            Some bs \<Rightarrow> s\<lparr>uy_glue := msg_in_complete True (uy_glue s), uy_usb := (None, a, [], k), uy_wire := uy_wire s @ [bs]\<rparr>
          | None \<Rightarrow> s)"

lemma run_call_batch: "uy_batch (run_call usb cap c s) = uy_batch s \<and> uy_released (run_call usb cap c s) = uy_released s"
  by (cases c) (simp_all add: split_beta Let_def)

lemma demo_turn_background: "(background pair_sems demo_usbd demo_view)\<^sup>*\<^sup>* s (demo_turn s)"
proof -
  obtain i a d k where u: "uy_usb s = (i, a, d, k)" by (cases "uy_usb s") auto
  show ?thesis
  proof (cases "gl_itf_open (uy_glue s)")
    case False
    obtain n g u' where o: "pcan_drv_open demo_usbd 0 vendor_interface 37 (uy_glue s) (uy_usb s) = (n, g, u')"
      by (cases "pcan_drv_open demo_usbd 0 vendor_interface 37 (uy_glue s) (uy_usb s)") auto
    have "usb_move pair_sems demo_usbd demo_view s (demo_turn s)"
      using usb_move.connect [OF False o] False o by (simp add: demo_turn_def)
    then show ?thesis using False o by (intro r_into_rtranclp) (simp add: background_def demo_turn_def)
  next
    case True
    show ?thesis
    proof (cases d)
      case (Cons c cs)
      have "usb_move pair_sems demo_usbd demo_view s (run_call demo_usbd 0 c (s\<lparr>uy_usb := (i, a, cs, k)\<rparr>))"
        by (rule usb_move.deferred [where cs = cs]) (simp_all add: u Cons demo_view_def usb_is_def)
      then have "background pair_sems demo_usbd demo_view s (run_call demo_usbd 0 c (s\<lparr>uy_usb := (i, a, cs, k)\<rparr>))"
        by (simp add: background_def run_call_batch)
      then show ?thesis using True by (intro r_into_rtranclp) (simp add: demo_turn_def u Cons)
    next
      case Nil
      show ?thesis
      proof (cases i)
        case None
        then show ?thesis using True by (simp add: demo_turn_def u Nil)
      next
        case (Some bs)
        have "usb_move pair_sems demo_usbd demo_view s (s\<lparr>uy_glue := msg_in_complete True (uy_glue s),
            uy_usb := (None, a, [], k), uy_wire := if True then uy_wire s @ [bs] else uy_wire s\<rparr>)"
          by (rule usb_move.in_done) (simp_all add: u Nil Some demo_view_def usb_is_def)
        then show ?thesis using True by (intro r_into_rtranclp) (simp add: background_def demo_turn_def u Nil Some)
      qed
    qed
  qed
qed

fun pair_service :: "'x usb_link \<Rightarrow> demo_usb usb_sys \<times> 'x \<Rightarrow> demo_usb usb_sys \<times> 'x" where
  "pair_service lx (s, x) = (glue_service demo_usbd s, lk_service lx x)"

fun pair_send :: "u8 list \<Rightarrow> demo_usb usb_sys \<times> 'x \<Rightarrow> nat \<times> demo_usb usb_sys \<times> 'x" where
  "pair_send b (s, x) = (let (n, s) = glue_send demo_usbd b s in (n, s, x))"

fun pair_delay :: "'x usb_link \<Rightarrow> u32 \<Rightarrow> demo_usb usb_sys \<times> 'x \<Rightarrow> demo_usb usb_sys \<times> 'x" where
  "pair_delay lx w (s, x) = (demo_turn s, lk_delay lx w x)"

fun pair_call :: "('x \<Rightarrow> 'b \<times> 'x) \<Rightarrow> demo_usb usb_sys \<times> 'x \<Rightarrow> 'b \<times> demo_usb usb_sys \<times> 'x" where
  "pair_call f (s, x) = (let (b, x) = f x in (b, s, x))"

fun always_mounted :: "'u \<times> 'x \<Rightarrow> bool" where
  "always_mounted (s, x) = True"

definition demo_glue_link :: "'x usb_link \<Rightarrow> (demo_usb usb_sys \<times> 'x) usb_link" where
  "demo_glue_link lx =
     \<lparr>lk_service = pair_service lx, lk_send = pair_send, lk_mounted = always_mounted, lk_delay = pair_delay lx,
      lk_pop = (\<lambda>w. pair_call (lk_pop lx w)), lk_event = pair_call (lk_event lx), lk_now16 = pair_call (lk_now16 lx),
      lk_now_us = pair_call (lk_now_us lx)\<rparr>"

lemma pair_simps:
  "fst (pair_call f e) = fst (f (snd e))" "fst (snd (pair_call f e)) = fst e" "snd (snd (pair_call f e)) = snd (f (snd e))"
  "fst (pair_service lx e) = glue_service demo_usbd (fst e)" "snd (pair_service lx e) = lk_service lx (snd e)"
  "fst (pair_send b e) = fst (glue_send demo_usbd b (fst e))" "fst (snd (pair_send b e)) = snd (glue_send demo_usbd b (fst e))"
  "snd (snd (pair_send b e)) = snd e"
  "fst (pair_delay lx w e) = demo_turn (fst e)" "snd (pair_delay lx w e) = lk_delay lx w (snd e)"
  by (cases e; simp add: split_beta Let_def)+

lemma demo_glue_link:
  assumes "link_frames_ok lx"
  shows "glue_link pair_sems demo_usbd demo_view (demo_glue_link lx)"
proof -
  have "link_frames_ok (demo_glue_link lx)"
    using assms by (simp add: link_frames_ok_def demo_glue_link_def pair_simps)
  then show ?thesis
    unfolding glue_link_def using demo_turn_background by (auto simp: demo_glue_link_def pair_simps)
qed

end
