(* ===== verification/Rx_Path.thy ===== *)
theory Rx_Path
  imports Usb_Path Ctrl_Task
begin

text \<open>
  From the bus to the host: \<open>twai_rx_task\<close> fills the receive ring, \<open>ctrl_service_alerts\<close> the event
  queue, and \<open>usb_tx_task\<close> takes from both and sends over the glue, all of them running beside each
  other. The task's demand on its sources is the locale \<open>frame_source\<close>; the real ring meets it.
\<close>

subsection \<open>The contract of the sources\<close>

text \<open>\<open>src e fs ms\<close>: the frames \<open>fs\<close> and the error masks \<open>ms\<close> were handed out so far. Only a pop hands out a
  frame and only a receive from the event queue a mask.\<close>

locale frame_source =
  fixes lk :: "'e usb_link" and src :: "'e \<Rightarrow> pcan_frame list \<Rightarrow> u8 list \<Rightarrow> bool"
  assumes calls: "src e fs ms \<Longrightarrow> src (lk_service lk e) fs ms \<and> src (snd (lk_send lk b e)) fs ms \<and>
      src (lk_delay lk w e) fs ms \<and> src (snd (lk_now16 lk e)) fs ms \<and> src (snd (lk_now_us lk e)) fs ms"
    and pop: "src e fs ms \<Longrightarrow> lk_pop lk w e = (fo, e') \<Longrightarrow> src e' (case fo of None \<Rightarrow> fs | Some f \<Rightarrow> fs @ [f]) ms"
    and event: "src e fs ms \<Longrightarrow> lk_event lk e = (mo, e') \<Longrightarrow> src e' fs (case mo of None \<Rightarrow> ms | Some m \<Rightarrow> ms @ [m])"

fun frames_of :: "tx_item list \<Rightarrow> pcan_frame list" where
  "frames_of [] = []"
| "frames_of (ItemFrame f # its) = f # frames_of its"
| "frames_of (ItemError m # its) = frames_of its"

lemma frames_of_append [simp]: "frames_of (xs @ ys) = frames_of xs @ frames_of ys"
  by (induction xs rule: frames_of.induct) simp_all

lemma taken_frames_of: "taken_frames its = map (\<lambda>f. host_view (fr_ts16 f) f) (frames_of its)"
  by (induction its rule: frames_of.induct) simp_all

text \<open>What was handed out is what the task has taken.\<close>

definition sourced :: "('e \<Rightarrow> pcan_frame list \<Rightarrow> u8 list \<Rightarrow> bool) \<Rightarrow> 'e usb_tx \<Rightarrow> bool" where
  "sourced src s \<longleftrightarrow> src (ut_env s) (frames_of (ut_taken s)) (taken_errors (ut_taken s))"

lemma flush_taken: "usb_tx_flush_pending lk s = Some s' \<Longrightarrow> ut_taken s' = ut_taken s"
  by (drule flush_cases) auto

lemma try_add_kept: "ut_env (snd (try_add r s)) = ut_env s" "ut_taken (snd (try_add r s)) = ut_taken s"
  by (simp_all add: try_add_def split: prod.split)

context frame_source
begin

lemma steps:
  "src e fs ms \<Longrightarrow> lk_send lk b e = (n, e') \<Longrightarrow> src e' fs ms" "src e fs ms \<Longrightarrow> lk_now16 lk e = (t, e') \<Longrightarrow> src e' fs ms"
  "src e fs ms \<Longrightarrow> lk_now_us lk e = (us, e') \<Longrightarrow> src e' fs ms"
  using calls [of e fs ms b] by simp_all

lemma attempt_source:
  assumes "flush_attempt lk s = (acc, s')" "src (ut_env s) fs ms"
  shows "src (ut_env s') fs ms"
proof -
  obtain n e where n: "lk_send lk (batch_bytes (ut_batch s)) (lk_service lk (ut_env s)) = (n, e)" by fastforce
  have e: "src e fs ms" using steps(1) [OF _ n] calls [OF assms(2)] by blast
  have "ut_env s' = e \<or> (\<exists>w. ut_env s' = lk_delay lk w e)"
    using assms(1) n by (auto simp: flush_attempt_def Let_def split: if_splits)
  then show ?thesis using e calls by auto
qed

lemma flush_source:
  assumes "usb_tx_flush_pending lk s = Some s'" "src (ut_env s) fs ms"
  shows "src (ut_env s') fs ms"
proof -
  have "lk' = lk \<longrightarrow> src (ut_env s) fs ms \<longrightarrow> src (ut_env s') fs ms" if "usb_tx_flush_pending lk' s = Some s'" for lk' s s'
  proof (induction rule: usb_tx_flush_pending.raw_induct [OF _ that])
    case (1 flush lk' s s')
    obtain acc s1 where a: "flush_attempt lk' s = (acc, s1)" by (cases "flush_attempt lk' s")
    with 1 attempt_source [of s acc s1 fs ms] show ?case by (auto split: if_splits)
  qed
  with assms show ?thesis by blast
qed

lemma add_or_flush_source:
  assumes "add_or_flush lk req s = Some s'" "src (ut_env s) fs ms"
    and req: "\<And>e. src e fs ms \<Longrightarrow> src (snd (req e)) fs ms"
  shows "src (ut_env s') fs ms \<and> ut_taken s' = ut_taken s"
proof -
  obtain r e where r: "req (ut_env s) = (r, e)" by fastforce
  have e: "src e fs ms" using req [OF assms(2)] r by simp
  obtain ok s1 where a: "try_add r (s\<lparr>ut_env := e\<rparr>) = (ok, s1)" by fastforce
  have s1: "src (ut_env s1) fs ms" "ut_taken s1 = ut_taken s" using try_add_kept [of r "s\<lparr>ut_env := e\<rparr>"] a e by simp_all
  show ?thesis
  proof (cases ok)
    case True
    with assms(1) r a s1 show ?thesis by (simp add: add_or_flush_def)
  next
    case False
    then obtain s2 where fl: "usb_tx_flush_pending lk s1 = Some s2"
      using assms(1) r a by (auto simp: add_or_flush_def split: option.splits)
    obtain r2 e2 where r2: "req (ut_env s2) = (r2, e2)" by fastforce
    have e2: "src e2 fs ms" using req [OF flush_source [OF fl s1(1)]] r2 by simp
    have "s' = snd (try_add r2 (s2\<lparr>ut_env := e2\<rparr>))" using assms(1) r a False fl r2 by (simp add: add_or_flush_def)
    then show ?thesis using try_add_kept [of r2 "s2\<lparr>ut_env := e2\<rparr>"] e2 s1(2) flush_taken [OF fl] by simp
  qed
qed

lemma put_frame_source:
  assumes "put_frame lk f s = Some s'" "src (ut_env s) (frames_of (ut_taken s) @ [f]) (taken_errors (ut_taken s))"
  shows "sourced src s'"
  using add_or_flush_source [OF assms(1) [unfolded put_frame_def], of "frames_of (ut_taken s) @ [f]" "taken_errors (ut_taken s)"]
    assms(2) by (simp add: sourced_def)

lemma put_error_source:
  assumes "put_error lk m s = Some s'" "src (ut_env s) (frames_of (ut_taken s)) (taken_errors (ut_taken s) @ [m])"
  shows "sourced src s'"
  using add_or_flush_source [OF assms(1) [unfolded put_error_def], of "frames_of (ut_taken s)" "taken_errors (ut_taken s) @ [m]"]
    assms(2) calls by (simp add: sourced_def split_beta Let_def)

text \<open>A pop, and what follows it.\<close>

lemma pop_source:
  assumes "sourced src s" "src e (frames_of (ut_taken s)) (taken_errors (ut_taken s))" "lk_pop lk w e = (fo, e')"
  shows "fo = None \<Longrightarrow> sourced src (s\<lparr>ut_env := e'\<rparr>)"
    "fo = Some f \<Longrightarrow> put_frame lk f (s\<lparr>ut_env := e'\<rparr>) = Some s' \<Longrightarrow> sourced src s'"
  using pop [OF assms(2,3)] put_frame_source [of f "s\<lparr>ut_env := e'\<rparr>" s'] by (simp_all add: sourced_def)

lemma drain_ring_source: "drain_ring n lk s = Some s' \<Longrightarrow> sourced src s \<Longrightarrow> sourced src s'"
proof (induction n arbitrary: s)
  case (Suc n)
  obtain fo e where p: "lk_pop lk 0 (ut_env s) = (fo, e)" by fastforce
  note P = pop_source [OF Suc.prems(2) Suc.prems(2) [unfolded sourced_def] p]
  show ?case using Suc.prems(1) Suc.IH p P by (cases fo) (auto simp: bind_eq_Some_conv)
qed simp

lemma take_frames_source:
  assumes "take_frames lk s = Some s'" "sourced src s"
  shows "sourced src s'"
proof -
  obtain fo e where p: "lk_pop lk USBTX_POLL_MS (lk_service lk (ut_env s)) = (fo, e)" by fastforce
  have "src (lk_service lk (ut_env s)) (frames_of (ut_taken s)) (taken_errors (ut_taken s))"
    using assms(2) calls by (simp add: sourced_def)
  note P = pop_source [OF assms(2) this p]
  show ?thesis
    using assms(1) p P drain_ring_source
    by (cases fo) (auto simp: take_frames_def bind_eq_Some_conv simp del: USBTX_MAX_DRAIN_def)
qed

lemma sourced_flush: "usb_tx_flush_pending lk s = Some s' \<Longrightarrow> sourced src s \<Longrightarrow> sourced src s'"
  using flush_source flush_taken by (fastforce simp: sourced_def)

lemma calib_step_source:
  assumes "calib_step lk s = Some s'" "sourced src s"
  shows "sourced src s'"
proof -
  have env: "sourced src (s\<lparr>ut_env := snd (lk_now_us lk (ut_env s))\<rparr>)" if "sourced src s" for s
    using that calls by (simp add: sourced_def)
  have tick: "sourced src (snd (try_add r (s\<lparr>ut_env := snd (lk_now16 lk (ut_env s))\<rparr>)))" if "sourced src s" for s r
    using that calls by (simp add: sourced_def try_add_kept)
  have last: "sourced src (s\<lparr>ut_last_calib_us := u\<rparr>) = sourced src s" for s u by (simp add: sourced_def)
  show ?thesis
    using assms(1) env [OF assms(2)] env tick last sourced_flush
    by (auto simp: calib_step_def bind_eq_Some_conv split_beta Let_def simp del: PCAN_USB_TS_CALIB_PERIOD_MS_def
        split: if_splits)
qed

lemma fold_errors_source:
  assumes "fold_errors lk s = Some s'" "sourced src s"
  shows "sourced src s'"
proof -
  have "lk' = lk \<longrightarrow> sourced src s \<longrightarrow> sourced src s'" if "fold_errors lk' s = Some s'" for lk' s s'
  proof (induction rule: fold_errors.raw_induct [OF _ that])
    case (1 fold_errors lk' s s')
    show ?case
    proof (intro impI)
      assume lk: "lk' = lk" and ok: "sourced src s"
      obtain mo e where p: "lk_event lk (ut_env s) = (mo, e)" by fastforce
      note E = event [OF ok [unfolded sourced_def] p]
      show "sourced src s'"
      proof (cases mo)
        case None
        with 1(2) p lk E show ?thesis by (auto simp: sourced_def)
      next
        case (Some m)
        then obtain s1 where s1: "put_error lk m (s\<lparr>ut_env := e\<rparr>) = Some s1" "fold_errors lk' s1 = Some s'"
          using 1(2) p lk by (auto simp: bind_eq_Some_conv)
        have "sourced src s1" using put_error_source [OF s1(1)] E Some by simp
        with 1(1) [OF s1(2)] lk show ?thesis by blast
      qed
    qed
  qed
  with assms show ?thesis by blast
qed

lemma pass_source: "usb_tx_pass lk s = Some s' \<Longrightarrow> sourced src s \<Longrightarrow> sourced src s'"
  using take_frames_source calib_step_source fold_errors_source sourced_flush
  by (fastforce simp: usb_tx_pass_def bind_eq_Some_conv)

lemma passes_source: "usb_tx_passes n lk s = Some s' \<Longrightarrow> sourced src s \<Longrightarrow> sourced src s'"
  by (induction n arbitrary: s) (auto simp: bind_eq_Some_conv dest: pass_source)

end

subsection \<open>The receive side\<close>

text \<open>The receive ring, the controller and the event queue. The ghosts: the frames received from the
  controller, those the ring accepted, and the error masks that found room in the queue.\<close>

record ('s, 'd) rx_side =
  rx_ring :: "'s pcan_ringbuf"
  rx_can :: "'d can"
  rx_events :: "u8 list"
  rx_got :: "pcan_frame list"
  rx_kept :: "pcan_frame list"
  rx_posted :: "u8 list"

definition rx_start :: "'s pcan_ringbuf \<Rightarrow> 'd can \<Rightarrow> ('s, 'd) rx_side" where
  "rx_start ring c = \<lparr>rx_ring = ring, rx_can = c, rx_events = [], rx_got = [], rx_kept = [], rx_posted = []\<rparr>"

text \<open>A pass of \<open>twai_rx_task\<close>, and a call of \<open>ctrl_service_alerts\<close>, with their ghosts.\<close>

definition rx_receive :: "'s sem_api \<Rightarrow> 'd twai_drv \<Rightarrow> u16 \<Rightarrow> ('s, 'd) rx_side \<Rightarrow> ('s, 'd) rx_side" where
  "rx_receive api drv now16 x =
     (let (ring, c) = twai_rx_pass api drv now16 (rx_ring x) (rx_can x);
          got = (case pcan_twai_receive drv now16 TWAI_CALL_TIMEOUT_MS (rx_can x) of (e, Some f, c) \<Rightarrow> [f] | _ \<Rightarrow> [])
      in x\<lparr>rx_ring := ring, rx_can := c, rx_got := rx_got x @ got,
           rx_kept := rx_kept x @ filter (\<lambda>f. fst (pcan_rb_push api (rx_ring x) f)) got\<rparr>)"

definition rx_alerts :: "'d twai_drv \<Rightarrow> tx_done_event list \<Rightarrow> ('s, 'd) rx_side \<Rightarrow> ('s, 'd) rx_side" where
  "rx_alerts drv done x =
     (let (c, evt, done) = ctrl_service_alerts drv (rx_can x) (rx_events x) done
      in x\<lparr>rx_can := c, rx_events := evt, rx_posted := rx_posted x @ drop (length (rx_events x)) evt\<rparr>)"

text \<open>Beside them the control task and the bus do anything to the controller, and the statistics read
  and clear the ring's drop counter.\<close>

inductive rx_move :: "'s sem_api \<Rightarrow> 'd twai_drv \<Rightarrow> ('s, 'd) rx_side \<Rightarrow> ('s, 'd) rx_side \<Rightarrow> bool" for api drv where
  receive: "rx_move api drv x (rx_receive api drv now16 x)"
| alerts: "rx_move api drv x (rx_alerts drv done x)"
| controller: "rx_move api drv x (x\<lparr>rx_can := c\<rparr>)"
| stats: "rx_move api drv x (x\<lparr>rx_ring := snd (pcan_rb_take_dropped api (rx_ring x))\<rparr>)"

definition rx_pop :: "'s sem_api \<Rightarrow> u32 \<Rightarrow> ('s, 'd) rx_side \<Rightarrow> pcan_frame option \<times> ('s, 'd) rx_side" where
  "rx_pop api ticks x = (let (f, ring) = pcan_rb_pop api (rx_ring x) ticks in (f, x\<lparr>rx_ring := ring\<rparr>))"

definition rx_event :: "('s, 'd) rx_side \<Rightarrow> u8 option \<times> ('s, 'd) rx_side" where
  "rx_event x = (let (m, q) = list_pop (rx_events x) in (m, x\<lparr>rx_events := q\<rparr>))"

text \<open>The state after handing out \<open>fs\<close> and \<open>ms\<close>.\<close>

definition rx_at :: "'s sem_api \<Rightarrow> ('s, 'd) rx_side \<Rightarrow> pcan_frame list \<Rightarrow> u8 list \<Rightarrow> bool" where
  "rx_at api x fs ms \<longleftrightarrow> counting_sems api \<and> rb_ok api (rx_ring x) \<and> (\<forall>f \<in> set (rb_contents api (rx_ring x)). frame_ok f) \<and>
     rx_kept x = fs @ rb_contents api (rx_ring x) \<and> rx_posted x = ms @ rx_events x \<and> subseq (rx_kept x) (rx_got x)"

lemma received_frame_ok:
  "pcan_twai_receive drv now16 t c = (e, Some f, c') \<Longrightarrow> e = ESP_OK \<and> frame_ok f"
  by (auto simp: pcan_twai_receive_def frame_ok_def message_to_frame_eq split_beta Let_def split: if_splits)

lemma receive_at:
  assumes "rx_at api x fs ms"
  shows "rx_at api (rx_receive api drv now16 x) fs ms"
proof -
  have I: "counting_sems api" "rb_ok api (rx_ring x)" using assms by (simp_all add: rx_at_def)
  obtain e fo c where r: "pcan_twai_receive drv now16 TWAI_CALL_TIMEOUT_MS (rx_can x) = (e, fo, c)"
    by (cases "pcan_twai_receive drv now16 TWAI_CALL_TIMEOUT_MS (rx_can x)") auto
  show ?thesis
  proof (cases fo)
    case None
    with r assms show ?thesis by (auto simp: rx_at_def rx_receive_def twai_rx_pass_def simp del: TWAI_CALL_TIMEOUT_MS_def)
  next
    case (Some f)
    have f: "e = ESP_OK" "frame_ok f" using received_frame_ok r Some by blast+
    note P = push_impl_fifo [OF I, of f True, folded pcan_rb_push_def]
    have "subseq (rx_kept x @ xs) (rx_got x @ [f])" if "xs = [] \<or> xs = [f]" for xs
      using assms that list_emb_append_mono [of "(=)" "rx_kept x" "rx_got x" xs "[f]"] by (auto simp: rx_at_def)
    with assms f P r Some show ?thesis
      by (auto simp: rx_at_def rx_receive_def twai_rx_pass_def simp del: TWAI_CALL_TIMEOUT_MS_def)
  qed
qed

lemma alerts_at:
  assumes "rx_at api x fs ms"
  shows "rx_at api (rx_alerts drv done x) fs ms"
proof -
  obtain c evt d where r: "ctrl_service_alerts drv (rx_can x) (rx_events x) done = (c, evt, d)"
    by (cases "ctrl_service_alerts drv (rx_can x) (rx_events x) done") auto
  then have "\<exists>q. evt = rx_events x @ q"
    by (auto simp: ctrl_service_alerts_def queue_send_def split_beta Let_def split: if_splits)
  with r assms show ?thesis by (auto simp: rx_alerts_def rx_at_def)
qed

lemma take_dropped_at:
  assumes "counting_sems api" "rb_ok api rb"
  shows "rb_ok api (snd (pcan_rb_take_dropped api rb)) \<and> rb_contents api (snd (pcan_rb_take_dropped api rb)) = rb_contents api rb"
proof -
  obtain l where l: "rb_lock rb = Some l" "sem_count api l = 1" "sem_max api l = 1"
    by (rule rb_ok_handles [OF assms(2)])
  let ?rb = "snd (pcan_rb_take_dropped api rb)"
  have u: "rb_used api ?rb = rb_used api rb" by (simp add: pcan_rb_take_dropped_def l rb_used_def)
  then have "rb_contents api ?rb = rb_contents api rb" by (simp add: pcan_rb_take_dropped_def l rb_contents_def)
  moreover have "rb_ok api ?rb"
    using assms l u by (simp add: rb_ok_def pcan_rb_take_dropped_def sem_is_def counting_take counting_give)
  ultimately show ?thesis by simp
qed

lemma rx_move_at: "rx_move api drv x y \<Longrightarrow> rx_at api x fs ms \<Longrightarrow> rx_at api y fs ms"
proof (induction rule: rx_move.induct)
  case (stats x)
  then show ?case using take_dropped_at [of api "rx_ring x"] by (auto simp: rx_at_def)
qed (simp_all add: receive_at alerts_at, auto simp: rx_at_def)

lemma rx_moves_at: "(rx_move api drv)\<^sup>*\<^sup>* x y \<Longrightarrow> rx_at api x fs ms \<Longrightarrow> rx_at api y fs ms"
  by (induction rule: rtranclp_induct) (simp_all add: rx_move_at)

lemma rx_pop_at:
  assumes "rx_at api x fs ms"
  shows "rx_at api (snd (rx_pop api t x)) (case fst (rx_pop api t x) of None \<Rightarrow> fs | Some f \<Rightarrow> fs @ [f]) ms"
proof -
  have I: "counting_sems api" "rb_ok api (rx_ring x)" using assms by (simp_all add: rx_at_def)
  show ?thesis
    using assms pop_fifo [OF I, of t] unfolding rx_at_def rx_pop_def
    by (cases "rb_contents api (rx_ring x)") (auto simp: split_beta Let_def)
qed

lemma rx_event_at:
  assumes "rx_at api x fs ms"
  shows "rx_at api (snd (rx_event x)) fs (case fst (rx_event x) of None \<Rightarrow> ms | Some m \<Rightarrow> ms @ [m])"
  using assms unfolding rx_at_def rx_event_def by (cases "rx_events x") (auto simp: list_pop_def)

subsection \<open>The link of the task\<close>

text \<open>The task's calls on an environment whose second part is the receive side: a pop and a receive from
  the event queue are the ring's and the queue's, and every call leaves time for the rest. The ring
  holds frames as C stores them.\<close>

definition rx_frames_ok :: "'s sem_api \<Rightarrow> ('s, 'd) rx_side \<Rightarrow> bool" where
  "rx_frames_ok api x \<longleftrightarrow> rb_ok api (rx_ring x) \<and> (\<forall>f \<in> set (rb_contents api (rx_ring x)). frame_ok f)"

definition rx_link :: "'s sem_api \<Rightarrow> 'd twai_drv \<Rightarrow> ('u \<times> ('s, 'd) rx_side) usb_link \<Rightarrow> bool" where
  "rx_link api drv lk \<longleftrightarrow> (\<forall>e b w. rx_frames_ok api (snd e) \<longrightarrow>
     (rx_move api drv)\<^sup>*\<^sup>* (snd e) (snd (lk_service lk e)) \<and>
     (rx_move api drv)\<^sup>*\<^sup>* (snd e) (snd (snd (lk_send lk b e))) \<and>
     (rx_move api drv)\<^sup>*\<^sup>* (snd e) (snd (lk_delay lk w e)) \<and>
     (rx_move api drv)\<^sup>*\<^sup>* (snd e) (snd (snd (lk_now16 lk e))) \<and>
     (rx_move api drv)\<^sup>*\<^sup>* (snd e) (snd (snd (lk_now_us lk e))) \<and>
     (\<exists>x. (rx_move api drv)\<^sup>*\<^sup>* (snd e) x \<and> fst (lk_pop lk w e) = fst (rx_pop api w x) \<and>
        (rx_move api drv)\<^sup>*\<^sup>* (snd (rx_pop api w x)) (snd (snd (lk_pop lk w e)))) \<and>
     (\<exists>x. (rx_move api drv)\<^sup>*\<^sup>* (snd e) x \<and> fst (lk_event lk e) = fst (rx_event x) \<and>
        (rx_move api drv)\<^sup>*\<^sup>* (snd (rx_event x)) (snd (snd (lk_event lk e)))))"

definition rx_source :: "'s sem_api \<Rightarrow> 'd twai_drv \<Rightarrow> ('u \<times> ('s, 'd) rx_side) usb_link \<Rightarrow>
    'u \<times> ('s, 'd) rx_side \<Rightarrow> pcan_frame list \<Rightarrow> u8 list \<Rightarrow> bool" where
  "rx_source api drv lk e fs ms \<longleftrightarrow> rx_link api drv lk \<and> rx_at api (snd e) fs ms"

lemma rx_source_frames: "rx_source api drv lk e fs ms \<Longrightarrow> rx_frames_ok api (snd e)"
  by (simp add: rx_source_def rx_at_def rx_frames_ok_def)

interpretation ring_source: frame_source lk "rx_source api drv lk"
  for api drv and lk :: "('u \<times> ('s, 'd) rx_side) usb_link"
proof unfold_locales
  fix e :: "'u \<times> ('s, 'd) rx_side" and fs ms b and w :: u32
  assume e: "rx_source api drv lk e fs ms"
  note at = rx_moves_at [where fs = fs and ms = ms]
  show "rx_source api drv lk (lk_service lk e) fs ms \<and> rx_source api drv lk (snd (lk_send lk b e)) fs ms \<and>
      rx_source api drv lk (lk_delay lk w e) fs ms \<and> rx_source api drv lk (snd (lk_now16 lk e)) fs ms \<and>
      rx_source api drv lk (snd (lk_now_us lk e)) fs ms"
    using e rx_source_frames [OF e] unfolding rx_source_def rx_link_def by (meson at)
next
  fix e :: "'u \<times> ('s, 'd) rx_side" and fs ms and w :: u32 and fo e'
  assume e: "rx_source api drv lk e fs ms" and p: "lk_pop lk w e = (fo, e')"
  then obtain x where x: "(rx_move api drv)\<^sup>*\<^sup>* (snd e) x" "fo = fst (rx_pop api w x)"
    "(rx_move api drv)\<^sup>*\<^sup>* (snd (rx_pop api w x)) (snd e')"
    using rx_source_frames [OF e] unfolding rx_source_def rx_link_def by (metis fst_conv snd_conv)
  have "rx_at api x fs ms" using rx_moves_at [OF x(1)] e by (simp add: rx_source_def)
  from rx_moves_at [OF x(3) rx_pop_at [OF this]] e x(2)
  show "rx_source api drv lk e' (case fo of None \<Rightarrow> fs | Some f \<Rightarrow> fs @ [f]) ms" by (simp add: rx_source_def)
next
  fix e :: "'u \<times> ('s, 'd) rx_side" and fs ms mo e'
  assume e: "rx_source api drv lk e fs ms" and p: "lk_event lk e = (mo, e')"
  then obtain x where x: "(rx_move api drv)\<^sup>*\<^sup>* (snd e) x" "mo = fst (rx_event x)"
    "(rx_move api drv)\<^sup>*\<^sup>* (snd (rx_event x)) (snd e')"
    using rx_source_frames [OF e] unfolding rx_source_def rx_link_def by (metis fst_conv snd_conv)
  have "rx_at api x fs ms" using rx_moves_at [OF x(1)] e by (simp add: rx_source_def)
  from rx_moves_at [OF x(3) rx_event_at [OF this]] e x(2)
  show "rx_source api drv lk e' fs (case mo of None \<Rightarrow> ms | Some m \<Rightarrow> ms @ [m])" by (simp add: rx_source_def)
qed

subsection \<open>The property\<close>

lemma start_sourced:
  assumes "rx_link api drv lk" "counting_sems api" "rb_ok api ring" "rb_contents api ring = []"
  shows "sourced (rx_source api drv lk) (usb_tx_start lk b0 (u, rx_start ring c))"
proof -
  have "rx_source api drv lk (u, rx_start ring c) [] []"
    using assms by (simp add: rx_source_def rx_at_def rx_start_def)
  from ring_source.steps(3) [OF this, of "fst (lk_now_us lk (u, rx_start ring c))" "snd (lk_now_us lk (u, rx_start ring c))"]
  show ?thesis by (simp add: sourced_def usb_tx_start_def split_beta Let_def)
qed


subsection \<open>A concrete run\<close>

text \<open>The controller holds two messages and an alert. The receive task runs when the task calls the
  service, the alerts are serviced when it reads the event queue, and the clock stands still.\<close>

definition demo_rx_pop :: "u32 \<Rightarrow> (nat \<times> nat, demo_drv) rx_side \<Rightarrow> pcan_frame option \<times> (nat \<times> nat, demo_drv) rx_side" where
  "demo_rx_pop w x = (let (fo, y) = rx_pop pair_sems w x
     in (case fo of None \<Rightarrow> None | Some f \<Rightarrow> if length (fr_data f) = 8 then Some f else None, y))"

definition demo_rx_event :: "(nat \<times> nat, demo_drv) rx_side \<Rightarrow> u8 option \<times> (nat \<times> nat, demo_drv) rx_side" where
  "demo_rx_event x = rx_event (rx_alerts demo_twai [] x)"

definition demo_rx_link :: "(nat \<times> nat, demo_drv) rx_side usb_link" where
  "demo_rx_link =
     \<lparr>lk_service = rx_receive pair_sems demo_twai 0x10F0, lk_send = (\<lambda>b x. (0, x)), lk_mounted = (\<lambda>x. True),
      lk_delay = (\<lambda>w x. x), lk_pop = demo_rx_pop, lk_event = demo_rx_event, lk_now16 = (\<lambda>x. (0x10F8, x)),
      lk_now_us = (\<lambda>x. (0, x))\<rparr>"

lemma demo_rx_link_frames_ok: "link_frames_ok demo_rx_link"
  by (auto simp: link_frames_ok_def demo_rx_link_def demo_rx_pop_def frame_ok_def split_beta Let_def split: option.split)

lemma demo_bus_rx_link: "rx_link pair_sems demo_twai (demo_glue_link demo_rx_link)"
proof -
  let ?R = "(rx_move pair_sems demo_twai)\<^sup>*\<^sup>*"
  have m: "?R x (rx_receive pair_sems demo_twai 0x10F0 x)" "?R x (rx_alerts demo_twai [] x)" for x
    by (rule r_into_rtranclp, rule rx_move.intros)+
  have "fst (demo_rx_pop w x) = fst (rx_pop pair_sems w x)" if "rx_frames_ok pair_sems x" for w x
    using that pop_fifo(1) [OF pair_sems_ok, of "rx_ring x" w]
    by (auto simp: demo_rx_pop_def rx_pop_def rx_frames_ok_def frame_ok_def split_beta Let_def split: list.splits)
  then have "\<exists>y. ?R x y \<and> fst (demo_rx_pop w x) = fst (rx_pop pair_sems w y) \<and> ?R (snd (rx_pop pair_sems w y)) (snd (demo_rx_pop w x))"
    if "rx_frames_ok pair_sems x" for w x
    using that by (intro exI [of _ x]) (simp add: demo_rx_pop_def split_beta Let_def)
  moreover have "\<exists>y. ?R x y \<and> fst (demo_rx_event x) = fst (rx_event y) \<and> ?R (snd (rx_event y)) (snd (demo_rx_event x))" for x
    using m by (intro exI [of _ "rx_alerts demo_twai [] x"]) (simp add: demo_rx_event_def)
  ultimately show ?thesis
    using m by (simp add: rx_link_def demo_glue_link_def demo_rx_link_def pair_simps)
qed

definition demo_controller :: "demo_drv can" where
  "demo_controller = (\<lparr>s_installed = True, s_bitrate = 500000, s_mode = TWAI_HAL_MODE_NORMAL\<rparr>,
     (TWAI_STATE_RUNNING, [no_message\<lparr>m_identifier := 0x123, m_dlc := 1\<rparr>, no_message\<lparr>m_identifier := 0x124, m_rtr := True\<rparr>],
      [TWAI_ALERT_ABOVE_ERR_WARN]))"

definition demo_rx_ring :: "(nat \<times> nat) pcan_ringbuf" where
  "demo_rx_ring = \<lparr>rb_slots = [zero_frame, zero_frame], rb_capacity = 2, rb_head = 0, rb_tail = 0, rb_lock = Some (1, 1),
     rb_items = Some (0, 2), rb_spaces = Some (2, 2), rb_dropped = 0\<rparr>"

lemma demo_rx_ring: "demo_ring 2 = demo_rx_ring"
proof -
  have "replicate 2 zero_frame = [zero_frame, zero_frame]" by (simp add: numeral_2_eq_2)
  then show ?thesis by (simp add: demo_ring_def demo_rx_ring_def pcan_rb_init_def demo_alloc_def Let_def zero_rb_def)
qed

definition demo_bus_run :: "(demo_usb usb_sys \<times> (nat \<times> nat, demo_drv) rx_side) usb_tx option" where
  "demo_bus_run = usb_tx_passes 2 (demo_glue_link demo_rx_link) (usb_tx_start (demo_glue_link demo_rx_link) zero_batch
     (usb_sys_start (None, [], [], 9), rx_start demo_rx_ring demo_controller))"

lemma demo_bus_run:
  "map_option (\<lambda>s. (list_all (\<lambda>p. ticks_near (fst p)) (ut_shipped s), frames_of (ut_taken s), taken_errors (ut_taken s))) demo_bus_run =
   Some (True, [demo_frame\<lparr>fr_dlc := 1, fr_data := replicate 8 0\<rparr>,
     demo_frame\<lparr>fr_id := 0x124, fr_dlc := 0, fr_flags := PCAN_FRAME_FLAG_RTR, fr_data := replicate 8 0\<rparr>], [PCAN_USB_ERROR_BUS_LIGHT])"
  by code_simp


end
