(* ===== verification/Host_Path.thy ===== *)
theory Host_Path
  imports Usb_Delivery Can_Tx_Safety
begin

text \<open>
  From the host to the bus: the USB side of \<open>Usb_Session\<close> and the transmit path of \<open>Can_Tx\<close> share the
  transmit ring. \<open>path_move\<close> lets the two systems take turns, what one pushes being what the other
  finds; each of its histories is a history of both parts, so their invariants hold together and
  give what reaches the bus in terms of what the host sent.
\<close>

subsection \<open>The composition\<close>

text \<open>\<open>hp_past\<close> is a ghost: for each earlier connection what was decoded and what was pushed.\<close>

record 'u path_sys =
  hp_usb :: "'u usb_sys"
  hp_can :: tx_sys
  hp_past :: "(pcan_frame list \<times> pcan_frame list) list"

definition path_start :: "'u \<Rightarrow> 'u path_sys" where
  "path_start u = \<lparr>hp_usb = usb_sys_start u, hp_can = tx_sys_start, hp_past = []\<rparr>"

text \<open>A move of the USB side hands the frames \<open>fs\<close> over.\<close>

definition handed :: "pcan_frame list \<Rightarrow> tx_sys \<Rightarrow> tx_sys" where
  "handed fs t = t\<lparr>ts_ring := ts_ring t @ fs, ts_input := ts_input t @ fs\<rparr>"

text \<open>A move that starts a new connection forgets the frames of the old one.\<close>

definition remember :: "'u usb_sys \<Rightarrow> 'u usb_sys \<Rightarrow> (pcan_frame list \<times> pcan_frame list) list" where
  "remember u u' = (if prefix (uy_decoded u) (uy_decoded u') then [] else [(uy_decoded u, uy_pushed u)])"

inductive path_move :: "'s sem_api \<Rightarrow> 'u usbd \<Rightarrow> 'u usb_view \<Rightarrow> bool \<Rightarrow> 'u path_sys \<Rightarrow> 'u path_sys \<Rightarrow> bool"
  for api usb v strict where
  usb: "usb_move api usb v (hp_usb s) u \<Longrightarrow> uy_ring u = uy_ring (hp_usb s) @ fs \<Longrightarrow>
    path_move api usb v strict s
      (s\<lparr>hp_usb := u, hp_can := handed fs (hp_can s), hp_past := hp_past s @ remember (hp_usb s) u\<rparr>)"
| can: "tx_move strict (hp_can s) t \<Longrightarrow> ts_input t = ts_input (hp_can s) \<Longrightarrow>
    path_move api usb v strict s (s\<lparr>hp_can := t, hp_usb := (hp_usb s)\<lparr>uy_ring := ts_ring t\<rparr>\<rparr>)"

subsection \<open>The parts of a move\<close>

lemma handed_reach: "(tx_move strict)\<^sup>*\<^sup>* t (handed fs t)"
proof (induction fs rule: rev_induct)
  case (snoc f fs)
  have "tx_move strict (handed fs t) (handed (fs @ [f]) t)"
    using tx_move.host [of strict "handed fs t" f] by (simp add: handed_def)
  with snoc show ?case by (rule rtranclp.rtrancl_into_rtrancl)
qed (simp add: handed_def)

text \<open>A move of the transmit path takes at most one frame from the ring.\<close>

lemma work_ring: "fst (snd (can_tx_pass list_pop xmit t r q c)) = (if tk_have t then r else tl r)"
  by (cases r) (simp_all add: can_tx_pass_def list_pop_def split_beta Let_def)

lemma tx_ring:
  assumes "tx_move strict t t'" "ts_input t' = ts_input t"
  shows "ts_ring t' = ts_ring t \<or> ts_ring t' = tl (ts_ring t)"
  using assms
proof cases
  case (task evs e)
  have "ts_ring (task_pass e t) = (if tk_have (ts_task t) then ts_ring t else tl (ts_ring t))"
    using work_ring [of "offer e" "ts_task t" "ts_ring t" "ts_done t" "ts_copy t"]
    by (simp add: task_pass_def split_beta Let_def)
  with task show ?thesis by simp
qed (simp_all add: service_def)

lemma consume_reach:
  assumes "(usb_move api usb v)\<^sup>*\<^sup>* s0 u" "r = uy_ring u \<or> r = tl (uy_ring u)"
  shows "(usb_move api usb v)\<^sup>*\<^sup>* s0 (u\<lparr>uy_ring := r\<rparr>)"
proof -
  have "u\<lparr>uy_ring := uy_ring u\<rparr> = u" by simp
  with assms show ?thesis
    using usb_move.consume [of api usb v u] by (metis rtranclp.rtrancl_into_rtrancl)
qed

text \<open>A move of the USB side pushes what it appends to the ring, or forgets and pushes nothing.\<close>

lemma usb_push:
  assumes "usb_move api usb v u u'" "uy_ring u' = uy_ring u @ fs"
  shows "uy_pushed u' = uy_pushed u @ fs \<and> prefix (uy_decoded u) (uy_decoded u') \<or>
    uy_pushed u' = [] \<and> uy_decoded u' = [] \<and> fs = []"
  using assms
proof cases
  case (deferred c cs w cap)
  then show ?thesis using assms(2) by (cases c) (auto simp: split_beta Let_def)
next
  case consume
  then have "fs = []" using assms(2) by (cases "uy_ring u") (auto dest: arg_cong [where f = length])
  then show ?thesis using consume by simp
qed (auto simp: present_def split_beta Let_def)

subsection \<open>Both systems at once\<close>

definition path_ok :: "'s sem_api \<Rightarrow> 'u usbd \<Rightarrow> 'u usb_view \<Rightarrow> bool \<Rightarrow> 'u \<Rightarrow> 'u path_sys \<Rightarrow> bool" where
  "path_ok api usb v strict u0 s \<longleftrightarrow>
     (usb_move api usb v)\<^sup>*\<^sup>* (usb_sys_start u0) (hp_usb s) \<and> (tx_move strict)\<^sup>*\<^sup>* tx_sys_start (hp_can s) \<and>
     uy_ring (hp_usb s) = ts_ring (hp_can s) \<and>
     ts_input (hp_can s) = concat (map snd (hp_past s)) @ uy_pushed (hp_usb s) \<and>
     (\<forall>(d, p) \<in> set (hp_past s). \<exists>rest. d = p @ rest \<and> length rest \<le> 32)"

lemma pending_at_most_32: "out_ok v u \<Longrightarrow> \<exists>rest. uy_decoded u = uy_pushed u @ rest \<and> length rest \<le> 32"
  by (auto simp: out_ok_simp pending_wf_def pending_frames_def)

lemma path_move_ok:
  assumes "usbd_documented usb v" "usb_is v u0 None (\<lambda>_. False) []"
    and "path_move api usb v strict s s'" "path_ok api usb v strict u0 s"
  shows "path_ok api usb v strict u0 s'"
  using assms(3)
proof cases
  case (usb u fs)
  have out: "out_ok v (hp_usb s)" using usb_reachable_ok(2) [OF assms(1,2)] assms(4) by (auto simp: path_ok_def)
  have "(usb_move api usb v)\<^sup>*\<^sup>* (usb_sys_start u0) u"
    using assms(4) usb(2) by (auto simp: path_ok_def intro: rtranclp.rtrancl_into_rtrancl)
  moreover have "(tx_move strict)\<^sup>*\<^sup>* tx_sys_start (handed fs (hp_can s))"
    using assms(4) handed_reach [of strict "hp_can s" fs] by (auto simp: path_ok_def)
  moreover have "ts_input (handed fs (hp_can s)) = concat (map snd (hp_past s @ remember (hp_usb s) u)) @ uy_pushed u"
    using usb_push [OF usb(2,3)] pending_at_most_32 [OF out] assms(4)
    by (auto simp: path_ok_def handed_def remember_def)
  ultimately show ?thesis
    using assms(4) usb(1,3) pending_at_most_32 [OF out] by (auto simp: path_ok_def handed_def remember_def)
next
  case (can t)
  have "(usb_move api usb v)\<^sup>*\<^sup>* (usb_sys_start u0) ((hp_usb s)\<lparr>uy_ring := ts_ring t\<rparr>)"
    using assms(4) tx_ring [OF can(2,3)] by (intro consume_reach) (auto simp: path_ok_def)
  moreover have "(tx_move strict)\<^sup>*\<^sup>* tx_sys_start t"
    using assms(4) can(2) by (auto simp: path_ok_def intro: rtranclp.rtrancl_into_rtrancl)
  ultimately show ?thesis using assms(4) can(1,3) by (auto simp: path_ok_def)
qed

lemma path_reachable_ok:
  assumes "usbd_documented usb v" "usb_is v u None (\<lambda>_. False) []"
    and "(path_move api usb v strict)\<^sup>*\<^sup>* (path_start u) s"
  shows "path_ok api usb v strict u s"
  using assms(3)
proof (induction rule: rtranclp_induct)
  case base
  show ?case by (simp add: path_ok_def path_start_def usb_sys_start_def tx_sys_start_def)
qed (rule path_move_ok [OF assms(1,2)])

text \<open>What the host sent over all connections, in order.\<close>

definition host_sent :: "'u path_sys \<Rightarrow> pcan_frame list" where
  "host_sent s = concat (map fst (hp_past s)) @ uy_decoded (hp_usb s)"

lemma pushed_sent:
  assumes "\<forall>(d, p) \<in> set ps. \<exists>rest. d = p @ rest \<and> length rest \<le> n"
  shows "subseq (concat (map snd ps)) (concat (map fst ps))"
  using assms
proof (induction ps)
  case (Cons q ps)
  then have "subseq (concat (map snd ps)) (concat (map fst ps))" by simp
  then have "subseq (p @ concat (map snd ps)) (p @ rest @ concat (map fst ps))" for p rest
    by (intro list_emb_append_mono) (auto intro: list_emb_append2)
  with Cons.prems show ?case by (cases q) auto
qed simp

lemma kept_shape:
  assumes "tx_inv t" "ts_ring t = []" "\<not> tk_have (ts_task t)" "ts_kept t = ts_taken t"
  shows "ts_wire t = ts_input t"
  using inv_parts [OF assms(1)] assms(2-) by (simp add: tx_logs_ok_def tx_owner_ok_def)

subsection \<open>The property\<close>


subsection \<open>A frame sent\<close>

text \<open>A transfer with one frame arrives, the retry pushes it, the task submits it, the driver sends it.\<close>

definition demo_arrived :: "demo_usb usb_sys" where
  "demo_arrived = (demo_connected 1)\<lparr>uy_glue := msg_out_complete True 7 demo_transfer (uy_glue (demo_connected 1)),
     uy_usb := (None, [1], [], 1), uy_decoded := uy_decoded (demo_connected 1) @ decoded_frames True 7 demo_transfer\<rparr>"

definition demo_scheduled :: "demo_usb usb_sys" where
  "demo_scheduled = demo_arrived\<lparr>uy_usb := usb_glue_service demo_usbd (uy_glue demo_arrived) (uy_usb demo_arrived)\<rparr>"

definition demo_pushed :: "demo_usb usb_sys" where
  "demo_pushed = run_call demo_usbd 8 (MsgOutDeferred 2) (demo_scheduled\<lparr>uy_usb := (None, [1], [], 1)\<rparr>)"

definition demo_host_frame :: pcan_frame where
  "demo_host_frame = hd (uy_ring demo_pushed)"

lemma demo_usb_fields:
  "let a = demo_connected 1; b = demo_arrived; c = demo_scheduled; d = demo_pushed
   in uy_usb a = (None, [2, 1], [], 1) \<and>
     v_deferred demo_view (uy_usb c) = [MsgOutDeferred 2] \<and> v_in demo_view (uy_usb c) = None \<and>
     uy_ring a = [] \<and> uy_ring b = [] \<and> uy_ring c = [] \<and> length (uy_ring d) = 1 \<and>
     uy_decoded a = [] \<and> uy_pushed d = uy_ring d \<and> uy_decoded d = uy_ring d \<and> uy_decoded c = uy_decoded b \<and>
     uy_decoded d = uy_decoded c"
  by code_simp

lemma demo_usb_moves:
  "usb_move pair_sems demo_usbd demo_view (demo_connected 1) demo_arrived"
  "usb_move pair_sems demo_usbd demo_view demo_arrived demo_scheduled"
  "usb_move pair_sems demo_usbd demo_view demo_scheduled demo_pushed"
proof -
  note F = demo_usb_fields [unfolded Let_def]
  have "usb_is demo_view (None, [1], [], 1) (v_in demo_view (uy_usb (demo_connected 1)))
      ((v_armed demo_view (uy_usb (demo_connected 1)))(2 := False)) (v_deferred demo_view (uy_usb (demo_connected 1)))"
    using F by (simp add: usb_is_def demo_view_def fun_eq_iff)
  then show "usb_move pair_sems demo_usbd demo_view (demo_connected 1) demo_arrived"
    unfolding demo_arrived_def using F by (intro usb_move.msg_out) (simp_all add: demo_view_def)
  show "usb_move pair_sems demo_usbd demo_view demo_arrived demo_scheduled"
    unfolding demo_scheduled_def by (rule usb_move.service)
  have "uy_usb demo_arrived = (None, [1], [], 1)" by (simp add: demo_arrived_def)
  then have "v_armed demo_view (uy_usb demo_scheduled) = (\<lambda>ep. ep = 1)"
    using usbd_laws(14) [OF demo_usb_documented]
    by (simp add: demo_scheduled_def usb_glue_service_def Let_def) (simp add: demo_view_def)
  then have "usb_is demo_view (None, [1], [], 1) (v_in demo_view (uy_usb demo_scheduled))
      (v_armed demo_view (uy_usb demo_scheduled)) []"
    using F by (simp add: usb_is_def) (simp add: demo_view_def)
  then show "usb_move pair_sems demo_usbd demo_view demo_scheduled demo_pushed"
    unfolding demo_pushed_def using F by (intro usb_move.deferred [where cs = "[]"]) simp_all
qed

lemma path_usb_step:
  assumes "(path_move api usb v b)\<^sup>*\<^sup>* s \<lparr>hp_usb = u, hp_can = t, hp_past = ps\<rparr>" "usb_move api usb v u u'"
    and "uy_ring u' = uy_ring u @ fs" "prefix (uy_decoded u) (uy_decoded u')"
  shows "(path_move api usb v b)\<^sup>*\<^sup>* s \<lparr>hp_usb = u', hp_can = handed fs t, hp_past = ps\<rparr>"
  using assms(1) path_move.usb [of api usb v "\<lparr>hp_usb = u, hp_can = t, hp_past = ps\<rparr>" u' fs b] assms(2-)
  by (simp add: remember_def rtranclp.rtrancl_into_rtrancl)

lemma path_can_step:
  assumes "(path_move api usb v b)\<^sup>*\<^sup>* s \<lparr>hp_usb = u, hp_can = t, hp_past = ps\<rparr>" "tx_move b t t'" "ts_input t' = ts_input t"
  shows "(path_move api usb v b)\<^sup>*\<^sup>* s \<lparr>hp_usb = u\<lparr>uy_ring := ts_ring t'\<rparr>, hp_can = t', hp_past = ps\<rparr>"
  using assms(1) path_move.can [of b "\<lparr>hp_usb = u, hp_can = t, hp_past = ps\<rparr>" t' api usb v] assms(2-)
  by (simp add: rtranclp.rtrancl_into_rtrancl)

definition demo_transmitted :: "demo_usb path_sys" where
  "demo_transmitted =
     (let t = task_pass ESP_OK (handed [demo_host_frame] tx_sys_start);
          t = t\<lparr>ts_copy := None, ts_wire := ts_wire t @ [demo_host_frame], ts_alerts := ts_alerts t @ [TWAI_ALERT_TX_SUCCESS]\<rparr>
      in \<lparr>hp_usb = demo_pushed\<lparr>uy_ring := []\<rparr>, hp_can = t, hp_past = []\<rparr>)"

lemma demo_transmitted_reachable:
  "(path_move pair_sems demo_usbd demo_view True)\<^sup>*\<^sup>* (path_start (None, [], [], 1)) demo_transmitted"
proof -
  note F = demo_usb_fields [unfolded Let_def]
  have r: "uy_ring demo_pushed = [demo_host_frame]"
    using F by (cases "uy_ring demo_pushed") (auto simp: demo_host_frame_def)
  let ?R = "(path_move pair_sems demo_usbd demo_view True)\<^sup>*\<^sup>* (path_start (None, [], [], 1))"
  have h: "handed [] t = t" for t by (simp add: handed_def)
  have "?R \<lparr>hp_usb = usb_sys_start (None, [], [], 1), hp_can = tx_sys_start, hp_past = []\<rparr>" by (simp add: path_start_def)
  then have "?R \<lparr>hp_usb = demo_connected 1, hp_can = handed [] tx_sys_start, hp_past = []\<rparr>"
    by (rule path_usb_step [OF _ demo_connected_move]) (use F in \<open>simp_all add: usb_sys_start_def\<close>)
  then have "?R \<lparr>hp_usb = demo_arrived, hp_can = handed [] (handed [] tx_sys_start), hp_past = []\<rparr>"
    by (rule path_usb_step [OF _ demo_usb_moves(1)]) (use F in simp_all)
  then have "?R \<lparr>hp_usb = demo_scheduled, hp_can = handed [] (handed [] (handed [] tx_sys_start)), hp_past = []\<rparr>"
    by (rule path_usb_step [OF _ demo_usb_moves(2)]) (use F in simp_all)
  then have "?R \<lparr>hp_usb = demo_pushed, hp_can = handed [demo_host_frame] (handed [] (handed [] (handed [] tx_sys_start))), hp_past = []\<rparr>"
    by (rule path_usb_step [OF _ demo_usb_moves(3)]) (use F r in simp, use F in \<open>metis prefix_order.refl\<close>)
  then have s: "?R \<lparr>hp_usb = demo_pushed, hp_can = handed [demo_host_frame] tx_sys_start, hp_past = []\<rparr>" by (simp add: h)
  let ?t = "task_pass ESP_OK (handed [demo_host_frame] tx_sys_start)"
  have "?R \<lparr>hp_usb = demo_pushed\<lparr>uy_ring := ts_ring ?t\<rparr>, hp_can = ?t, hp_past = []\<rparr>"
    by (rule path_can_step [OF s tx_move.task]) (simp_all add: handed_def tx_compute)
  then have "?R \<lparr>hp_usb = (demo_pushed\<lparr>uy_ring := ts_ring ?t\<rparr>)\<lparr>uy_ring := ts_ring (hp_can demo_transmitted)\<rparr>,
      hp_can = hp_can demo_transmitted, hp_past = []\<rparr>"
    unfolding demo_transmitted_def Let_def path_sys.select_convs
    by (rule path_can_step [OF _ tx_move.complete]) (simp_all add: handed_def tx_compute)
  then show ?thesis by (simp add: demo_transmitted_def handed_def tx_compute)
qed


end
