(* ===== verification/Tx_Grammar.thy ===== *)
theory Tx_Grammar
  imports Pcan_Msg
begin

text \<open>
  A reference parser for EP2-OUT transfers and its equivalence with the decoder of \<open>Pcan_Msg\<close>. The
  decoder walks a buffer with a position, checks each read against the length and takes fields
  apart with masks and shifts; the reference consumes a byte list and computes with numbers.
\<close>

subsection \<open>The grammar\<close>

text \<open>Multi-byte fields are little-endian numbers.\<close>

fun le_value :: "u8 list \<Rightarrow> nat" where
  "le_value [] = 0"
| "le_value (b # bs) = unat b + 256 * le_value bs"

definition take_exact :: "nat \<Rightarrow> u8 list \<Rightarrow> (u8 list \<times> u8 list) option" where
  "take_exact n bs = (if n \<le> length bs then Some (take n bs, drop n bs) else None)"

text \<open>A record: a status byte; then for a status record a function, a number and a payload, for a frame
  the identifier word, the data unless it is a remote frame, and a tag when bit 0 of the word asks
  for the frame's echo. The result is the frame, if any, and the bytes left over.\<close>

fun grammar_record :: "u8 \<Rightarrow> u8 list \<Rightarrow> (pcan_frame list \<times> u8 list) option" where
  "grammar_record wid [] = None"
| "grammar_record wid (sl # bs) =
     (let code = unat sl mod 16; ext = bit sl 5; rtr = bit sl 4
      in if bit sl 6 then map_option (\<lambda>(_, bs). ([], bs)) (take_exact (2 + code) bs)
         else Option.bind (take_exact (if ext then 4 else 2) bs) (\<lambda>(word, bs).
           Option.bind (take_exact (if rtr then 0 else min 8 code) bs) (\<lambda>(dat, bs).
             let w = le_value word; srr = odd w; ss = odd (w div 2)
             in Option.bind (take_exact (if srr then 1 else 0) bs) (\<lambda>(_, bs).
               Some ([\<lparr>fr_id = word_of_nat (w div (if ext then 8 else 32)), fr_ts16 = 0, fr_dlc = word_of_nat (min 8 code),
                       fr_flags = tx_frame_flags ext rtr ss srr, fr_data = dat @ replicate (8 - length dat) 0,
                       fr_writer_id = wid\<rparr>], bs)))))"

text \<open>A batch of \<open>k\<close> announced records, of which at most \<open>room\<close> frames are wanted.\<close>

fun grammar_batch :: "nat \<Rightarrow> nat \<Rightarrow> u8 \<Rightarrow> u8 list \<Rightarrow> pcan_frame list option" where
  "grammar_batch room 0 wid bs = Some []"
| "grammar_batch room (Suc k) wid bs =
     (if room = 0 then Some []
      else Option.bind (grammar_record wid bs) (\<lambda>(fs, bs).
        map_option ((@) fs) (grammar_batch (room - length fs) k wid bs)))"

subsection \<open>Numbers and words\<close>

lemma unat_or_push:
  fixes a b :: "'a::len word"
  assumes "unat a < 2 ^ n" "unat a + 2 ^ n * unat b < 2 ^ LENGTH('a)"
  shows "unat (a OR push_bit n b) = unat a + 2 ^ n * unat b"
proof -
  have a: "take_bit n a = a"
    using assms(1) by (intro word_unat_eq_iff [THEN iffD2]) (simp add: unsigned_take_bit_eq take_bit_nat_eq_self)
  have "a OR push_bit n b = a + push_bit n b"
    by (rule disjunctive_add [symmetric]) (metis a bit_push_bit_iff bit_take_bit_iff not_le)
  moreover have "unat (push_bit n b) = take_bit LENGTH('a) (2 ^ n * unat b)"
    unfolding unsigned_push_bit_eq by (simp add: push_bit_nat_def mult.commute)
  then have "unat (push_bit n b) = 2 ^ n * unat b" using assms(2) by (simp add: take_bit_nat_eq_self)
  ultimately show ?thesis using assms(2) by (simp add: unat_add_lem [THEN iffD1])
qed

lemma le16_value: "unat (pcan_get_le16 buf i) = unat (buf ! i) + 256 * unat (buf ! (i + 1))"
  using unat_or_push [of "ucast (buf ! i) :: u16" 8 "ucast (buf ! (i + 1))"]
    unat_u8_less [of "buf ! i"] unat_u8_less [of "buf ! (i + 1)"]
  by (simp add: pcan_get_le16_def unat_ucast_up)

lemma le32_value:
  "unat (pcan_get_le32 buf i) =
     unat (buf ! i) + 256 * (unat (buf ! (i + 1)) + 256 * (unat (buf ! (i + 2)) + 256 * unat (buf ! (i + 3))))"
proof -
  let ?w = "\<lambda>k. ucast (buf ! (i + k)) :: u32"
  have b: "unat (?w k) < 256" "unat (?w k) = unat (buf ! (i + k))" for k
    using unat_u8_less [of "buf ! (i + k)"] by (simp_all add: unat_ucast_up)
  have 1: "unat (?w 0 OR push_bit 8 (?w 1)) = unat (?w 0) + 256 * unat (?w 1)"
    using unat_or_push [of "?w 0" 8 "?w 1"] b(1) [of 0] b(1) [of 1] by simp
  have 2: "unat ((?w 0 OR push_bit 8 (?w 1)) OR push_bit 16 (?w 2)) = unat (?w 0) + 256 * unat (?w 1) + 65536 * unat (?w 2)"
    using unat_or_push [of "?w 0 OR push_bit 8 (?w 1)" 16 "?w 2"] 1 b(1) [of 0] b(1) [of 1] b(1) [of 2] by simp
  have "unat (((?w 0 OR push_bit 8 (?w 1)) OR push_bit 16 (?w 2)) OR push_bit 24 (?w 3)) =
      unat (?w 0) + 256 * unat (?w 1) + 65536 * unat (?w 2) + 16777216 * unat (?w 3)"
    using unat_or_push [of "(?w 0 OR push_bit 8 (?w 1)) OR push_bit 16 (?w 2)" 24 "?w 3"] 2
      b(1) [of 0] b(1) [of 1] b(1) [of 2] b(1) [of 3] by simp
  then show ?thesis by (simp add: pcan_get_le32_def unat_ucast_up or.assoc)
qed

lemma bit_odd: "bit (w :: 'a::len word) n \<longleftrightarrow> odd (unat w div 2 ^ n)"
proof -
  have "bit (unat w) n \<longleftrightarrow> bit w n" by (auto simp: bit_simps dest: bit_imp_le_length)
  then show ?thesis by (simp add: bit_iff_odd [of "unat w"])
qed

lemma bit_7_31:
  "bit (7 :: u32) 0" "bit (7 :: u32) (Suc 0)" "bit (31 :: u16) 0" "bit (31 :: u16) (Suc 0)"
  by code_simp+

lemma word_fields:
  fixes w :: u32 and h :: u16
  shows "bit (ucast (w AND 7) :: u8) 0 \<longleftrightarrow> odd (unat w)" "bit (ucast (w AND 7) :: u8) (Suc 0) \<longleftrightarrow> odd (unat w div 2)"
    "bit (ucast (h AND 31) :: u8) 0 \<longleftrightarrow> odd (unat h)" "bit (ucast (h AND 31) :: u8) (Suc 0) \<longleftrightarrow> odd (unat h div 2)"
  using bit_odd [of w 0] bit_odd [of w 1] bit_odd [of h 0] bit_odd [of h 1] bit_7_31
  by (simp_all add: bit_simps)

lemma word_of_unat: "word_of_nat (unat w) = w"
  by simp

lemma id_fields:
  fixes w :: u32 and h :: u16
  shows "drop_bit 3 w = word_of_nat (unat w div 8)" "ucast (drop_bit 5 h) = (word_of_nat (unat h div 32) :: u32)"
proof -
  have "unat (drop_bit 3 w) = unat w div 8" by (simp add: drop_bit_eq_div unat_div)
  then show "drop_bit 3 w = word_of_nat (unat w div 8)" by (metis word_of_unat)
  have "unat (ucast (drop_bit 5 h) :: u32) = unat h div 32"
    by (simp add: unat_ucast_up drop_bit_eq_div unat_div)
  then show "ucast (drop_bit 5 h) = (word_of_nat (unat h div 32) :: u32)" by (metis word_of_unat)
qed

lemma code_fields:
  fixes sl :: u8
  shows "unat (sl AND 15) = unat sl mod 16" "sat_dlc (sl AND 15) = word_of_nat (min 8 (unat sl mod 16))"
    "unat (sat_dlc (sl AND 15)) = min 8 (unat sl mod 16)"
proof -
  have "sl AND 15 = take_bit 4 sl" by (simp add: take_bit_eq_mask mask_eq_exp_minus_1)
  then show 1: "unat (sl AND 15) = unat sl mod 16" by (simp add: take_bit_eq_mod unat_mod)
  show 2: "unat (sat_dlc (sl AND 15)) = min 8 (unat sl mod 16)"
    by (auto simp: sat_dlc_def word_less_nat_alt 1)
  then show "sat_dlc (sl AND 15) = word_of_nat (min 8 (unat sl mod 16))" by (metis word_of_unat)
qed

lemma data_field: "length d \<le> 8 \<Longrightarrow> memcpy_at (replicate 8 0) 0 d = d @ replicate (8 - length d) (0 :: u8)"
  by (simp add: memcpy_at_def)

subsection \<open>Positions and lists\<close>

lemma take_exact_slice:
  assumes "len \<le> length buf" "p \<le> len"
  shows "take_exact n (drop p (take len buf)) =
    (if p + n \<le> len then Some (take n (drop p buf), drop (p + n) (take len buf)) else None)"
  using assms by (auto simp: take_exact_def drop_take min_def add.commute)

lemma le_value_slices:
  "i + 2 \<le> length buf \<Longrightarrow> le_value (take 2 (drop i buf)) = unat (pcan_get_le16 buf i)"
  "i + 4 \<le> length buf \<Longrightarrow> le_value (take 4 (drop i buf)) = unat (pcan_get_le32 buf i)"
proof -
  show "le_value (take 2 (drop i buf)) = unat (pcan_get_le16 buf i)" if "i + 2 \<le> length buf"
  proof -
    have "take 2 (drop i buf) = [buf ! i, buf ! (i + 1)]"
      using that by (intro nth_equalityI) (auto simp: less_Suc_eq numeral_2_eq_2)
    then show ?thesis by (simp add: le16_value)
  qed
  show "le_value (take 4 (drop i buf)) = unat (pcan_get_le32 buf i)" if "i + 4 \<le> length buf"
  proof -
    have "take 4 (drop i buf) = [buf ! i, buf ! (i + 1), buf ! (i + 2), buf ! (i + 3)]"
      using that by (intro nth_equalityI) (auto simp: less_Suc_eq eval_nat_numeral)
    then show ?thesis by (simp only: le32_value le_value.simps) simp
  qed
qed

definition dec_rest :: "u8 list \<Rightarrow> dec_result \<Rightarrow> (pcan_frame list \<times> u8 list) option" where
  "dec_rest bs r = (case r of DecBad \<Rightarrow> None | DecSkip p \<Rightarrow> Some ([], drop p bs) | DecFrame f p \<Rightarrow> Some ([f], drop p bs))"

definition ref_frame :: "u8 \<Rightarrow> u8 \<Rightarrow> nat \<Rightarrow> u8 list \<Rightarrow> pcan_frame" where
  "ref_frame wid sl w dat =
     \<lparr>fr_id = word_of_nat (w div (if bit sl 5 then 8 else 32)), fr_ts16 = 0, fr_dlc = word_of_nat (min 8 (unat sl mod 16)),
      fr_flags = tx_frame_flags (bit sl 5) (bit sl 4) (odd (w div 2)) (odd w), fr_data = dat @ replicate (8 - length dat) 0,
      fr_writer_id = wid\<rparr>"

lemma grammar_data:
  assumes "len \<le> length buf" "p \<le> len" "\<not> bit sl 6"
  defines "a \<equiv> p + (if bit sl 5 then 4 else 2)"
  defines "b \<equiv> a + (if bit sl 4 then 0 else min 8 (unat sl mod 16))" and "w \<equiv> le_value (take (a - p) (drop p buf))"
  defines "c \<equiv> b + (if odd w then 1 else 0)"
  shows "grammar_record wid (sl # drop p (take len buf)) =
    (if c \<le> len then Some ([ref_frame wid sl w (take (b - a) (drop a buf))], drop c (take len buf)) else None)"
proof -
  note slice = take_exact_slice [OF assms(1)]
  have 1: "take_exact (if bit sl 5 then 4 else 2) (drop p (take len buf)) =
      (if a \<le> len then Some (take (a - p) (drop p buf), drop a (take len buf)) else None)"
    using slice [OF assms(2)] by (simp add: a_def)
  have 2: "a \<le> len \<Longrightarrow> take_exact (if bit sl 4 then 0 else min 8 (unat sl mod 16)) (drop a (take len buf)) =
      (if b \<le> len then Some (take (b - a) (drop a buf), drop b (take len buf)) else None)"
    using slice [of a] by (simp add: b_def)
  have 3: "b \<le> len \<Longrightarrow> take_exact (if odd w then 1 else 0) (drop b (take len buf)) =
      (if c \<le> len then Some (take (c - b) (drop b buf), drop c (take len buf)) else None)"
    using slice [of b] by (simp add: c_def)
  have le: "a \<le> b" "b \<le> c" by (simp_all add: b_def c_def)
  show ?thesis
    unfolding grammar_record.simps Let_def 1 ref_frame_def
    using assms(3) le 2 3 by (auto simp: w_def [symmetric])
qed

lemma decoder_data:
  fixes sl :: u8
  assumes "len \<le> length buf" "p \<le> len"
  defines "a \<equiv> p + (if bit sl 5 then 4 else 2)"
  defines "b \<equiv> a + (if bit sl 4 then 0 else min 8 (unat sl mod 16))" and "w \<equiv> le_value (take (a - p) (drop p buf))"
  defines "c \<equiv> b + (if odd w then 1 else 0)"
  shows "decode_tx_data buf len wid sl p = (if c \<le> len then DecFrame (ref_frame wid sl w (take (b - a) (drop a buf))) c else DecBad)"
proof -
  define n where "n = (if bit sl 4 then 0 else min 8 (unat sl mod 16))"
  have n: "(if bit sl 4 then 0 else unat (sat_dlc (sl AND 15))) = n" by (simp add: n_def code_fields(3))
  have b: "b = a + n" by (simp add: b_def n_def)
  have d: "length (take n xs) \<le> 8" for xs :: "u8 list" by (simp add: n_def min_le_iff_disj)
  note fields = ref_frame_def id_fields word_fields code_fields(3) code_fields(2) [symmetric] c_def b n_def
  show ?thesis
  proof (cases "bit sl 5")
    case True
    then have a: "a = p + 4" by (simp add: a_def)
    have w: "p + 4 \<le> len \<Longrightarrow> w = unat (pcan_get_le32 buf p)" using le_value_slices(2) [of p buf] assms(1) by (simp add: w_def a)
    show ?thesis
      using True data_field [OF d [of "drop (p + 4) buf"]]
      by (cases "p + 4 \<le> len"; cases "bit sl 4") (simp_all add: decode_tx_data_def Let_def fields a w)
  next
    case False
    then have a: "a = p + 2" by (simp add: a_def)
    have w: "p + 2 \<le> len \<Longrightarrow> w = unat (pcan_get_le16 buf p)" using le_value_slices(1) [of p buf] assms(1) by (simp add: w_def a)
    show ?thesis
      using False data_field [OF d [of "drop (p + 2) buf"]]
      by (cases "p + 2 \<le> len"; cases "bit sl 4") (simp_all add: decode_tx_data_def Let_def fields a w)
  qed
qed

lemma data_is_grammar:
  assumes "len \<le> length buf" "p \<le> len" "\<not> bit sl 6"
  shows "grammar_record wid (sl # drop p (take len buf)) = dec_rest (take len buf) (decode_tx_data buf len wid sl p)"
  unfolding grammar_data [OF assms] decoder_data [OF assms(1,2)] by (simp add: dec_rest_def)

lemma record_is_grammar:
  assumes "len \<le> length buf" "pos \<le> len"
  shows "grammar_record wid (drop pos (take len buf)) = dec_rest (take len buf) (decode_tx_record buf len wid pos)"
proof (cases "pos < len")
  case False
  then show ?thesis using assms by (simp add: decode_tx_record_def dec_rest_def)
next
  case True
  let ?sl = "buf ! pos"
  have d: "drop pos (take len buf) = ?sl # drop (Suc pos) (take len buf)"
    using True assms(1) by (metis Cons_nth_drop_Suc length_take min.absorb2 nth_take)
  note slice = take_exact_slice [OF assms(1)]
  show ?thesis
  proof (cases "bit ?sl 6")
    case sk: True
    then show ?thesis
      using True slice [of "Suc pos"] by (simp add: d decode_tx_record_def dec_rest_def code_fields Let_def)
  next
    case data: False
    show ?thesis
      using data True data_is_grammar [OF assms(1), of "Suc pos" ?sl wid] by (simp add: d decode_tx_record_def)
  qed
qed

subsection \<open>The property\<close>

lemma record_next:
  assumes "pos \<le> len"
  shows "decode_tx_record buf len wid pos = DecSkip p \<Longrightarrow> p \<le> len"
    "decode_tx_record buf len wid pos = DecFrame f p \<Longrightarrow> p \<le> len"
  using decode_tx_record_skip decode_tx_record_frame by blast+

lemma append_Nil_map [simp]: "map_option ((@) []) r = r"
  by (cases r) simp_all

lemma loop_is_grammar:
  assumes "len \<le> length buf" "pos \<le> len"
  shows "decode_tx_loop buf len wid m k pos out =
    map_option ((@) out) (grammar_batch (nat (m - int (length out))) k wid (drop pos (take len buf)))"
  using assms(2)
proof (induction k arbitrary: pos out)
  case (Suc k)
  show ?case
  proof (cases "m \<le> int (length out)")
    case False
    then have room: "nat (m - int (length (out @ [f]))) = nat (m - int (length out)) - 1" for f by simp
    show ?thesis
    proof (cases "decode_tx_record buf len wid pos")
      case DecBad
      then show ?thesis using False record_is_grammar [OF assms(1) Suc.prems] by (simp add: dec_rest_def)
    next
      case (DecSkip p)
      then show ?thesis
        using False record_is_grammar [OF assms(1) Suc.prems] Suc.IH [of p out] record_next [OF Suc.prems]
        by (simp add: dec_rest_def)
    next
      case (DecFrame f p)
      then show ?thesis
        using False room record_is_grammar [OF assms(1) Suc.prems] Suc.IH [of p "out @ [f]"] record_next [OF Suc.prems]
        by (simp add: dec_rest_def option.map_comp comp_def del: nat_diff_distrib)
    qed
  qed simp
qed simp

text \<open>C12. The decoder of host transfers is equivalent to the reference parser: on every buffer, whatever
  its bytes, and for every length and capacity, it returns the frames of the grammar's reading of
  the transfer, and -1 when there is none: no room, no more than a header, or a record cut short.\<close>

theorem decoder_is_grammar:
  assumes "len \<le> length buf"
  shows "pcan_msg_decode_tx buf len max_out =
    (if max_out \<le> 0 \<or> len \<le> 2 then None
     else grammar_batch (nat max_out) (unat (buf ! 1)) (if 64 \<le> len then buf ! 63 else 0) (drop 2 (take len buf)))"
  using loop_is_grammar [OF assms, of 2 "if 64 \<le> len then buf ! 63 else 0" max_out "unat (buf ! 1)" "[]"]
  by (auto simp: pcan_msg_decode_tx_def Let_def)

theorem decoder_is_grammar_witness:
  "pcan_msg_decode_tx demo_transfer 7 32 = grammar_batch 32 1 0 [0x02, 0x60, 0x24, 0xDE, 0xAD] \<and>
   pcan_msg_decode_tx demo_transfer 6 32 = None"
proof -
  have "grammar_batch 32 1 0 [0x02, 0x60, 0x24, 0xDE] = None" by code_simp
  then show ?thesis
    using decoder_is_grammar [of 7 demo_transfer 32] decoder_is_grammar [of 6 demo_transfer 32]
    by (simp add: demo_transfer_def del: grammar_batch.simps)
qed

end
