(* ===== verification/Transceiver.thy ===== *)
theory Transceiver
  imports Twai_Hal
begin

text \<open>
  The standby pin of the transceiver in \<open>twai_hal.c\<close>: \<open>twai_set_standby\<close> for any pin and polarity, and
  the controller layer of \<open>Twai_Hal\<close> with the calls that drive it. The shipped \<open>config.h\<close> disables the
  pin, so \<open>Twai_Hal\<close> leaves it out; here the layer with the pin is shown to be that layer, with the
  transceiver awake exactly while a driver is installed.
\<close>

subsection \<open>The pin\<close>

record standby_cfg =
  CFG_TWAI_STANDBY_GPIO :: int
  CFG_TWAI_STANDBY_ACTIVE_LOW :: bool

definition shipped_standby :: standby_cfg where
  "shipped_standby = \<lparr>CFG_TWAI_STANDBY_GPIO = -1, CFG_TWAI_STANDBY_ACTIVE_LOW = True\<rparr>"

text \<open>ESP-IDF's GPIO driver, on an abstract state: configuring the pins of a mask as outputs, and
  setting a level.\<close>

record 'g gpio_drv =
  gpio_config :: "u64 \<Rightarrow> 'g \<Rightarrow> esp_err \<times> 'g"
  gpio_set_level :: "int \<Rightarrow> int \<Rightarrow> 'g \<Rightarrow> 'g"

text \<open>The level that means standby, or not.\<close>

definition standby_level :: "standby_cfg \<Rightarrow> bool \<Rightarrow> int" where
  "standby_level cfg standby =
     (if CFG_TWAI_STANDBY_ACTIVE_LOW cfg then (if standby then 1 else 0) else (if standby then 0 else 1))"

text \<open>The state is the static \<open>configured\<close> and the GPIO driver's.\<close>

definition twai_set_standby :: "standby_cfg \<Rightarrow> 'g gpio_drv \<Rightarrow> bool \<Rightarrow> bool \<times> 'g \<Rightarrow> bool \<times> 'g" where
  "twai_set_standby cfg io standby p =
     (let (configured, g) = p in
      if CFG_TWAI_STANDBY_GPIO cfg < 0 then p
      else
        let (e, g) = (if configured then (ESP_OK, g)
                      else gpio_config io (push_bit (nat (CFG_TWAI_STANDBY_GPIO cfg)) 1) g)
        in if e \<noteq> ESP_OK then (configured, g)
           else (True, gpio_set_level io (CFG_TWAI_STANDBY_GPIO cfg) (standby_level cfg standby) g))"

subsection \<open>The layer with the pin\<close>

type_synonym ('d, 'g) can_pin = "'d can \<times> (bool \<times> 'g)"

definition twai_stop_pin ::
    "standby_cfg \<Rightarrow> 'g gpio_drv \<Rightarrow> 'd twai_drv \<Rightarrow> ('d, 'g) can_pin \<Rightarrow> esp_err \<times> ('d, 'g) can_pin" where
  "twai_stop_pin cfg io drv s =
     (let (c, p) = s; (e, c') = pcan_twai_stop drv c
      in (e, c', if s_installed (fst c) \<and> e = ESP_OK then twai_set_standby cfg io True p else p))"

definition twai_bring_up_pin ::
    "standby_cfg \<Rightarrow> 'g gpio_drv \<Rightarrow> 'd twai_drv \<Rightarrow> u32 \<Rightarrow> pcan_twai_mode \<Rightarrow> ('d, 'g) can_pin \<Rightarrow> esp_err \<times> ('d, 'g) can_pin" where
  "twai_bring_up_pin cfg io drv bitrate mode s =
     (let (c, p) = s; (e, c) = twai_bring_up drv bitrate mode c
      in (e, c, if e = ESP_OK then twai_set_standby cfg io False p else p))"

definition twai_start_pin ::
    "standby_cfg \<Rightarrow> 'g gpio_drv \<Rightarrow> 'd twai_drv \<Rightarrow> u32 \<Rightarrow> pcan_twai_mode \<Rightarrow> ('d, 'g) can_pin \<Rightarrow> esp_err \<times> ('d, 'g) can_pin" where
  "twai_start_pin cfg io drv bitrate mode s =
     (if s_installed (fst (fst s))
      then let (se, s) = twai_stop_pin cfg io drv s
           in if se \<noteq> ESP_OK then (se, s) else twai_bring_up_pin cfg io drv bitrate mode s
      else twai_bring_up_pin cfg io drv bitrate mode s)"

fun pin_call :: "standby_cfg \<Rightarrow> 'g gpio_drv \<Rightarrow> 'd twai_drv \<Rightarrow> can_req \<Rightarrow> ('d, 'g) can_pin \<Rightarrow> ('d, 'g) can_pin" where
  "pin_call cfg io drv (CallStart r m) s = snd (twai_start_pin cfg io drv r m s)"
| "pin_call cfg io drv CallStop s = snd (twai_stop_pin cfg io drv s)"
| "pin_call cfg io drv (CallReconfigure r m) s =
     snd (twai_start_pin cfg io drv (if r \<noteq> 0 then r else s_bitrate (fst (fst s))) m s)"
| "pin_call cfg io drv CallAlerts s = (snd (pcan_twai_service_alerts drv (fst s)), snd s)"

subsection \<open>The layer without it\<close>

lemma bring_up_pin_fst:
  "map_prod id fst (twai_bring_up_pin cfg io drv r m (c, p)) = twai_bring_up drv r m c"
  by (simp add: twai_bring_up_pin_def split_beta Let_def)

lemma stop_pin_fst: "map_prod id fst (twai_stop_pin cfg io drv (c, p)) = pcan_twai_stop drv c"
  by (simp add: twai_stop_pin_def split_beta Let_def)

lemma start_pin_fst: "map_prod id fst (twai_start_pin cfg io drv r m (c, p)) = pcan_twai_start drv r m c"
proof -
  obtain e c' p' where s: "twai_stop_pin cfg io drv (c, p) = (e, c', p')"
    by (cases "twai_stop_pin cfg io drv (c, p)") auto
  have "pcan_twai_stop drv c = (e, c')" using stop_pin_fst [of cfg io drv c p] s by simp
  then show ?thesis
    using s bring_up_pin_fst [of cfg io drv r m c' p'] bring_up_pin_fst [of cfg io drv r m c p]
    by (simp add: twai_start_pin_def pcan_twai_start_def)
qed

lemma pin_call_fst: "fst (pin_call cfg io drv k (c, p)) = can_call drv k c"
  using start_pin_fst [of cfg io drv _ _ c p] stop_pin_fst [of cfg io drv c p]
  by (cases k) (simp_all add: pcan_twai_reconfigure_def Let_def, (metis fst_conv snd_conv snd_map_prod)+)

subsection \<open>The pin follows the driver\<close>

definition gpio_documented :: "standby_cfg \<Rightarrow> 'g gpio_drv \<Rightarrow> ('g \<Rightarrow> int) \<Rightarrow> bool" where
  "gpio_documented cfg io lvl \<longleftrightarrow> (\<forall>l g. lvl (gpio_set_level io (CFG_TWAI_STANDBY_GPIO cfg) l g) = l)"

definition pin_works :: "standby_cfg \<Rightarrow> 'g gpio_drv \<Rightarrow> bool" where
  "pin_works cfg io \<longleftrightarrow> CFG_TWAI_STANDBY_GPIO cfg \<ge> 0 \<and> (\<forall>m g. fst (gpio_config io m g) = ESP_OK)"

text \<open>Once configured the pin has the level of the driver's state; while a driver is installed it is
  configured, unless configuring fails.\<close>

definition pin_ok :: "standby_cfg \<Rightarrow> 'g gpio_drv \<Rightarrow> ('g \<Rightarrow> int) \<Rightarrow> ('d, 'g) can_pin \<Rightarrow> bool" where
  "pin_ok cfg io lvl s \<longleftrightarrow>
     (fst (snd s) \<longrightarrow> lvl (snd (snd s)) = standby_level cfg (\<not> s_installed (fst (fst s)))) \<and>
     (pin_works cfg io \<and> s_installed (fst (fst s)) \<longrightarrow> fst (snd s))"

lemma set_standby_ok:
  assumes "gpio_documented cfg io lvl" "fst p \<longrightarrow> CFG_TWAI_STANDBY_GPIO cfg \<ge> 0"
  shows "fst (twai_set_standby cfg io b p) \<Longrightarrow> lvl (snd (twai_set_standby cfg io b p)) = standby_level cfg b"
    "pin_works cfg io \<Longrightarrow> fst (twai_set_standby cfg io b p)"
  using assms
  by (auto simp: twai_set_standby_def gpio_documented_def pin_works_def split_beta Let_def split: if_splits)

lemma set_standby_pin:
  "fst (twai_set_standby cfg io b p) \<Longrightarrow> fst p \<longrightarrow> CFG_TWAI_STANDBY_GPIO cfg \<ge> 0 \<Longrightarrow> CFG_TWAI_STANDBY_GPIO cfg \<ge> 0"
  by (auto simp: twai_set_standby_def split_beta Let_def split: if_splits)

definition pin_inv :: "standby_cfg \<Rightarrow> 'g gpio_drv \<Rightarrow> ('g \<Rightarrow> int) \<Rightarrow> ('d, 'g) can_pin \<Rightarrow> bool" where
  "pin_inv cfg io lvl s \<longleftrightarrow> pin_ok cfg io lvl s \<and> (fst (snd s) \<longrightarrow> CFG_TWAI_STANDBY_GPIO cfg \<ge> 0)"

lemma moved_pin_inv:
  assumes "gpio_documented cfg io lvl" "pin_inv cfg io lvl (c, p)" "s_installed (fst c') = (\<not> b)"
  shows "pin_inv cfg io lvl (c', twai_set_standby cfg io b p)"
  using assms set_standby_ok [OF assms(1), of p b] set_standby_pin [of cfg io b p]
  by (auto simp: pin_inv_def pin_ok_def)

lemma same_pin_inv:
  "pin_inv cfg io lvl (c, p) \<Longrightarrow> s_installed (fst c') = s_installed (fst c) \<Longrightarrow> pin_inv cfg io lvl (c', p)"
  by (simp add: pin_inv_def pin_ok_def)

lemma stop_installed:
  "s_installed (fst (snd (pcan_twai_stop drv c))) \<longleftrightarrow> s_installed (fst c) \<and> fst (pcan_twai_stop drv c) \<noteq> ESP_OK"
  by (auto simp: pcan_twai_stop_def split_beta Let_def)

lemma bring_up_installed:
  "s_installed (fst (snd (twai_bring_up drv r m c))) \<longleftrightarrow> s_installed (fst c) \<or> fst (twai_bring_up drv r m c) = ESP_OK"
  by (auto simp: twai_bring_up_def twai_install_start_def split_beta Let_def split: option.split)

lemma stop_pin_inv:
  assumes "gpio_documented cfg io lvl" "pin_inv cfg io lvl s"
  shows "pin_inv cfg io lvl (snd (twai_stop_pin cfg io drv s))"
proof -
  obtain c p where s: "s = (c, p)" by (cases s)
  show ?thesis
    using moved_pin_inv [OF assms(1), of c p "snd (pcan_twai_stop drv c)" True]
      same_pin_inv [of cfg io lvl c p "snd (pcan_twai_stop drv c)"] assms(2) stop_installed [of drv c]
    by (auto simp: s twai_stop_pin_def split_beta Let_def)
qed

lemma bring_up_pin_inv:
  assumes "gpio_documented cfg io lvl" "pin_inv cfg io lvl s"
  shows "pin_inv cfg io lvl (snd (twai_bring_up_pin cfg io drv r m s))"
proof -
  obtain c p where s: "s = (c, p)" by (cases s)
  show ?thesis
    using moved_pin_inv [OF assms(1), of c p "snd (twai_bring_up drv r m c)" False]
      same_pin_inv [of cfg io lvl c p "snd (twai_bring_up drv r m c)"] assms(2) bring_up_installed [of drv r m c]
    by (auto simp: s twai_bring_up_pin_def split_beta Let_def)
qed

lemma start_pin_inv:
  assumes "gpio_documented cfg io lvl" "pin_inv cfg io lvl s"
  shows "pin_inv cfg io lvl (snd (twai_start_pin cfg io drv r m s))"
  using stop_pin_inv [OF assms] bring_up_pin_inv [OF assms] bring_up_pin_inv [OF assms(1) stop_pin_inv [OF assms]]
  by (auto simp: twai_start_pin_def split_beta Let_def)

lemma pin_call_inv:
  assumes "gpio_documented cfg io lvl" "pin_inv cfg io lvl s"
  shows "pin_inv cfg io lvl (pin_call cfg io drv k s)"
proof (cases k)
  case CallAlerts
  have "s_installed (fst (snd (pcan_twai_service_alerts drv (fst s)))) = s_installed (fst (fst s))"
    by (simp add: pcan_twai_service_alerts_def split_beta Let_def)
  with CallAlerts same_pin_inv [of cfg io lvl "fst s" "snd s"] assms(2) show ?thesis by simp
qed (simp_all add: stop_pin_inv [OF assms] start_pin_inv [OF assms])

text \<open>The layer with the pin is the layer of \<open>Twai_Hal\<close>, whatever the control task calls and the driver
  answers; a configured pin is at standby exactly while no driver is installed, and while one is
  installed the pin is configured unless configuring it fails. A disabled pin is never touched.\<close>

theorem transceiver_follows_driver:
  assumes "gpio_documented cfg io lvl"
  shows "let s = fold (pin_call cfg io drv) calls ((hal_init, d), (False, g))
    in fst s = fold (can_call drv) calls (hal_init, d) \<and> pin_ok cfg io lvl s \<and>
      (CFG_TWAI_STANDBY_GPIO cfg < 0 \<longrightarrow> \<not> fst (snd s))"
proof -
  have f: "fst (fold (pin_call cfg io drv) calls s) = fold (can_call drv) calls (fst s)" for s
  proof (induction calls arbitrary: s)
    case (Cons k calls)
    then show ?case using pin_call_fst [of cfg io drv k "fst s" "snd s"] by simp
  qed simp
  have "pin_inv cfg io lvl s' \<Longrightarrow> pin_inv cfg io lvl (fold (pin_call cfg io drv) calls s')" for s'
    by (induction calls arbitrary: s') (simp_all add: pin_call_inv [OF assms(1)])
  moreover have "pin_inv cfg io lvl ((hal_init, d), (False, g))" by (simp add: pin_inv_def pin_ok_def hal_init_def)
  ultimately have "pin_inv cfg io lvl (fold (pin_call cfg io drv) calls ((hal_init, d), (False, g)))" by blast
  then show ?thesis using f by (auto simp: Let_def pin_inv_def)
qed

text \<open>A pin as its level; the driver of \<open>Twai_Hal\<close> started once.\<close>

definition demo_gpio :: "int gpio_drv" where
  "demo_gpio = \<lparr>gpio_config = (\<lambda>m g. (ESP_OK, g)), gpio_set_level = (\<lambda>p l g. l)\<rparr>"

definition demo_standby :: standby_cfg where
  "demo_standby = \<lparr>CFG_TWAI_STANDBY_GPIO = 10, CFG_TWAI_STANDBY_ACTIVE_LOW = True\<rparr>"

definition demo_pin_run :: "can_req list \<Rightarrow> (demo_drv, int) can_pin" where
  "demo_pin_run calls = fold (pin_call demo_standby demo_gpio demo_twai) calls ((hal_init, TWAI_UNINSTALLED, [], []), (False, 7))"

lemma demo_pin_run: "snd (demo_pin_run [CallStart 500000 TWAI_HAL_MODE_NORMAL]) = (True, 0)"
  by code_simp

theorem transceiver_follows_driver_witness:
  "pin_ok demo_standby demo_gpio id (demo_pin_run [CallStart 500000 TWAI_HAL_MODE_NORMAL]) \<and>
   s_installed (fst (fst (demo_pin_run [CallStart 500000 TWAI_HAL_MODE_NORMAL])))"
proof -
  have "gpio_documented demo_standby demo_gpio id" by (simp add: gpio_documented_def demo_gpio_def)
  from transceiver_follows_driver [OF this, of demo_twai]
  have "pin_ok demo_standby demo_gpio id (demo_pin_run [CallStart 500000 TWAI_HAL_MODE_NORMAL])"
    unfolding demo_pin_run_def Let_def by blast
  then show ?thesis using demo_pin_run by (auto simp: pin_ok_def standby_level_def demo_standby_def split: if_splits)
qed

end
