(* ===== verification/Uds.thy ===== *)
theory Uds
  imports Isotp
begin

text \<open>
  The diagnostic server of the bench mode, \<open>main/uds.c\<close>: one handler per service on the request
  context and the file's static state, and \<open>uds_server_poll\<close>, which takes a request from the ISO-TP
  link, finds and runs its handler and sends the answer. The platform is the record \<open>uds_plat\<close>: the
  CAN hook and the clock of the link, \<open>esp_random\<close> and the task delay, on an abstract environment.
  \<open>esp_restart\<close> does not return; it is the flag \<open>ud_restarted\<close>. Request and response lengths are
  \<open>nat\<close> (a request is at most \<open>ISOTP_MAX_MSG\<close> bytes); all other integers keep their width. The
  \<open>user\<close> pointer, which no handler uses, and the tests for a NULL server or link are left out.
\<close>

subsection \<open>Constants\<close>

definition UDS_SEC_KEY_XOR :: u32 where [simp]: "UDS_SEC_KEY_XOR = 0x5A5A5A5A"
definition UDS_SEC_MAX_ATTEMPTS :: u8 where [simp]: "UDS_SEC_MAX_ATTEMPTS = 3"
definition UDS_SEC_LOCK_MS :: u32 where [simp]: "UDS_SEC_LOCK_MS = 10000"
definition UDS_SEC_LEVEL_1 :: u8 where [simp]: "UDS_SEC_LEVEL_1 = 1"
definition UDS_SEC_LEVEL_DOWNLOAD :: u8 where [simp]: "UDS_SEC_LEVEL_DOWNLOAD = UDS_SEC_LEVEL_1"
definition UDS_MAX_BLOCK_LEN :: u32 where [simp]: "UDS_MAX_BLOCK_LEN = 0x0402"
definition UDS_NRC_WRONG_BSC :: u8 where [simp]: "UDS_NRC_WRONG_BSC = 0x73"
definition UDS_MAX_PENDING_ITERS :: nat where [simp]: "UDS_MAX_PENDING_ITERS = 8"
definition UDS_RESET_DELAY_MS :: u32 where [simp]: "UDS_RESET_DELAY_MS = 50"
definition UDS_POS_RESP_OFFSET :: u8 where [simp]: "UDS_POS_RESP_OFFSET = 0x40"
definition UDS_NEG_RESP_SID :: u8 where [simp]: "UDS_NEG_RESP_SID = 0x7F"
definition UDS_SID_DIAG_SESSION :: u8 where [simp]: "UDS_SID_DIAG_SESSION = 0x10"
definition UDS_SID_ECU_RESET :: u8 where [simp]: "UDS_SID_ECU_RESET = 0x11"
definition UDS_SID_READ_DID :: u8 where [simp]: "UDS_SID_READ_DID = 0x22"
definition UDS_SID_SECURITY :: u8 where [simp]: "UDS_SID_SECURITY = 0x27"
definition UDS_SID_ROUTINE :: u8 where [simp]: "UDS_SID_ROUTINE = 0x31"
definition UDS_SID_REQ_DOWNLOAD :: u8 where [simp]: "UDS_SID_REQ_DOWNLOAD = 0x34"
definition UDS_SID_TRANSFER_DATA :: u8 where [simp]: "UDS_SID_TRANSFER_DATA = 0x36"
definition UDS_SID_REQ_XFER_EXIT :: u8 where [simp]: "UDS_SID_REQ_XFER_EXIT = 0x37"
definition UDS_SID_TESTER_PRES :: u8 where [simp]: "UDS_SID_TESTER_PRES = 0x3E"
definition UDS_SESSION_DEFAULT :: u8 where [simp]: "UDS_SESSION_DEFAULT = 1"
definition UDS_SESSION_PROG :: u8 where [simp]: "UDS_SESSION_PROG = 2"
definition UDS_SESSION_EXTENDED :: u8 where [simp]: "UDS_SESSION_EXTENDED = 3"
definition UDS_SUPPRESS_POS_RSP :: u8 where [simp]: "UDS_SUPPRESS_POS_RSP = 0x80"
definition NRC_GENERAL_REJECT :: u8 where [simp]: "NRC_GENERAL_REJECT = 0x10"
definition NRC_SNS :: u8 where [simp]: "NRC_SNS = 0x11"
definition NRC_SFNS :: u8 where [simp]: "NRC_SFNS = 0x12"
definition NRC_IMLOIF :: u8 where [simp]: "NRC_IMLOIF = 0x13"
definition NRC_BRR :: u8 where [simp]: "NRC_BRR = 0x21"
definition NRC_CNC :: u8 where [simp]: "NRC_CNC = 0x22"
definition NRC_RSE :: u8 where [simp]: "NRC_RSE = 0x24"
definition NRC_ROOR :: u8 where [simp]: "NRC_ROOR = 0x31"
definition NRC_SAD :: u8 where [simp]: "NRC_SAD = 0x33"
definition NRC_IK :: u8 where [simp]: "NRC_IK = 0x35"
definition NRC_ENOA :: u8 where [simp]: "NRC_ENOA = 0x36"
definition NRC_RTDNE :: u8 where [simp]: "NRC_RTDNE = 0x37"
definition NRC_RCRRP :: u8 where [simp]: "NRC_RCRRP = 0x78"
definition NRC_SFNSIAS :: u8 where [simp]: "NRC_SFNSIAS = 0x7E"
definition NRC_SNSIAS :: u8 where [simp]: "NRC_SNSIAS = 0x7F"
definition UDS_P2_SERVER_MS :: u32 where [simp]: "UDS_P2_SERVER_MS = 50"
definition UDS_P2_STAR_SERVER_MS :: u32 where [simp]: "UDS_P2_STAR_SERVER_MS = 5000"
definition UDS_S3_SERVER_MS :: u32 where [simp]: "UDS_S3_SERVER_MS = 5000"
definition UDS_P2_ENC :: u16 where "UDS_P2_ENC = ucast UDS_P2_SERVER_MS"
definition UDS_P2STAR_ENC :: u16 where "UDS_P2STAR_ENC = ucast (UDS_P2_STAR_SERVER_MS div 10)"

subsection \<open>State\<close>

datatype uds_disp = UDS_POSITIVE | UDS_NEGATIVE | UDS_RESPONSE_PENDING | UDS_NO_RESPONSE

text \<open>The request is the list of its \<open>req_len\<close> bytes, the response the caller's buffer.\<close>

record uds_ctx =
  cx_req :: "u8 list"
  cx_resp :: "u8 list"
  cx_resp_cap :: nat
  cx_resp_len :: nat
  cx_nrc :: u8
  cx_functional :: bool
  cx_session :: u8

abbreviation req_len :: "uds_ctx \<Rightarrow> nat" where "req_len c \<equiv> length (cx_req c)"

text \<open>The static state of the handlers.\<close>

record uds_globals =
  g_sec_level :: u8
  g_sec_pending :: u8
  g_sec_seed :: u32
  g_sec_attempts :: u8
  g_sec_lock_ms :: u32
  g_xfer_active :: bool
  g_xfer_size :: u32
  g_xfer_received :: u32
  g_xfer_bsc :: u8
  g_pending_reset :: bool

record 'e uds_plat =
  up_can_tx :: "'e can_tx"
  up_millis :: "'e \<Rightarrow> u32 \<times> 'e"
  up_random :: "'e \<Rightarrow> u32 \<times> 'e"
  up_delay :: "u32 \<Rightarrow> 'e \<Rightarrow> 'e"

type_synonym 'e uds_state = "uds_ctx \<times> uds_globals \<times> 'e"
type_synonym 'e uds_handler_fn = "'e uds_state \<Rightarrow> uds_disp \<times> 'e uds_state"

record 'e uds_service =
  sv_sid :: u8
  sv_min_session_mask :: u8
  sv_fn :: "'e uds_handler_fn option"

record 'e uds_server =
  us_link :: isotp_link
  us_services :: "'e uds_service list"
  us_session :: u8
  us_s3_timer_ms :: u32
  us_s3_timeout_ms :: u32
  us_sec_level :: u8
  us_sec_seed :: u32
  us_resp_dropped :: u32
  us_resp_buf :: "u8 list"
  us_resp_cap :: nat

record 'e uds =
  ud_srv :: "'e uds_server"
  ud_g :: uds_globals
  ud_env :: 'e
  ud_restarted :: bool

subsection \<open>Data identifiers\<close>

definition ascii :: "string \<Rightarrow> u8 list" where "ascii s = map of_char s"

definition k_did_vin :: "u8 list" where "k_did_vin = ascii ''ZZZBENCH0P0000001''"
definition k_did_sppn :: "u8 list" where "k_did_sppn = ascii ''PN-BENCH-0001''"
definition k_did_swv :: "u8 list" where "k_did_swv = ascii ''BENCH-UDS-1.0.0''"
definition k_did_esn :: "u8 list" where "k_did_esn = ascii ''ESN-0000C0FFEE''"
definition k_did_sysn :: "u8 list" where "k_did_sysn = ascii ''ESPCAN32''"

definition k_did_table :: "(u16 \<times> u8 list) list" where
  "k_did_table = [(0xF190, k_did_vin), (0xF187, k_did_sppn), (0xF189, k_did_swv), (0xF18C, k_did_esn),
     (0xF197, k_did_sysn)]"

subsection \<open>Helpers\<close>

definition uds_put_be16 :: "u16 \<Rightarrow> u8 list" where
  "uds_put_be16 v = [ucast (drop_bit 8 v AND 0xFF), ucast (v AND 0xFF)]"

definition uds_nrc_suppressed_on_functional :: "u8 \<Rightarrow> bool" where
  "uds_nrc_suppressed_on_functional nrc \<longleftrightarrow> nrc \<in> {NRC_SNS, NRC_SFNS, NRC_ROOR, NRC_SFNSIAS, NRC_SNSIAS}"

definition uds_sid_has_suppress :: "u8 \<Rightarrow> bool" where
  "uds_sid_has_suppress sid \<longleftrightarrow>
     sid \<in> {UDS_SID_DIAG_SESSION, UDS_SID_ECU_RESET, UDS_SID_ROUTINE, UDS_SID_TESTER_PRES}"

definition uds_sec_level_supported :: "u8 \<Rightarrow> bool" where
  "uds_sec_level_supported level \<longleftrightarrow> level = UDS_SEC_LEVEL_1"

definition uds_find_service :: "'e uds_service list \<Rightarrow> u8 \<Rightarrow> 'e uds_service option" where
  "uds_find_service svcs sid = find (\<lambda>svc. sv_sid svc = sid) svcs"

text \<open>Handing a message to the link.\<close>

definition uds_send_raw :: "'e uds_plat \<Rightarrow> u8 list \<Rightarrow> 'e uds \<Rightarrow> bool \<times> 'e uds" where
  "uds_send_raw P buf s =
     (let (now, e) = up_millis P (ud_env s);
          (r, l, e) = isotp_send (up_can_tx P) now (us_link (ud_srv s)) buf e
      in (r = ISOTP_OK \<or> r = ISOTP_INPROGRESS, s\<lparr>ud_srv := (ud_srv s)\<lparr>us_link := l\<rparr>, ud_env := e\<rparr>))"

definition uds_send_nrc :: "'e uds_plat \<Rightarrow> u8 \<Rightarrow> u8 \<Rightarrow> bool \<Rightarrow> 'e uds \<Rightarrow> bool \<times> 'e uds" where
  "uds_send_nrc P sid nrc functional s =
     (if functional \<and> uds_nrc_suppressed_on_functional nrc then (True, s)
      else let (sent, s) = uds_send_raw P [UDS_NEG_RESP_SID, sid, nrc] s
           in if \<not> sent
              then (False, s\<lparr>ud_srv := (ud_srv s)\<lparr>us_resp_dropped := us_resp_dropped (ud_srv s) + 1\<rparr>\<rparr>)
              else (True, s))"

definition uds_send_response :: "'e uds_plat \<Rightarrow> u8 \<Rightarrow> u8 list \<Rightarrow> bool \<Rightarrow> 'e uds \<Rightarrow> bool \<times> 'e uds" where
  "uds_send_response P sid buf functional s =
     (let (sent, s) = uds_send_raw P buf s
      in if sent then (True, s) else (False, snd (uds_send_nrc P sid NRC_BRR functional s)))"

definition close_xfer :: "uds_globals \<Rightarrow> uds_globals" where
  "close_xfer g = g\<lparr>g_xfer_active := False, g_xfer_size := 0, g_xfer_received := 0, g_xfer_bsc := 0\<rparr>"

definition uds_relock :: "'e uds \<Rightarrow> 'e uds" where
  "uds_relock s = s\<lparr>ud_g := close_xfer ((ud_g s)\<lparr>g_sec_level := 0, g_sec_pending := 0\<rparr>),
     ud_srv := (ud_srv s)\<lparr>us_sec_level := 0\<rparr>\<rparr>"

subsection \<open>The handlers\<close>

text \<open>The two ways a handler ends: \<open>negative\<close> with a response code, \<open>positive\<close> with the response bytes
  written from the start of the response buffer.\<close>

definition negative :: "u8 \<Rightarrow> 'e uds_handler_fn" where
  "negative nrc = (\<lambda>(c, g, e). (UDS_NEGATIVE, c\<lparr>cx_nrc := nrc\<rparr>, g, e))"

definition positive :: "u8 list \<Rightarrow> 'e uds_handler_fn" where
  "positive resp = (\<lambda>(c, g, e).
     (UDS_POSITIVE, c\<lparr>cx_resp := memcpy_at (cx_resp c) 0 resp, cx_resp_len := length resp\<rparr>, g, e))"

fun uds_h_diag_session :: "'e uds_handler_fn" where
  "uds_h_diag_session (c, g, e) = (
     if req_len c < 2 then negative NRC_IMLOIF (c, g, e)
     else
       let sub = cx_req c ! 1 AND NOT UDS_SUPPRESS_POS_RSP
       in if sub \<noteq> UDS_SESSION_DEFAULT \<and> sub \<noteq> UDS_SESSION_PROG \<and> sub \<noteq> UDS_SESSION_EXTENDED
          then negative NRC_SFNS (c, g, e)
          else if cx_resp_cap c < 6 then negative NRC_GENERAL_REJECT (c, g, e)
          else positive ([UDS_SID_DIAG_SESSION + UDS_POS_RESP_OFFSET, sub] @ uds_put_be16 UDS_P2_ENC @
                 uds_put_be16 UDS_P2STAR_ENC) (c\<lparr>cx_session := sub\<rparr>, g, e))"

fun uds_h_ecu_reset :: "'e uds_handler_fn" where
  "uds_h_ecu_reset (c, g, e) = (
     if req_len c < 2 then negative NRC_IMLOIF (c, g, e)
     else
       let sub = cx_req c ! 1 AND NOT UDS_SUPPRESS_POS_RSP
       in if sub < 0x01 \<or> sub > 0x05 then negative NRC_SFNS (c, g, e)
          else if cx_resp_cap c < 2 then negative NRC_GENERAL_REJECT (c, g, e)
          else
            let (c, g) = (if sub = 0x01 \<or> sub = 0x02 \<or> sub = 0x03
                          then (c\<lparr>cx_session := UDS_SESSION_DEFAULT\<rparr>, g\<lparr>g_pending_reset := True\<rparr>) else (c, g))
            in positive [UDS_SID_ECU_RESET + UDS_POS_RESP_OFFSET, sub] (c, g, e))"

text \<open>The loop over the requested identifiers: whether all matches fit, the response so far and the
  number of matches. An identifier the table lacks is skipped; an odd last byte cannot occur.\<close>

fun read_did_loop :: "nat \<Rightarrow> u8 list \<Rightarrow> u8 list \<Rightarrow> nat \<Rightarrow> bool \<times> u8 list \<times> nat" where
  "read_did_loop cap (hi # lo # rest) out matched =
     (let did = push_bit 8 (ucast hi) OR ucast lo :: u16
      in case map_of k_did_table did of
           None \<Rightarrow> read_did_loop cap rest out matched
         | Some dat \<Rightarrow>
             if length out + 2 + length dat > cap then (False, out, matched)
             else read_did_loop cap rest (out @ [ucast (drop_bit 8 did), ucast (did AND 0xFF)] @ dat) (matched + 1))"
| "read_did_loop cap _ out matched = (True, out, matched)"

fun uds_h_read_did :: "'e uds_handler_fn" where
  "uds_h_read_did (c, g, e) = (
     if req_len c < 3 \<or> (req_len c - 1) mod 2 \<noteq> 0 then negative NRC_IMLOIF (c, g, e)
     else if cx_resp_cap c < 1 then negative NRC_GENERAL_REJECT (c, g, e)
     else
       let (fits, out, matched) = read_did_loop (cx_resp_cap c) (drop 1 (cx_req c))
             [UDS_SID_READ_DID + UDS_POS_RESP_OFFSET] 0
       in if \<not> fits \<or> matched = 0
          then negative NRC_ROOR (c\<lparr>cx_resp := memcpy_at (cx_resp c) 0 out\<rparr>, g, e)
          else positive out (c, g, e))"

text \<open>SecurityAccess: the odd sub-function asks for a seed, the even one sends the key.\<close>

definition request_seed :: "'e uds_plat \<Rightarrow> u8 \<Rightarrow> 'e uds_handler_fn" where
  "request_seed P sub = (\<lambda>(c, g, e).
     if cx_resp_cap c < 6 then negative NRC_GENERAL_REJECT (c, g, e)
     else
       let (seed, g, e) =
             (if g_sec_level g = sub then (0, g, e)
              else let (r, e) = up_random P e; seed = (if r = 0 then 0xA5A5A5A5 else r)
                   in (seed, g\<lparr>g_sec_seed := seed, g_sec_pending := sub\<rparr>, e))
       in positive [UDS_SID_SECURITY + UDS_POS_RESP_OFFSET, sub, ucast (drop_bit 24 seed), ucast (drop_bit 16 seed),
            ucast (drop_bit 8 seed), ucast (seed AND 0xFF)] (c, g, e))"

definition be32 :: "u8 list \<Rightarrow> nat \<Rightarrow> u32" where
  "be32 b i = push_bit 24 (ucast (b ! i)) OR push_bit 16 (ucast (b ! (i + 1))) OR
     push_bit 8 (ucast (b ! (i + 2))) OR ucast (b ! (i + 3))"

definition count_bad_key :: "uds_globals \<Rightarrow> u8 \<times> uds_globals" where
  "count_bad_key g =
     (let g = g\<lparr>g_sec_pending := 0, g_sec_attempts := g_sec_attempts g + 1\<rparr>
      in if g_sec_attempts g \<ge> UDS_SEC_MAX_ATTEMPTS
         then (NRC_ENOA, g\<lparr>g_sec_attempts := 0, g_sec_lock_ms := UDS_SEC_LOCK_MS\<rparr>)
         else (NRC_IK, g))"

definition send_key :: "u8 \<Rightarrow> u8 \<Rightarrow> 'e uds_handler_fn" where
  "send_key sub seed_level = (\<lambda>(c, g, e).
     if req_len c < 6 then negative NRC_IMLOIF (c, g, e)
     else if g_sec_pending g = 0 \<or> g_sec_pending g \<noteq> seed_level then negative NRC_RSE (c, g, e)
     else if cx_resp_cap c < 2 then negative NRC_GENERAL_REJECT (c, g, e)
     else if be32 (cx_req c) 2 \<noteq> g_sec_seed g XOR UDS_SEC_KEY_XOR then
       let (nrc, g) = count_bad_key g in negative nrc (c, g, e)
     else positive [UDS_SID_SECURITY + UDS_POS_RESP_OFFSET, sub]
            (c, g\<lparr>g_sec_level := seed_level, g_sec_pending := 0, g_sec_attempts := 0\<rparr>, e))"

fun uds_h_security :: "'e uds_plat \<Rightarrow> 'e uds_handler_fn" where
  "uds_h_security P (c, g, e) = (
     if req_len c < 2 then negative NRC_IMLOIF (c, g, e)
     else if g_sec_lock_ms g > 0 then negative NRC_RTDNE (c, g, e)
     else
       let sub = cx_req c ! 1;
           level = (if sub AND 1 \<noteq> 0 then sub else sub - 1)
       in if \<not> uds_sec_level_supported level then negative NRC_SFNS (c, g, e)
          else if sub AND 1 \<noteq> 0 then request_seed P sub (c, g, e)
          else send_key sub level (c, g, e))"

fun uds_h_routine :: "'e uds_handler_fn" where
  "uds_h_routine (c, g, e) = (
     if req_len c < 4 then negative NRC_IMLOIF (c, g, e)
     else
       let sub = cx_req c ! 1 AND NOT UDS_SUPPRESS_POS_RSP
       in if sub < 0x01 \<or> sub > 0x03 then negative NRC_SFNS (c, g, e)
          else if cx_resp_cap c < 5 then negative NRC_GENERAL_REJECT (c, g, e)
          else positive [UDS_SID_ROUTINE + UDS_POS_RESP_OFFSET, sub, cx_req c ! 2, cx_req c ! 3, 0] (c, g, e))"

fun uds_h_tester_present :: "'e uds_handler_fn" where
  "uds_h_tester_present (c, g, e) = (
     if req_len c < 2 then negative NRC_IMLOIF (c, g, e)
     else
       let sub = cx_req c ! 1 AND NOT UDS_SUPPRESS_POS_RSP
       in if sub \<noteq> 0 then negative NRC_SFNS (c, g, e)
          else if cx_resp_cap c < 2 then negative NRC_GENERAL_REJECT (c, g, e)
          else positive [UDS_SID_TESTER_PRES + UDS_POS_RESP_OFFSET, 0] (c, g, e))"

text \<open>A big-endian number of up to four bytes.\<close>

definition be_number :: "u8 list \<Rightarrow> u32" where
  "be_number bs = foldl (\<lambda>size b. push_bit 8 size OR ucast b) 0 bs"

fun uds_h_request_download :: "'e uds_handler_fn" where
  "uds_h_request_download (c, g, e) = (
     if req_len c < 4 then negative NRC_IMLOIF (c, g, e)
     else if g_sec_level g \<noteq> UDS_SEC_LEVEL_DOWNLOAD then negative NRC_SAD (c, g, e)
     else if g_xfer_active g then negative NRC_CNC (c, g, e)
     else
       let alfid = cx_req c ! 2;
           size_len = unat (alfid AND 0x0F);
           addr_len = unat (drop_bit 4 alfid AND 0x0F)
       in if size_len = 0 \<or> size_len > 4 \<or> addr_len = 0 \<or> addr_len > 4 then negative NRC_ROOR (c, g, e)
          else if req_len c < 3 + addr_len + size_len then negative NRC_IMLOIF (c, g, e)
          else if cx_resp_cap c < 4 then negative NRC_GENERAL_REJECT (c, g, e)
          else
            let size = be_number (take size_len (drop (3 + addr_len) (cx_req c)))
            in if size = 0 then negative NRC_ROOR (c, g, e)
               else positive ([UDS_SID_REQ_DOWNLOAD + UDS_POS_RESP_OFFSET, 0x20] @ uds_put_be16 (ucast UDS_MAX_BLOCK_LEN))
                      (c, g\<lparr>g_xfer_active := True, g_xfer_size := size, g_xfer_received := 0, g_xfer_bsc := 1\<rparr>, e))"

fun uds_h_transfer_data :: "'e uds_handler_fn" where
  "uds_h_transfer_data (c, g, e) = (
     if req_len c < 2 then negative NRC_IMLOIF (c, g, e)
     else if \<not> g_xfer_active g then negative NRC_RSE (c, g, e)
     else if g_sec_level g \<noteq> UDS_SEC_LEVEL_DOWNLOAD then negative NRC_SAD (c, g, e)
     else if cx_resp_cap c < 2 then negative NRC_GENERAL_REJECT (c, g, e)
     else
       let bsc = cx_req c ! 1;
           dlen = word_of_nat (req_len c - 2) :: u16;
           ack = positive [UDS_SID_TRANSFER_DATA + UDS_POS_RESP_OFFSET, bsc]
       in if bsc = g_xfer_bsc g then
            if req_len c > unat UDS_MAX_BLOCK_LEN then negative NRC_ROOR (c, g, e)
            else if g_xfer_received g + ucast dlen > g_xfer_size g then negative NRC_ROOR (c, g, e)
            else ack (c, g\<lparr>g_xfer_received := g_xfer_received g + ucast dlen, g_xfer_bsc := g_xfer_bsc g + 1\<rparr>, e)
          else if g_xfer_received g > 0 \<and> bsc = g_xfer_bsc g - 1 then ack (c, g, e)
          else negative UDS_NRC_WRONG_BSC (c, g, e))"

fun uds_h_request_transfer_exit :: "'e uds_handler_fn" where
  "uds_h_request_transfer_exit (c, g, e) = (
     if \<not> g_xfer_active g then negative NRC_RSE (c, g, e)
     else if g_sec_level g \<noteq> UDS_SEC_LEVEL_DOWNLOAD then negative NRC_SAD (c, g, e)
     else if cx_resp_cap c < 1 then negative NRC_GENERAL_REJECT (c, g, e)
     else positive [UDS_SID_REQ_XFER_EXIT + UDS_POS_RESP_OFFSET] (c, close_xfer g, e))"

declare uds_h_diag_session.simps [simp del]
  uds_h_ecu_reset.simps [simp del]
  uds_h_read_did.simps [simp del]
  uds_h_security.simps [simp del]
  uds_h_routine.simps [simp del]
  uds_h_tester_present.simps [simp del]
  uds_h_request_download.simps [simp del]
  uds_h_transfer_data.simps [simp del]
  uds_h_request_transfer_exit.simps [simp del]

subsection \<open>The server\<close>

text \<open>Everything is zeroed and set up; the static state is shared by all servers.\<close>

definition uds_globals_init :: uds_globals where
  "uds_globals_init = \<lparr>g_sec_level = 0, g_sec_pending = 0, g_sec_seed = 0, g_sec_attempts = 0, g_sec_lock_ms = 0,
     g_xfer_active = False, g_xfer_size = 0, g_xfer_received = 0, g_xfer_bsc = 0, g_pending_reset = False\<rparr>"

definition uds_server_init :: "isotp_link \<Rightarrow> 'e uds_service list \<Rightarrow> u8 list \<Rightarrow> 'e \<Rightarrow> 'e uds" where
  "uds_server_init link svcs resp_buf e =
     \<lparr>ud_srv = \<lparr>us_link = link, us_services = svcs, us_session = UDS_SESSION_DEFAULT, us_s3_timer_ms = 0,
        us_s3_timeout_ms = UDS_S3_SERVER_MS, us_sec_level = 0, us_sec_seed = 0, us_resp_dropped = 0,
        us_resp_buf = resp_buf, us_resp_cap = length resp_buf\<rparr>,
      ud_g = uds_globals_init, ud_env = e, ud_restarted = False\<rparr>"

text \<open>Ageing the lockout, and the idle tick, which ages the session and falls back to the default one.\<close>

definition age_lock :: "u32 \<Rightarrow> uds_globals \<Rightarrow> uds_globals" where
  "age_lock elapsed_ms g =
     (if g_sec_lock_ms g > 0
      then g\<lparr>g_sec_lock_ms := if g_sec_lock_ms g > elapsed_ms then g_sec_lock_ms g - elapsed_ms else 0\<rparr> else g)"

definition uds_idle :: "u32 \<Rightarrow> 'e uds \<Rightarrow> 'e uds" where
  "uds_idle elapsed_ms s =
     (let s = s\<lparr>ud_srv := (ud_srv s)\<lparr>us_s3_timer_ms := us_s3_timer_ms (ud_srv s) + elapsed_ms\<rparr>\<rparr>
      in if us_s3_timer_ms (ud_srv s) \<ge> us_s3_timeout_ms (ud_srv s)
         then uds_relock (s\<lparr>ud_srv := (ud_srv s)\<lparr>us_s3_timer_ms := 0, us_session := UDS_SESSION_DEFAULT\<rparr>\<rparr>)
         else s)"

text \<open>The context of a request; a handler runs on it and its effects go back into the server.\<close>

definition uds_ctx_of :: "'e uds_server \<Rightarrow> u8 list \<Rightarrow> bool \<Rightarrow> uds_ctx" where
  "uds_ctx_of srv req functional =
     \<lparr>cx_req = req, cx_resp = us_resp_buf srv, cx_resp_cap = us_resp_cap srv, cx_resp_len = 0,
      cx_nrc = NRC_GENERAL_REJECT, cx_functional = functional, cx_session = us_session srv\<rparr>"

definition call_handler :: "'e uds_handler_fn \<Rightarrow> uds_ctx \<times> 'e uds \<Rightarrow> uds_disp \<times> uds_ctx \<times> 'e uds" where
  "call_handler fn = (\<lambda>(c, s).
     let (disp, c, g, e) = fn (c, ud_g s, ud_env s)
     in (disp, c, s\<lparr>ud_g := g, ud_env := e, ud_srv := (ud_srv s)\<lparr>us_resp_buf := cx_resp c\<rparr>\<rparr>))"

fun uds_settle :: "nat \<Rightarrow> 'e uds_plat \<Rightarrow> 'e uds_handler_fn \<Rightarrow> u8 \<Rightarrow> bool \<Rightarrow>
    uds_disp \<times> uds_ctx \<times> 'e uds \<Rightarrow> uds_disp \<times> uds_ctx \<times> 'e uds" where
  "uds_settle 0 P fn sid functional r = r"
| "uds_settle (Suc iters) P fn sid functional (disp, c, s) =
     (if disp = UDS_RESPONSE_PENDING then
        uds_settle iters P fn sid functional
          (call_handler fn (c\<lparr>cx_resp_len := 0, cx_nrc := NRC_GENERAL_REJECT\<rparr>, snd (uds_send_nrc P sid NRC_RCRRP functional s)))
      else (disp, c, s))"

text \<open>Sending the answer; a session change is committed first.\<close>

definition commit_session :: "u8 \<Rightarrow> u8 \<Rightarrow> 'e uds \<Rightarrow> 'e uds" where
  "commit_session sid session s =
     (if session \<noteq> us_session (ud_srv s) \<or> (sid = UDS_SID_DIAG_SESSION \<and> session = UDS_SESSION_DEFAULT)
      then uds_relock (s\<lparr>ud_srv := (ud_srv s)\<lparr>us_session := session\<rparr>\<rparr>) else s)"

definition uds_emit :: "'e uds_plat \<Rightarrow> u8 \<Rightarrow> bool \<Rightarrow> bool \<Rightarrow> uds_disp \<times> uds_ctx \<times> 'e uds \<Rightarrow> 'e uds" where
  "uds_emit P sid functional suppress = (\<lambda>(disp, c, s).
     case disp of
       UDS_POSITIVE \<Rightarrow>
         let s = commit_session sid (cx_session c) s
         in if \<not> suppress \<and> cx_resp_len c > 0 then
              let (sent, s) = uds_send_response P sid (take (cx_resp_len c) (cx_resp c)) functional s
              in if \<not> sent then s\<lparr>ud_g := (ud_g s)\<lparr>g_pending_reset := False\<rparr>\<rparr> else s
            else s
     | UDS_NEGATIVE \<Rightarrow> snd (uds_send_nrc P sid (cx_nrc c) functional s)
     | _ \<Rightarrow> s)"

text \<open>The observable copy of the security state, and the deferred restart.\<close>

definition uds_finish :: "'e uds_plat \<Rightarrow> 'e uds \<Rightarrow> 'e uds" where
  "uds_finish P s =
     (let s = s\<lparr>ud_srv := (ud_srv s)\<lparr>us_sec_level := g_sec_level (ud_g s), us_sec_seed := g_sec_seed (ud_g s)\<rparr>\<rparr>
      in if g_pending_reset (ud_g s)
         then s\<lparr>ud_g := (ud_g s)\<lparr>g_pending_reset := False\<rparr>, ud_env := up_delay P UDS_RESET_DELAY_MS (ud_env s),
                ud_restarted := True\<rparr>
         else s)"

definition uds_suppress :: "u8 list \<Rightarrow> bool" where
  "uds_suppress req \<longleftrightarrow> uds_sid_has_suppress (req ! 0) \<and> length req \<ge> 2 \<and> req ! 1 AND UDS_SUPPRESS_POS_RSP \<noteq> 0"

definition uds_request :: "'e uds_plat \<Rightarrow> u8 list \<Rightarrow> bool \<Rightarrow> 'e uds \<Rightarrow> 'e uds" where
  "uds_request P req functional s =
     (let sid = req ! 0;
          refuse = (\<lambda>nrc. snd (uds_send_nrc P sid nrc functional s))
      in case uds_find_service (us_services (ud_srv s)) sid of
           None \<Rightarrow> refuse NRC_SNS
         | Some svc \<Rightarrow>
             case sv_fn svc of
               None \<Rightarrow> refuse NRC_SNS
             | Some fn \<Rightarrow>
                 if sv_min_session_mask svc \<noteq> 0 \<and>
                    push_bit (unat (us_session (ud_srv s))) (1 :: u32) AND ucast (sv_min_session_mask svc) = 0
                 then refuse NRC_SNSIAS
                 else
                   let r = uds_settle UDS_MAX_PENDING_ITERS P fn sid functional
                             (call_handler fn (uds_ctx_of (ud_srv s) req functional, s))
                   in if fst r = UDS_RESPONSE_PENDING
                      then snd (uds_send_nrc P sid NRC_GENERAL_REJECT functional (snd (snd r)))
                      else uds_finish P (uds_emit P sid functional (uds_suppress req) r))"

definition uds_server_poll :: "'e uds_plat \<Rightarrow> u32 \<Rightarrow> 'e uds \<Rightarrow> 'e uds" where
  "uds_server_poll P elapsed_ms s =
     (let s = s\<lparr>ud_g := age_lock elapsed_ms (ud_g s)\<rparr>;
          (rr, got, l) = isotp_receive (us_link (ud_srv s)) ISOTP_MAX_MSG;
          s = s\<lparr>ud_srv := (ud_srv s)\<lparr>us_link := l\<rparr>\<rparr>
      in case got of
           Some (req, functional) \<Rightarrow>
             if rr \<noteq> ISOTP_OK \<or> req = [] then uds_idle elapsed_ms s
             else uds_request P req functional (s\<lparr>ud_srv := (ud_srv s)\<lparr>us_s3_timer_ms := 0\<rparr>\<rparr>)
         | None \<Rightarrow> uds_idle elapsed_ms s)"

subsection \<open>The bench target\<close>

definition s_bench_services :: "'e uds_plat \<Rightarrow> 'e uds_service list" where
  "s_bench_services P = map (\<lambda>(sid, fn). \<lparr>sv_sid = sid, sv_min_session_mask = 0, sv_fn = Some fn\<rparr>)
     [(UDS_SID_DIAG_SESSION, uds_h_diag_session), (UDS_SID_ECU_RESET, uds_h_ecu_reset),
      (UDS_SID_READ_DID, uds_h_read_did), (UDS_SID_SECURITY, uds_h_security P), (UDS_SID_ROUTINE, uds_h_routine),
      (UDS_SID_TESTER_PRES, uds_h_tester_present), (UDS_SID_REQ_DOWNLOAD, uds_h_request_download),
      (UDS_SID_TRANSFER_DATA, uds_h_transfer_data), (UDS_SID_REQ_XFER_EXIT, uds_h_request_transfer_exit)]"

subsection \<open>The contract of a handler\<close>

text \<open>What a service may do to the static state, by its identifier and the request.\<close>

inductive uds_effect :: "u8 \<Rightarrow> u8 list \<Rightarrow> uds_globals \<Rightarrow> uds_globals \<Rightarrow> bool" where
  nothing: "uds_effect sid req g g"
| reset: "uds_effect UDS_SID_ECU_RESET req g (g\<lparr>g_pending_reset := True\<rparr>)"
| seed: "g_sec_lock_ms g = 0 \<Longrightarrow> g_sec_level g \<noteq> 1 \<Longrightarrow> r \<noteq> 0 \<Longrightarrow> 2 \<le> length req \<Longrightarrow> req ! 1 = 1 \<Longrightarrow>
    uds_effect UDS_SID_SECURITY req g (g\<lparr>g_sec_seed := r, g_sec_pending := 1\<rparr>)"
| bad_key: "g_sec_lock_ms g = 0 \<Longrightarrow> g_sec_pending g = 1 \<Longrightarrow> 6 \<le> length req \<Longrightarrow> req ! 1 = 2 \<Longrightarrow>
    be32 req 2 \<noteq> g_sec_seed g XOR UDS_SEC_KEY_XOR \<Longrightarrow>
    uds_effect UDS_SID_SECURITY req g (snd (count_bad_key g))"
| unlock: "g_sec_lock_ms g = 0 \<Longrightarrow> g_sec_pending g = 1 \<Longrightarrow> 6 \<le> length req \<Longrightarrow> req ! 1 = 2 \<Longrightarrow>
    be32 req 2 = g_sec_seed g XOR UDS_SEC_KEY_XOR \<Longrightarrow>
    uds_effect UDS_SID_SECURITY req g (g\<lparr>g_sec_level := 1, g_sec_pending := 0, g_sec_attempts := 0\<rparr>)"
| open_xfer: "g_sec_level g = 1 \<Longrightarrow> \<not> g_xfer_active g \<Longrightarrow> n \<noteq> 0 \<Longrightarrow>
    uds_effect UDS_SID_REQ_DOWNLOAD req g
      (g\<lparr>g_xfer_active := True, g_xfer_size := n, g_xfer_received := 0, g_xfer_bsc := 1\<rparr>)"
| block: "g_xfer_active g \<Longrightarrow> g_sec_level g = 1 \<Longrightarrow> 2 \<le> length req \<Longrightarrow> length req \<le> 0x402 \<Longrightarrow>
    req ! 1 = g_xfer_bsc g \<Longrightarrow> g_xfer_received g + word_of_nat (length req - 2) \<le> g_xfer_size g \<Longrightarrow>
    uds_effect UDS_SID_TRANSFER_DATA req g
      (g\<lparr>g_xfer_received := g_xfer_received g + word_of_nat (length req - 2), g_xfer_bsc := g_xfer_bsc g + 1\<rparr>)"
| exit: "g_xfer_active g \<Longrightarrow> g_sec_level g = 1 \<Longrightarrow> uds_effect UDS_SID_REQ_XFER_EXIT req g (close_xfer g)"

text \<open>A handler settles at once, keeps the request and its session among the known ones, and when it
  answers positively has written a response of its service within the capacity.\<close>

definition ctx_ok :: "uds_ctx \<Rightarrow> bool" where
  "ctx_ok c \<longleftrightarrow> cx_resp_cap c \<le> length (cx_resp c) \<and> cx_session c \<in> {1, 2, 3}"

definition response_of :: "uds_ctx \<Rightarrow> u8 list" where
  "response_of c = take (cx_resp_len c) (cx_resp c)"

locale uds_handler =
  fixes sid :: u8 and fn :: "'e uds_handler_fn"
  assumes settles: "fn (c, g, e) = (disp, c', g', e') \<Longrightarrow> disp = UDS_POSITIVE \<or> disp = UDS_NEGATIVE"
    and keeps: "fn (c, g, e) = (disp, c', g', e') \<Longrightarrow> ctx_ok c \<Longrightarrow> ctx_ok c' \<and> cx_resp_cap c' = cx_resp_cap c"
    and answers: "fn (c, g, e) = (UDS_POSITIVE, c', g', e') \<Longrightarrow> ctx_ok c \<Longrightarrow>
      0 < cx_resp_len c' \<and> cx_resp_len c' \<le> cx_resp_cap c \<and> response_of c' ! 0 = sid + 0x40"
    and effect: "fn (c, g, e) = (disp, c', g', e') \<Longrightarrow> uds_effect sid (cx_req c) g g'"
    and refuses: "fn (c, g, e) = (UDS_NEGATIVE, c', g', e') \<Longrightarrow> cx_session c' = cx_session c \<and>
      g_pending_reset g' = g_pending_reset g"

lemma negative_simps [simp]:
  "negative nrc (c, g, e) = (disp, c', g', e') \<longleftrightarrow> disp = UDS_NEGATIVE \<and> c' = c\<lparr>cx_nrc := nrc\<rparr> \<and> g' = g \<and> e' = e"
  by (auto simp: negative_def)

lemma positive_simps [simp]:
  "positive out (c, g, e) = (disp, c', g', e') \<longleftrightarrow> disp = UDS_POSITIVE \<and>
     c' = c\<lparr>cx_resp := memcpy_at (cx_resp c) 0 out, cx_resp_len := length out\<rparr> \<and> g' = g \<and> e' = e"
  by (auto simp: positive_def)

lemma length_be16 [simp]: "length (uds_put_be16 v) = 2"
  by (simp add: uds_put_be16_def)

lemma ctx_ok_simps [simp]:
  "ctx_ok (c\<lparr>cx_nrc := n\<rparr>) = ctx_ok c"
  by (simp add: ctx_ok_def)

lemmas handler_simps = Let_def ctx_ok_def response_of_def


interpretation diag_session: uds_handler UDS_SID_DIAG_SESSION uds_h_diag_session
  by unfold_locales (auto simp: uds_h_diag_session.simps handler_simps intro: uds_effect.nothing split: if_splits)

interpretation ecu_reset: uds_handler UDS_SID_ECU_RESET uds_h_ecu_reset
  by unfold_locales
    (auto simp: uds_h_ecu_reset.simps handler_simps intro: uds_effect.nothing uds_effect.reset [simplified] split: if_splits)

interpretation routine: uds_handler UDS_SID_ROUTINE uds_h_routine
  by unfold_locales (auto simp: uds_h_routine.simps handler_simps intro: uds_effect.nothing split: if_splits)

interpretation tester_present: uds_handler UDS_SID_TESTER_PRES uds_h_tester_present
  by unfold_locales (auto simp: uds_h_tester_present.simps handler_simps intro: uds_effect.nothing split: if_splits)

lemma read_did_loop_out:
  "read_did_loop cap bs out m = (fits, out', m') \<Longrightarrow> length out \<le> cap \<Longrightarrow>
   length out' \<le> cap \<and> (\<exists>more. out' = out @ more)"
proof (induction cap bs out m rule: read_did_loop.induct)
  case (1 cap hi lo rest out m)
  then show ?case by (fastforce simp: Let_def split: option.splits if_splits)
qed auto

interpretation read_did: uds_handler UDS_SID_READ_DID uds_h_read_did
proof unfold_locales
  fix c g e disp c' g' and e' :: 'a
  assume h: "uds_h_read_did (c, g, e) = (disp, c', g', e')"
  then show "disp = UDS_POSITIVE \<or> disp = UDS_NEGATIVE"
    by (auto simp: uds_h_read_did.simps split: if_splits prod.splits)
  show "uds_effect UDS_SID_READ_DID (cx_req c) g g'"
    using h by (auto simp: uds_h_read_did.simps intro: uds_effect.nothing split: if_splits prod.splits)
  show "ctx_ok c' \<and> cx_resp_cap c' = cx_resp_cap c" if "ctx_ok c"
    using h that read_did_loop_out [of "cx_resp_cap c" "drop 1 (cx_req c)" "[UDS_SID_READ_DID + UDS_POS_RESP_OFFSET]" 0]
    by (fastforce simp: uds_h_read_did.simps ctx_ok_def split: if_splits prod.splits)
next
  fix c g e c' g' and e' :: 'a
  assume h: "uds_h_read_did (c, g, e) = (UDS_POSITIVE, c', g', e')" and "ctx_ok c"
  then show "0 < cx_resp_len c' \<and> cx_resp_len c' \<le> cx_resp_cap c \<and> response_of c' ! 0 = UDS_SID_READ_DID + 0x40"
    using read_did_loop_out [of "cx_resp_cap c" "drop 1 (cx_req c)" "[UDS_SID_READ_DID + UDS_POS_RESP_OFFSET]" 0]
    by (fastforce simp: uds_h_read_did.simps handler_simps split: if_splits prod.splits)
next
  fix c g e c' g' and e' :: 'a
  assume "uds_h_read_did (c, g, e) = (UDS_NEGATIVE, c', g', e')"
  then show "cx_session c' = cx_session c \<and> g_pending_reset g' = g_pending_reset g"
    by (auto simp: uds_h_read_did.simps split: if_splits prod.splits)
qed

lemma effect_bad_key:
  "count_bad_key g = (nrc, g') \<Longrightarrow> g_sec_lock_ms g = 0 \<Longrightarrow> g_sec_pending g = 1 \<Longrightarrow> 6 \<le> length req \<Longrightarrow>
   req ! 1 = 2 \<Longrightarrow> be32 req 2 \<noteq> g_sec_seed g XOR UDS_SEC_KEY_XOR \<Longrightarrow> uds_effect UDS_SID_SECURITY req g g'"
  using uds_effect.bad_key [of g req] by simp

lemma supported_sub: "uds_sec_level_supported (if sub AND 1 \<noteq> 0 then sub else sub - 1) \<Longrightarrow>
  if sub AND 1 \<noteq> 0 then sub = 1 else sub = 2"
  by (auto simp: uds_sec_level_supported_def diff_eq_eq split: if_splits)

interpretation security: uds_handler UDS_SID_SECURITY "uds_h_security P" for P
proof unfold_locales
  fix c g e disp c' g' and e' :: 'a
  assume h: "uds_h_security P (c, g, e) = (disp, c', g', e')"
  then show "disp = UDS_POSITIVE \<or> disp = UDS_NEGATIVE"
    by (auto simp: uds_h_security.simps request_seed_def send_key_def Let_def split: if_splits prod.splits)
  show "ctx_ok c' \<and> cx_resp_cap c' = cx_resp_cap c" if "ctx_ok c"
    using h that by (auto simp: uds_h_security.simps request_seed_def send_key_def handler_simps split: if_splits prod.splits)
  show "uds_effect UDS_SID_SECURITY (cx_req c) g g'"
  proof (cases "uds_sec_level_supported (if cx_req c ! 1 AND 1 \<noteq> 0 then cx_req c ! 1 else cx_req c ! 1 - 1)
      \<and> 2 \<le> req_len c \<and> g_sec_lock_ms g = 0")
    case False
    with h have "g' = g" by (auto simp: uds_h_security.simps Let_def word_gt_0 split: if_splits)
    then show ?thesis by (simp add: uds_effect.nothing)
  next
    case True
    note sub = supported_sub [OF conjunct1 [OF True]]
    show ?thesis
    proof (cases "cx_req c ! 1 AND 1 \<noteq> 0")
      case odd: True
      then have "cx_req c ! 1 = 1" using sub by simp
      with h True show ?thesis
        by (auto simp: uds_h_security.simps request_seed_def Let_def
            intro!: uds_effect.nothing uds_effect.seed [simplified] split: if_splits prod.splits)
    next
      case even: False
      then have "cx_req c ! 1 = 2" using sub by simp
      with h True show ?thesis
        by (auto simp: uds_h_security.simps send_key_def Let_def uds_sec_level_supported_def
            intro: uds_effect.nothing effect_bad_key [simplified] uds_effect.unlock [simplified]
            split: if_splits prod.splits)
    qed
  qed
next
  fix c g e c' g' and e' :: 'a
  assume "uds_h_security P (c, g, e) = (UDS_POSITIVE, c', g', e')" "ctx_ok c"
  then show "0 < cx_resp_len c' \<and> cx_resp_len c' \<le> cx_resp_cap c \<and> response_of c' ! 0 = UDS_SID_SECURITY + 0x40"
    by (auto simp: uds_h_security.simps request_seed_def send_key_def handler_simps split: if_splits prod.splits)
next
  fix c g e c' g' and e' :: 'a
  assume "uds_h_security P (c, g, e) = (UDS_NEGATIVE, c', g', e')"
  then show "cx_session c' = cx_session c \<and> g_pending_reset g' = g_pending_reset g"
    by (auto simp: uds_h_security.simps request_seed_def send_key_def count_bad_key_def Let_def
        split: if_splits prod.splits)
qed

interpretation request_download: uds_handler UDS_SID_REQ_DOWNLOAD uds_h_request_download
  by unfold_locales
    (auto simp: uds_h_request_download.simps handler_simps
      intro: uds_effect.nothing uds_effect.open_xfer [simplified] split: if_splits)

lemma u16_to_u32: "n < 65536 \<Longrightarrow> ucast (word_of_nat n :: u16) = (word_of_nat n :: u32)"
  by (rule word_unat_eq_iff [THEN iffD2]) (simp add: unsigned_ucast_eq unat_of_nat take_bit_nat_eq_self)

interpretation transfer_data: uds_handler UDS_SID_TRANSFER_DATA uds_h_transfer_data
proof unfold_locales
  fix c g e disp c' g' and e' :: 'a
  assume h: "uds_h_transfer_data (c, g, e) = (disp, c', g', e')"
  then show "disp = UDS_POSITIVE \<or> disp = UDS_NEGATIVE"
    by (auto simp: uds_h_transfer_data.simps Let_def split: if_splits)
  show "ctx_ok c' \<and> cx_resp_cap c' = cx_resp_cap c" if "ctx_ok c"
    using h that by (auto simp: uds_h_transfer_data.simps handler_simps split: if_splits)
  show "uds_effect UDS_SID_TRANSFER_DATA (cx_req c) g g'"
  proof (cases "g' = g")
    case True
    then show ?thesis by (simp add: uds_effect.nothing)
  next
    case False
    then have b: "req_len c \<le> 0x402" "2 \<le> req_len c"
      using h by (auto simp: uds_h_transfer_data.simps Let_def split: if_splits)
    then have w: "ucast (word_of_nat (req_len c) - 2 :: u16) = (word_of_nat (req_len c) - 2 :: u32)"
      using u16_to_u32 [of "req_len c - 2"] by simp
    show ?thesis
      using h False b uds_effect.block [of g "cx_req c"]
      by (auto simp: uds_h_transfer_data.simps Let_def w not_less split: if_splits)
  qed
next
  fix c g e c' g' and e' :: 'a
  assume "uds_h_transfer_data (c, g, e) = (UDS_POSITIVE, c', g', e')" "ctx_ok c"
  then show "0 < cx_resp_len c' \<and> cx_resp_len c' \<le> cx_resp_cap c \<and> response_of c' ! 0 = UDS_SID_TRANSFER_DATA + 0x40"
    by (auto simp: uds_h_transfer_data.simps handler_simps split: if_splits)
next
  fix c g e c' g' and e' :: 'a
  assume "uds_h_transfer_data (c, g, e) = (UDS_NEGATIVE, c', g', e')"
  then show "cx_session c' = cx_session c \<and> g_pending_reset g' = g_pending_reset g"
    by (auto simp: uds_h_transfer_data.simps Let_def split: if_splits)
qed

interpretation request_transfer_exit: uds_handler UDS_SID_REQ_XFER_EXIT uds_h_request_transfer_exit
  by unfold_locales
    (auto simp: uds_h_request_transfer_exit.simps handler_simps
      intro: uds_effect.nothing uds_effect.exit [simplified] split: if_splits)

lemma bench_service:
  assumes "uds_find_service (s_bench_services P) sid = Some svc"
  shows "\<exists>fn. sv_fn svc = Some fn \<and> sv_min_session_mask svc = 0 \<and> uds_handler sid fn"
  using assms diag_session.uds_handler_axioms ecu_reset.uds_handler_axioms read_did.uds_handler_axioms
    security.uds_handler_axioms [of P] routine.uds_handler_axioms tester_present.uds_handler_axioms
    request_download.uds_handler_axioms transfer_data.uds_handler_axioms request_transfer_exit.uds_handler_axioms
  by (auto simp: uds_find_service_def s_bench_services_def split: if_splits)

end
