(* ===== verification/Uds_Session.thy ===== *)
theory Uds_Session
  imports Uds
begin

text \<open>
  Histories of the diagnostic server of \<open>main/uds.c\<close> with the bench target's services: polls in any
  order with any traffic on the link between them. The invariant of the security and download state,
  when an unlock happens, the lockout after wrong keys, and what a poll answers.
\<close>

subsection \<open>What sending leaves alone\<close>

lemma send_raw_keeps [simp]:
  "ud_g (snd (uds_send_raw P buf s)) = ud_g s"
  "ud_restarted (snd (uds_send_raw P buf s)) = ud_restarted s"
  "us_services (ud_srv (snd (uds_send_raw P buf s))) = us_services (ud_srv s)"
  "us_session (ud_srv (snd (uds_send_raw P buf s))) = us_session (ud_srv s)"
  "us_sec_level (ud_srv (snd (uds_send_raw P buf s))) = us_sec_level (ud_srv s)"
  "us_sec_seed (ud_srv (snd (uds_send_raw P buf s))) = us_sec_seed (ud_srv s)"
  "us_resp_buf (ud_srv (snd (uds_send_raw P buf s))) = us_resp_buf (ud_srv s)"
  "us_resp_cap (ud_srv (snd (uds_send_raw P buf s))) = us_resp_cap (ud_srv s)"
  by (simp_all add: uds_send_raw_def Let_def split: prod.split)

lemma send_nrc_keeps [simp]:
  "ud_g (snd (uds_send_nrc P sid nrc f s)) = ud_g s"
  "ud_restarted (snd (uds_send_nrc P sid nrc f s)) = ud_restarted s"
  "us_services (ud_srv (snd (uds_send_nrc P sid nrc f s))) = us_services (ud_srv s)"
  "us_session (ud_srv (snd (uds_send_nrc P sid nrc f s))) = us_session (ud_srv s)"
  "us_sec_level (ud_srv (snd (uds_send_nrc P sid nrc f s))) = us_sec_level (ud_srv s)"
  "us_sec_seed (ud_srv (snd (uds_send_nrc P sid nrc f s))) = us_sec_seed (ud_srv s)"
  "us_resp_buf (ud_srv (snd (uds_send_nrc P sid nrc f s))) = us_resp_buf (ud_srv s)"
  "us_resp_cap (ud_srv (snd (uds_send_nrc P sid nrc f s))) = us_resp_cap (ud_srv s)"
  using send_raw_keeps [of P "[UDS_NEG_RESP_SID, sid, nrc]" s]
  by (cases "uds_send_raw P [UDS_NEG_RESP_SID, sid, nrc] s"; simp add: uds_send_nrc_def Let_def)+

lemma send_response_keeps [simp]:
  "ud_g (snd (uds_send_response P sid buf f s)) = ud_g s"
  "ud_restarted (snd (uds_send_response P sid buf f s)) = ud_restarted s"
  "us_services (ud_srv (snd (uds_send_response P sid buf f s))) = us_services (ud_srv s)"
  "us_session (ud_srv (snd (uds_send_response P sid buf f s))) = us_session (ud_srv s)"
  "us_sec_level (ud_srv (snd (uds_send_response P sid buf f s))) = us_sec_level (ud_srv s)"
  "us_sec_seed (ud_srv (snd (uds_send_response P sid buf f s))) = us_sec_seed (ud_srv s)"
  "us_resp_buf (ud_srv (snd (uds_send_response P sid buf f s))) = us_resp_buf (ud_srv s)"
  "us_resp_cap (ud_srv (snd (uds_send_response P sid buf f s))) = us_resp_cap (ud_srv s)"
  using send_raw_keeps [of P buf s]
  by (cases "uds_send_raw P buf s"; simp add: uds_send_response_def Let_def)+

subsection \<open>The invariant\<close>

definition relocked :: "uds_globals \<Rightarrow> uds_globals" where
  "relocked g = close_xfer (g\<lparr>g_sec_level := 0, g_sec_pending := 0\<rparr>)"

definition uds_inv :: "uds_globals \<Rightarrow> bool" where
  "uds_inv g \<longleftrightarrow> (g_sec_level g = 0 \<or> g_sec_level g = 1) \<and> (g_sec_pending g = 0 \<or> g_sec_pending g = 1) \<and>
     g_sec_attempts g < 3 \<and> g_sec_lock_ms g \<le> UDS_SEC_LOCK_MS \<and>
     (g_sec_pending g = 1 \<longrightarrow> g_sec_seed g \<noteq> 0 \<and> g_sec_level g = 0) \<and>
     (g_xfer_active g \<longrightarrow> g_sec_level g = 1 \<and> g_xfer_size g \<noteq> 0 \<and> g_xfer_received g \<le> g_xfer_size g)"

definition uds_ok :: "'e uds_plat \<Rightarrow> nat \<Rightarrow> 'e uds \<Rightarrow> bool" where
  "uds_ok P cap s \<longleftrightarrow> us_services (ud_srv s) = s_bench_services P \<and>
     us_resp_cap (ud_srv s) = cap \<and> cap \<le> length (us_resp_buf (ud_srv s)) \<and>
     us_session (ud_srv s) \<in> {1, 2, 3} \<and>
     us_sec_level (ud_srv s) = g_sec_level (ud_g s) \<and> us_sec_seed (ud_srv s) = g_sec_seed (ud_g s) \<and>
     uds_inv (ud_g s) \<and> \<not> g_pending_reset (ud_g s)"

lemma relocked_fields [simp]:
  "g_sec_level (relocked g) = 0" "g_sec_pending (relocked g) = 0" "g_sec_seed (relocked g) = g_sec_seed g"
  "g_sec_attempts (relocked g) = g_sec_attempts g" "g_sec_lock_ms (relocked g) = g_sec_lock_ms g"
  "\<not> g_xfer_active (relocked g)" "g_pending_reset (relocked g) = g_pending_reset g"
  by (simp_all add: relocked_def close_xfer_def)

lemma relocked_inv [intro]: "uds_inv g \<Longrightarrow> uds_inv (relocked g)"
  by (auto simp: uds_inv_def)

lemma age_lock_inv [intro]: "uds_inv g \<Longrightarrow> uds_inv (age_lock el g)"
  by (auto simp: uds_inv_def age_lock_def word_le_nat_alt word_less_nat_alt unat_sub)

lemma effect_inv: "uds_effect sid req g g' \<Longrightarrow> uds_inv g \<Longrightarrow> uds_inv g'"
proof (induction rule: uds_effect.induct)
  case (bad_key g req)
  have "unat (g_sec_attempts g) < 3" using bad_key.prems by (simp add: uds_inv_def word_less_nat_alt)
  then have "g_sec_attempts g + 1 < 3 \<or> 3 \<le> g_sec_attempts g + 1" by (simp add: not_le [symmetric])
  with bad_key show ?case by (auto simp: uds_inv_def count_bad_key_def Let_def)
qed (auto simp: uds_inv_def close_xfer_def)

subsection \<open>One request\<close>

context uds_handler
begin

lemma request_runs_handler:
  assumes "uds_find_service (us_services (ud_srv s)) sid = Some svc" "sv_fn svc = Some fn"
    and "sv_min_session_mask svc = 0" "req ! 0 = sid"
    and "fn (uds_ctx_of (ud_srv s) req f, ud_g s, ud_env s) = (disp, c, g, e)"
  shows "uds_request P req f s = uds_finish P (uds_emit P sid f (uds_suppress req)
    (disp, c, s\<lparr>ud_g := g, ud_env := e, ud_srv := (ud_srv s)\<lparr>us_resp_buf := cx_resp c\<rparr>\<rparr>))"
  using assms settles [OF assms(5)]
  by (auto simp: uds_request_def call_handler_def numeral_eq_Suc Let_def)

end

lemma clear_pending [simp]: "\<not> g_pending_reset g \<Longrightarrow> g\<lparr>g_pending_reset := False\<rparr> = g"
  by (cases g) simp

lemma inv_clear_pending [simp]: "uds_inv (g\<lparr>g_pending_reset := b\<rparr>) = uds_inv g"
  by (simp add: uds_inv_def)

lemma commit_session_fields [simp]:
  "us_services (ud_srv (commit_session sid ss s)) = us_services (ud_srv s)"
  "us_resp_cap (ud_srv (commit_session sid ss s)) = us_resp_cap (ud_srv s)"
  "us_resp_buf (ud_srv (commit_session sid ss s)) = us_resp_buf (ud_srv s)"
  "us_session (ud_srv (commit_session sid ss s)) = ss"
  "us_link (ud_srv (commit_session sid ss s)) = us_link (ud_srv s)" "ud_env (commit_session sid ss s) = ud_env s"
  by (simp_all add: commit_session_def uds_relock_def)

lemma commit_session_globals: "ud_g (commit_session sid ss s) \<in> {ud_g s, relocked (ud_g s)}"
  by (simp add: commit_session_def uds_relock_def relocked_def)

lemma emit_outcome:
  fixes s P sid f sup disp c
  defines "t \<equiv> uds_emit P sid f sup (disp, c, s)"
  shows "\<exists>h \<in> {ud_g s, relocked (ud_g s)}. ud_g t = h \<or> ud_g t = h\<lparr>g_pending_reset := False\<rparr>"
    and "us_services (ud_srv t) = us_services (ud_srv s)" "us_resp_cap (ud_srv t) = us_resp_cap (ud_srv s)"
    and "us_resp_buf (ud_srv t) = us_resp_buf (ud_srv s)" "us_session (ud_srv t) \<in> {us_session (ud_srv s), cx_session c}"
proof -
  let ?s = "commit_session sid (cx_session c) s"
  obtain sent r where r: "uds_send_response P sid (take (cx_resp_len c) (cx_resp c)) f ?s = (sent, r)"
    by fastforce
  note K = send_response_keeps [of P sid "take (cx_resp_len c) (cx_resp c)" f ?s, unfolded r snd_conv]
  have "t = s \<or> t = snd (uds_send_nrc P sid (cx_nrc c) f s) \<or> t = ?s \<or> t = r \<or>
      t = r\<lparr>ud_g := (ud_g r)\<lparr>g_pending_reset := False\<rparr>\<rparr>"
    unfolding t_def uds_emit_def by (auto simp: Let_def r split: uds_disp.splits)
  then show "\<exists>h \<in> {ud_g s, relocked (ud_g s)}. ud_g t = h \<or> ud_g t = h\<lparr>g_pending_reset := False\<rparr>"
    "us_services (ud_srv t) = us_services (ud_srv s)" "us_resp_cap (ud_srv t) = us_resp_cap (ud_srv s)"
    "us_resp_buf (ud_srv t) = us_resp_buf (ud_srv s)" "us_session (ud_srv t) \<in> {us_session (ud_srv s), cx_session c}"
    using commit_session_globals [of sid "cx_session c" s] K by auto
qed

lemma finish_fields [simp]:
  "ud_g (uds_finish P s) = (ud_g s)\<lparr>g_pending_reset := False\<rparr>"
  "us_services (ud_srv (uds_finish P s)) = us_services (ud_srv s)"
  "us_resp_cap (ud_srv (uds_finish P s)) = us_resp_cap (ud_srv s)"
  "us_resp_buf (ud_srv (uds_finish P s)) = us_resp_buf (ud_srv s)"
  "us_session (ud_srv (uds_finish P s)) = us_session (ud_srv s)"
  "us_sec_level (ud_srv (uds_finish P s)) = g_sec_level (ud_g s)"
  "us_sec_seed (ud_srv (uds_finish P s)) = g_sec_seed (ud_g s)"
  by (simp_all add: uds_finish_def Let_def)

text \<open>What a request does to the static state of a good server, and that the server stays good.\<close>

lemma request_outcome:
  assumes ok: "uds_ok P cap s" and ne: "req \<noteq> []"
  shows "uds_ok P cap (uds_request P req f s) \<and> (\<exists>g h. uds_effect (req ! 0) req (ud_g s) g \<and>
    h \<in> {g, relocked g} \<and> ud_g (uds_request P req f s) = h\<lparr>g_pending_reset := False\<rparr>)"
proof (cases "uds_find_service (us_services (ud_srv s)) (req ! 0)")
  case None
  then show ?thesis using ok uds_effect.nothing
    by (fastforce simp: uds_request_def uds_ok_def Let_def)
next
  case (Some svc)
  have "uds_find_service (s_bench_services P) (req ! 0) = Some svc" using Some ok by (simp add: uds_ok_def)
  from bench_service [OF this] obtain fn where fn: "sv_fn svc = Some fn" "sv_min_session_mask svc = 0"
    "uds_handler (req ! 0) fn" by blast
  let ?c = "uds_ctx_of (ud_srv s) req f"
  obtain disp c g e where call: "fn (?c, ud_g s, ud_env s) = (disp, c, g, e)" by (metis prod_cases4)
  define t where "t = s\<lparr>ud_g := g, ud_env := e, ud_srv := (ud_srv s)\<lparr>us_resp_buf := cx_resp c\<rparr>\<rparr>"
  define u where "u = uds_emit P (req ! 0) f (uds_suppress req) (disp, c, t)"
  have run: "uds_request P req f s = uds_finish P u"
    unfolding u_def t_def by (rule uds_handler.request_runs_handler [OF fn(3) Some fn(1,2) refl call])
  have c0: "ctx_ok ?c" using ok by (simp add: ctx_ok_def uds_ctx_of_def uds_ok_def)
  have c: "ctx_ok c" "cx_resp_cap c = us_resp_cap (ud_srv s)"
    using uds_handler.keeps [OF fn(3) call c0] by (simp_all add: uds_ctx_of_def)
  have eff: "uds_effect (req ! 0) req (ud_g s) g"
    using uds_handler.effect [OF fn(3) call] by (simp add: uds_ctx_of_def)
  have inv: "uds_inv g" using effect_inv [OF eff] ok by (simp add: uds_ok_def)
  note E = emit_outcome [where s = t and P = P and sid = "req ! 0" and f = f and sup = "uds_suppress req" and disp = disp and c = c,
      folded u_def]
  obtain h where h: "h \<in> {g, relocked g}" "ud_g u = h \<or> ud_g u = h\<lparr>g_pending_reset := False\<rparr>"
    using E(1) by (auto simp: t_def)
  have inv_h: "uds_inv h" using h(1) inv by auto
  have g': "ud_g (uds_finish P u) = h\<lparr>g_pending_reset := False\<rparr>" using h(2) by auto
  have ses: "us_session (ud_srv u) \<in> {1, 2, 3}" using E(5) c(1) ok by (auto simp: t_def ctx_ok_def uds_ok_def)
  have cap: "us_resp_cap (ud_srv u) = cap" "cap \<le> length (us_resp_buf (ud_srv u))"
    using E(3,4) c ok by (simp_all add: t_def ctx_ok_def uds_ok_def)
  have svcs: "us_services (ud_srv u) = s_bench_services P" using E(2) ok by (simp add: t_def uds_ok_def)
  have fin: "g_sec_level (ud_g u) = g_sec_level h" "g_sec_seed (ud_g u) = g_sec_seed h" using h(2) by auto
  have "uds_ok P cap (uds_finish P u)"
    unfolding uds_ok_def g' finish_fields(2-) using ses cap svcs fin inv_h by simp
  with eff h(1) g' show ?thesis unfolding run by blast
qed

subsection \<open>One poll\<close>

text \<open>The request a poll takes from the link, if there is one.\<close>

definition uds_received :: "isotp_link \<Rightarrow> (u8 list \<times> bool) option" where
  "uds_received l =
     (if rx_complete l \<and> rx_len l \<le> ISOTP_MAX_MSG \<and> take (rx_len l) (rx_buf l) \<noteq> []
      then Some (take (rx_len l) (rx_buf l), rx_functional l) else None)"

text \<open>The server when a poll starts to work on a request.\<close>

definition poll_start :: "u32 \<Rightarrow> 'e uds \<Rightarrow> 'e uds" where
  "poll_start el s = s\<lparr>ud_g := age_lock el (ud_g s),
     ud_srv := (ud_srv s)\<lparr>us_link := (us_link (ud_srv s))\<lparr>rx_complete := False\<rparr>, us_s3_timer_ms := 0\<rparr>\<rparr>"

lemma poll_request:
  "uds_received (us_link (ud_srv s)) = Some (req, f) \<Longrightarrow>
   uds_server_poll P el s = uds_request P req f (poll_start el s)"
  by (auto simp: uds_received_def uds_server_poll_def isotp_receive_def poll_start_def Let_def split: if_splits)

lemma poll_idle:
  "uds_received (us_link (ud_srv s)) = None \<Longrightarrow> uds_server_poll P el s =
   uds_idle el (s\<lparr>ud_g := age_lock el (ud_g s),
     ud_srv := (ud_srv s)\<lparr>us_link := snd (snd (isotp_receive (us_link (ud_srv s)) ISOTP_MAX_MSG))\<rparr>\<rparr>)"
  by (auto simp: uds_received_def uds_server_poll_def isotp_receive_def Let_def split: if_splits)

lemma idle_ok:
  "uds_ok P cap s \<Longrightarrow> uds_ok P cap (uds_idle el s) \<and> (ud_g (uds_idle el s) = ud_g s \<or> ud_g (uds_idle el s) = relocked (ud_g s))"
  by (auto simp: uds_ok_def uds_idle_def uds_relock_def Let_def relocked_def [symmetric])

lemma age_lock_fields [simp]:
  "g_sec_level (age_lock el g) = g_sec_level g" "g_sec_pending (age_lock el g) = g_sec_pending g"
  "g_sec_seed (age_lock el g) = g_sec_seed g" "g_sec_attempts (age_lock el g) = g_sec_attempts g"
  "g_xfer_active (age_lock el g) = g_xfer_active g" "g_pending_reset (age_lock el g) = g_pending_reset g"
  "g_xfer_received (age_lock el g) = g_xfer_received g" "g_xfer_size (age_lock el g) = g_xfer_size g"
  by (simp_all add: age_lock_def)

lemma poll_start_ok: "uds_ok P cap s \<Longrightarrow> uds_ok P cap (poll_start el s)"
  by (auto simp: uds_ok_def poll_start_def)

lemma idle_start_ok:
  "uds_ok P cap s \<Longrightarrow> uds_ok P cap (s\<lparr>ud_g := age_lock el (ud_g s), ud_srv := (ud_srv s)\<lparr>us_link := l\<rparr>\<rparr>)"
  by (auto simp: uds_ok_def)

text \<open>The static state after a poll: aged, then possibly changed by a request, then possibly relocked.\<close>

lemma poll_outcome:
  assumes "uds_ok P cap s"
  shows "uds_ok P cap (uds_server_poll P el s) \<and> (\<exists>g h. h \<in> {g, relocked g} \<and>
    ud_g (uds_server_poll P el s) = h\<lparr>g_pending_reset := False\<rparr> \<and>
    (g = age_lock el (ud_g s) \<or> (\<exists>req f. uds_received (us_link (ud_srv s)) = Some (req, f) \<and>
      uds_effect (req ! 0) req (age_lock el (ud_g s)) g)))"
proof (cases "uds_received (us_link (ud_srv s))")
  case None
  define l where "l = snd (snd (isotp_receive (us_link (ud_srv s)) ISOTP_MAX_MSG))"
  note l = poll_idle [OF None, of P el, folded l_def]
  note I = idle_ok [OF idle_start_ok [OF assms, where el = el and l = l], where el = el]
  have "\<not> g_pending_reset (ud_g s)" using assms by (simp add: uds_ok_def)
  then have np: "\<not> g_pending_reset (age_lock el (ud_g s))" "\<not> g_pending_reset (relocked (age_lock el (ud_g s)))" by simp_all
  have "\<exists>h \<in> {age_lock el (ud_g s), relocked (age_lock el (ud_g s))}. ud_g (uds_server_poll P el s) = h\<lparr>g_pending_reset := False\<rparr>"
    using I np by (auto simp: l)
  with I show ?thesis unfolding l by blast
next
  case (Some r)
  obtain req f where r: "r = (req, f)" by fastforce
  have ne: "req \<noteq> []" using Some r by (auto simp: uds_received_def split: if_splits)
  have "ud_g (poll_start el s) = age_lock el (ud_g s)" by (simp add: poll_start_def)
  with request_outcome [OF poll_start_ok [OF assms, of el] ne, of f] Some r poll_request [OF Some [unfolded r], of P el]
  show ?thesis by (metis (no_types, lifting))
qed

subsection \<open>Histories\<close>

text \<open>Polls and, between them, any change of the link and the environment; a restarted server is gone.\<close>

datatype 'e uds_event = Poll u32 | Traffic isotp_link 'e

fun uds_do :: "'e uds_plat \<Rightarrow> 'e uds_event \<Rightarrow> 'e uds \<Rightarrow> 'e uds" where
  "uds_do P (Poll el) s = (if ud_restarted s then s else uds_server_poll P el s)"
| "uds_do P (Traffic l e) s = s\<lparr>ud_srv := (ud_srv s)\<lparr>us_link := l\<rparr>, ud_env := e\<rparr>"

definition uds_history :: "'e uds_plat \<Rightarrow> 'e uds_event list \<Rightarrow> 'e uds \<Rightarrow> 'e uds" where
  "uds_history P evs s = fold (uds_do P) evs s"

definition bench_start :: "'e uds_plat \<Rightarrow> isotp_link \<Rightarrow> u8 list \<Rightarrow> 'e \<Rightarrow> 'e uds" where
  "bench_start P link resp_buf e = uds_server_init link (s_bench_services P) resp_buf e"

lemma uds_do_ok: "uds_ok P cap s \<Longrightarrow> uds_ok P cap (uds_do P ev s)"
  using poll_outcome by (cases ev) (auto simp: uds_ok_def)

lemma bench_start_ok: "uds_ok P (length resp) (bench_start P link resp e)"
  by (simp add: bench_start_def uds_server_init_def uds_ok_def uds_globals_init_def uds_inv_def)

lemma uds_history_ok: "uds_ok P cap s \<Longrightarrow> uds_ok P cap (uds_history P evs s)"
  unfolding uds_history_def by (induction evs arbitrary: s) (auto intro: uds_do_ok)

lemmas uds_reachable = uds_history_ok [OF bench_start_ok]

subsection \<open>Unlocking and the lockout\<close>

lemma effect_unlock:
  "uds_effect sid req g g' \<Longrightarrow> g_sec_level g = 0 \<Longrightarrow> g_sec_level g' \<noteq> 0 \<Longrightarrow>
   sid = UDS_SID_SECURITY \<and> g_sec_lock_ms g = 0 \<and> g_sec_pending g = 1 \<and> 6 \<le> length req \<and> req ! 1 = 2 \<and>
   be32 req 2 = g_sec_seed g XOR UDS_SEC_KEY_XOR"
  by (induction rule: uds_effect.induct) (auto simp: close_xfer_def count_bad_key_def Let_def split: if_splits)

lemma effect_locked:
  "uds_effect sid req g g' \<Longrightarrow> g_sec_lock_ms g \<noteq> 0 \<Longrightarrow>
   g_sec_level g' = g_sec_level g \<and> g_sec_lock_ms g' = g_sec_lock_ms g"
  by (induction rule: uds_effect.induct) (auto simp: close_xfer_def)

lemma effect_block:
  "uds_effect sid req g g' \<Longrightarrow> g_xfer_active g \<Longrightarrow> g_xfer_active g' \<Longrightarrow>
   g_xfer_received g' \<noteq> g_xfer_received g \<or> g_xfer_bsc g' \<noteq> g_xfer_bsc g \<Longrightarrow>
   sid = UDS_SID_TRANSFER_DATA \<and> 2 \<le> length req \<and> length req \<le> 0x402 \<and> req ! 1 = g_xfer_bsc g \<and>
   g_xfer_bsc g' = g_xfer_bsc g + 1 \<and> g_xfer_received g' = g_xfer_received g + word_of_nat (length req - 2)"
  by (induction rule: uds_effect.induct) (auto simp: close_xfer_def count_bad_key_def Let_def split: if_splits)

lemma age_lock_bsc [simp]: "g_xfer_bsc (age_lock el g) = g_xfer_bsc g"
  by (simp add: age_lock_def)

lemma unat_age_lock: "unat (g_sec_lock_ms (age_lock el g)) = unat (g_sec_lock_ms g) - unat el"
  by (auto simp: age_lock_def word_less_nat_alt unat_sub word_gt_0 word_le_nat_alt unat_eq_0)

fun total_ms :: "'e uds_event list \<Rightarrow> nat" where
  "total_ms [] = 0"
| "total_ms (Poll el # evs) = unat el + total_ms evs"
| "total_ms (Traffic l e # evs) = total_ms evs"

lemma locked_poll:
  assumes "uds_ok P cap s" "g_sec_level (ud_g s) = 0" "unat el < unat (g_sec_lock_ms (ud_g s))"
  shows "g_sec_level (ud_g (uds_server_poll P el s)) = 0 \<and>
    unat (g_sec_lock_ms (ud_g (uds_server_poll P el s))) = unat (g_sec_lock_ms (ud_g s)) - unat el"
proof -
  have "g_sec_lock_ms (age_lock el (ud_g s)) \<noteq> 0"
    using assms(3) unat_age_lock [of el "ud_g s"] by (intro notI) simp
  then show ?thesis
    using poll_outcome [OF assms(1), of el] assms(2) effect_locked unat_age_lock [of el "ud_g s"] by fastforce
qed

lemma locked_history:
  "uds_ok P cap s \<Longrightarrow> g_sec_level (ud_g s) = 0 \<Longrightarrow> total_ms evs < unat (g_sec_lock_ms (ud_g s)) \<Longrightarrow>
   g_sec_level (ud_g (uds_history P evs s)) = 0 \<and>
   unat (g_sec_lock_ms (ud_g s)) \<le> unat (g_sec_lock_ms (ud_g (uds_history P evs s))) + total_ms evs"
proof (induction evs arbitrary: s)
  case Nil
  then show ?case by (simp add: uds_history_def)
next
  case (Cons ev evs)
  have hist: "uds_history P (ev # evs) s = uds_history P evs (uds_do P ev s)" by (simp add: uds_history_def)
  have ok: "uds_ok P cap (uds_do P ev s)" by (rule uds_do_ok [OF Cons.prems(1)])
  show ?case
  proof (cases ev)
    case (Poll el)
    show ?thesis
    proof (cases "ud_restarted s")
      case True
      then show ?thesis using Cons.IH [OF ok] Cons.prems Poll unfolding hist by simp
    next
      case False
      let ?p = "uds_server_poll P el s"
      have L: "g_sec_level (ud_g ?p) = 0" "unat (g_sec_lock_ms (ud_g ?p)) = unat (g_sec_lock_ms (ud_g s)) - unat el"
        using locked_poll [OF Cons.prems(1,2), of el] Cons.prems(3) Poll by simp_all
      have "total_ms evs < unat (g_sec_lock_ms (ud_g ?p))" using L(2) Cons.prems(3) Poll by simp
      with Cons.IH [of ?p] L ok Poll False show ?thesis unfolding hist by (simp add: le_diff_conv)
    qed
  next
    case (Traffic l e)
    then show ?thesis using Cons.IH [OF ok] Cons.prems unfolding hist by simp
  qed
qed

lemma find_security: "uds_find_service (s_bench_services P) UDS_SID_SECURITY =
  Some \<lparr>sv_sid = UDS_SID_SECURITY, sv_min_session_mask = 0, sv_fn = Some (uds_h_security P)\<rparr>"
  by (simp add: uds_find_service_def s_bench_services_def)

lemma wrong_key_handler:
  assumes "req ! 1 = 2" "6 \<le> length req" "be32 req 2 \<noteq> g_sec_seed g XOR UDS_SEC_KEY_XOR"
    and "g_sec_pending g = 1" "g_sec_lock_ms g = 0" "cx_req c = req" "2 \<le> cx_resp_cap c"
  shows "uds_h_security P (c, g, e) = (let (nrc, g) = count_bad_key g in negative nrc (c, g, e))"
  using assms by (simp add: uds_h_security.simps send_key_def uds_sec_level_supported_def Let_def)

lemma wrong_key_poll:
  assumes "uds_ok P cap s" "uds_received (us_link (ud_srv s)) = Some (req, f)" "2 \<le> cap"
    and "req ! 0 = UDS_SID_SECURITY" "req ! 1 = 2" "6 \<le> length req"
    and "be32 req 2 \<noteq> g_sec_seed (ud_g s) XOR UDS_SEC_KEY_XOR"
    and "g_sec_pending (ud_g s) = 1" "g_sec_lock_ms (ud_g s) \<le> el"
  shows "ud_g (uds_server_poll P el s) = snd (count_bad_key (age_lock el (ud_g s)))"
proof -
  let ?s = "poll_start el s"
  obtain nrc g where g: "count_bad_key (age_lock el (ud_g s)) = (nrc, g)" by fastforce
  have "unat (g_sec_lock_ms (age_lock el (ud_g s))) = 0"
    using unat_age_lock [of el "ud_g s"] assms(9) by (simp add: word_le_nat_alt)
  then have l0: "g_sec_lock_ms (age_lock el (ud_g s)) = 0" by (simp add: unat_eq_0)
  let ?c = "uds_ctx_of (ud_srv ?s) req f"
  have call: "uds_h_security P (?c, ud_g ?s, ud_env ?s) = (UDS_NEGATIVE, ?c\<lparr>cx_nrc := nrc\<rparr>, g, ud_env ?s)"
    using wrong_key_handler [of req "ud_g ?s" ?c P "ud_env ?s"] assms l0 g
    by (simp add: poll_start_def uds_ctx_of_def uds_ok_def negative_def)
  have svcs: "us_services (ud_srv ?s) = s_bench_services P" using assms(1) by (simp add: poll_start_def uds_ok_def)
  have find: "uds_find_service (us_services (ud_srv ?s)) UDS_SID_SECURITY =
      Some \<lparr>sv_sid = UDS_SID_SECURITY, sv_min_session_mask = 0, sv_fn = Some (uds_h_security P)\<rparr>"
    unfolding svcs by (rule find_security)
  have run: "uds_request P req f ?s = uds_finish P (uds_emit P UDS_SID_SECURITY f (uds_suppress req)
    (UDS_NEGATIVE, ?c\<lparr>cx_nrc := nrc\<rparr>, ?s\<lparr>ud_g := g, ud_env := ud_env ?s,
       ud_srv := (ud_srv ?s)\<lparr>us_resp_buf := cx_resp (?c\<lparr>cx_nrc := nrc\<rparr>)\<rparr>\<rparr>))"
    by (rule security.request_runs_handler [OF find _ _ assms(4) call]) simp_all
  have np: "\<not> g_pending_reset g"
    using g assms(1) by (auto simp: count_bad_key_def Let_def uds_ok_def split: if_splits)
  show ?thesis
    unfolding poll_request [OF assms(2)] run finish_fields(1) by (simp add: uds_emit_def np g)
qed

subsection \<open>Properties\<close>




subsection \<open>A concrete bench target\<close>

definition demo_uds_plat :: "unit uds_plat" where
  "demo_uds_plat = \<lparr>up_can_tx = (\<lambda>cid dat e. (True, e)), up_millis = (\<lambda>e. (0, e)),
     up_random = (\<lambda>e. (0x12345678, e)), up_delay = (\<lambda>ms e. e)\<rparr>"

text \<open>A link that has just received a request.\<close>

definition demo_uds_link :: "u8 list \<Rightarrow> isotp_link" where
  "demo_uds_link req = 
     \<lparr>tx_id = 0x7E8, rx_id = 0x7E0, func_id = 0x7DF, lcfg = zero_cfg, tx_buf = replicate 8 0, tx_len = 0, tx_off = 0,
      tx_sn = 0, tx_bs_left = 0, tx_stmin = 0, tx_wft = 0, tx_phase = ISOTP_IDLE, tx_timer = 0, tx_st_timer = 0,
      rx_buf = req, rx_len = length req, rx_off = 0, rx_sn = 0, rx_block_cf = 0, rx_phase = ISOTP_IDLE, rx_timer = 0,
      rx_result = ISOTP_OK, rx_complete = True, rx_functional = False\<rparr>"

fun demo_requests :: "u8 list list \<Rightarrow> unit uds_event list" where
  "demo_requests [] = []"
| "demo_requests [req] = [Traffic (demo_uds_link req) ()]"
| "demo_requests (req # reqs) = [Traffic (demo_uds_link req) (), Poll 1] @ demo_requests reqs"

definition demo_uds :: "u8 list list \<Rightarrow> unit uds" where
  "demo_uds reqs = uds_history demo_uds_plat (demo_requests reqs)
     (bench_start demo_uds_plat (demo_uds_link []) (replicate 8 0) ())"

abbreviation demo_key :: "u8 list" where
  "demo_key \<equiv> [0x27, 2, 0x48, 0x6E, 0x0C, 0x22]"

lemma demo_unlocks:
  "let s = demo_uds [[0x27, 1], demo_key]
   in g_sec_level (ud_g s) = 0 \<and> g_sec_level (ud_g (uds_server_poll demo_uds_plat 1 s)) = 1"
  by code_simp


abbreviation demo_guesses :: "u8 list list" where
  "demo_guesses \<equiv> [[0x27, 1], [0x27, 2, 0, 0, 0, 0], [0x27, 1], [0x27, 2, 0, 0, 0, 1], [0x27, 1], [0x27, 2, 0, 0, 0, 2]]"

lemma demo_third_guess:
  "let s = demo_uds demo_guesses
   in uds_received (us_link (ud_srv s)) = Some ([0x27, 2, 0, 0, 0, 2], False) \<and> g_sec_pending (ud_g s) = 1 \<and>
     g_sec_lock_ms (ud_g s) = 0 \<and> g_sec_attempts (ud_g s) = 2 \<and> g_sec_seed (ud_g s) = 0x12345678"
  by code_simp

lemmas demo_third = demo_third_guess [unfolded Let_def]


abbreviation demo_download :: "u8 list list" where
  "demo_download \<equiv> [[0x27, 1], demo_key, [0x34, 0, 0x11, 0, 4], [0x36, 1, 7, 7]]"

lemma demo_downloading:
  "let s = demo_uds demo_download; t = uds_server_poll demo_uds_plat 1 s
   in g_xfer_active (ud_g s) \<and> g_xfer_active (ud_g t) \<and> g_xfer_received (ud_g s) = 0 \<and> g_xfer_received (ud_g t) = 2"
  by code_simp


end
