(* ===== verification/Uds_Download.thy ===== *)
theory Uds_Download
  imports Uds_Session
begin

text \<open>
  A complete download to the bench target of \<open>main/uds.c\<close>: RequestDownload, blocks of any lengths,
  each repeated any number of times as a tester does when a response is lost, RequestTransferExit.
\<close>

subsection \<open>Serving one request\<close>

text \<open>\<open>lk req\<close> is a link on which the request has just arrived.\<close>

definition serve :: "'e uds_plat \<Rightarrow> (u8 list \<Rightarrow> isotp_link) \<Rightarrow> u32 \<Rightarrow> u8 list \<Rightarrow> 'e uds \<Rightarrow> 'e uds" where
  "serve P lk el req s = uds_server_poll P el (uds_do P (Traffic (lk req) (ud_env s)) s)"

definition arrives :: "(u8 list \<Rightarrow> isotp_link) \<Rightarrow> bool" where
  "arrives lk \<longleftrightarrow> (\<forall>req. req \<noteq> [] \<and> length req \<le> ISOTP_MAX_MSG \<longrightarrow> uds_received (lk req) = Some (req, False))"

lemma commit_same [simp]:
  "session = us_session (ud_srv s) \<Longrightarrow> sid \<noteq> UDS_SID_DIAG_SESSION \<Longrightarrow> commit_session sid session s = s"
  by (simp add: commit_session_def)

lemma emit_same_session:
  assumes "cx_session c = us_session (ud_srv s)" "sid \<noteq> UDS_SID_DIAG_SESSION" "\<not> g_pending_reset (ud_g s)"
  shows "ud_g (uds_emit P sid f quiet (disp, c, s)) = ud_g s"
  using assms send_response_keeps(1) [of P sid "take (cx_resp_len c) (cx_resp c)" f s]
  by (cases "uds_send_response P sid (take (cx_resp_len c) (cx_resp c)) f s"; cases disp)
    (auto simp: uds_emit_def Let_def)

lemma serve_handler:
  assumes ok: "uds_ok P cap s" and lk: "arrives lk" and req: "req \<noteq> []" "length req \<le> ISOTP_MAX_MSG"
    and find: "uds_find_service (s_bench_services P) (req ! 0) = Some svc" "sv_fn svc = Some fn"
    and sid: "req ! 0 \<noteq> UDS_SID_DIAG_SESSION"
    and call: "\<And>c e. cx_req c = req \<Longrightarrow> cx_resp_cap c = cap \<Longrightarrow>
      \<exists>disp c' e'. fn (c, age_lock el (ud_g s), e) = (disp, c', g', e') \<and> cx_session c' = cx_session c"
    and np: "\<not> g_pending_reset g'"
  shows "uds_ok P cap (serve P lk el req s) \<and> ud_g (serve P lk el req s) = g'"
proof -
  let ?t = "uds_do P (Traffic (lk req) (ud_env s)) s"
  let ?s = "poll_start el ?t"
  have okt: "uds_ok P cap ?t" by (rule uds_do_ok [OF ok])
  have rcv: "uds_received (us_link (ud_srv ?t)) = Some (req, False)" using lk req by (simp add: arrives_def)
  obtain fn' where "sv_fn svc = Some fn'" and mask: "sv_min_session_mask svc = 0" and h: "uds_handler (req ! 0) fn'"
    using bench_service [OF find(1)] by blast
  then have h: "uds_handler (req ! 0) fn" using find(2) by simp
  let ?c = "uds_ctx_of (ud_srv ?s) req False"
  have "cx_req ?c = req" "cx_resp_cap ?c = cap" using ok by (simp_all add: uds_ctx_of_def poll_start_def uds_ok_def)
  from call [OF this, of "ud_env ?s"] obtain disp c' e' where
    "fn (?c, age_lock el (ud_g s), ud_env ?s) = (disp, c', g', e')" "cx_session c' = cx_session ?c" by blast
  then have c': "fn (?c, ud_g ?s, ud_env ?s) = (disp, c', g', e')" "cx_session c' = us_session (ud_srv s)"
    by (simp_all add: poll_start_def uds_ctx_of_def)
  have find': "uds_find_service (us_services (ud_srv ?s)) (req ! 0) = Some svc"
    using find(1) ok by (simp add: poll_start_def uds_ok_def)
  note run = uds_handler.request_runs_handler [OF h find' find(2) mask refl c'(1)]
  have "ud_g (uds_server_poll P el ?t) = g'"
    unfolding poll_request [OF rcv] run finish_fields(1)
    by (subst emit_same_session) (use c'(2) sid np in \<open>simp_all add: poll_start_def\<close>)
  then show ?thesis using poll_outcome [OF okt, of el] by (simp add: serve_def del: uds_do.simps)
qed

subsection \<open>The requests of a download\<close>

definition put_be32 :: "u32 \<Rightarrow> u8 list" where
  "put_be32 v = [ucast (drop_bit 24 v), ucast (drop_bit 16 v), ucast (drop_bit 8 v), ucast v]"

text \<open>A four-byte address and a four-byte size.\<close>

definition download_request :: "u32 \<Rightarrow> u8 list" where
  "download_request n = [UDS_SID_REQ_DOWNLOAD, 0, 0x44, 0, 0, 0, 0] @ put_be32 n"

fun block_requests :: "u8 \<Rightarrow> (u8 list \<times> nat) list \<Rightarrow> u8 list list" where
  "block_requests bsc [] = []"
| "block_requests bsc ((dat, again) # blocks) =
     replicate (Suc again) ([UDS_SID_TRANSFER_DATA, bsc] @ dat) @ block_requests (bsc + 1) blocks"

definition block_bytes :: "(u8 list \<times> nat) list \<Rightarrow> nat" where
  "block_bytes blocks = sum_list (map (\<lambda>b. length (fst b)) blocks)"

lemma be_number_put: "be_number (put_be32 n) = n"
proof -
  have "push_bit 8 (push_bit 8 (push_bit 8 (ucast (ucast (drop_bit 24 n) :: u8)) OR ucast (ucast (drop_bit 16 n) :: u8))
      OR ucast (ucast (drop_bit 8 n) :: u8)) OR ucast (ucast n :: u8) = n"
    (is "?l = n")
  proof (rule bit_word_eqI)
    fix i assume "i < LENGTH(32)"
    then consider "i < 8" | "8 \<le> i" "i < 16" | "16 \<le> i" "i < 24" | "24 \<le> i" "i < 32" by fastforce
    then show "bit ?l i = bit n i" by cases (auto simp: bit_simps)
  qed
  then show ?thesis by (simp add: be_number_def put_be32_def)
qed

lemma length_put_be32 [simp]: "length (put_be32 n) = 4"
  by (simp add: put_be32_def)

lemma find_download_services:
  "uds_find_service (s_bench_services P) UDS_SID_REQ_DOWNLOAD =
     Some \<lparr>sv_sid = UDS_SID_REQ_DOWNLOAD, sv_min_session_mask = 0, sv_fn = Some uds_h_request_download\<rparr>"
  "uds_find_service (s_bench_services P) UDS_SID_TRANSFER_DATA =
     Some \<lparr>sv_sid = UDS_SID_TRANSFER_DATA, sv_min_session_mask = 0, sv_fn = Some uds_h_transfer_data\<rparr>"
  "uds_find_service (s_bench_services P) UDS_SID_REQ_XFER_EXIT =
     Some \<lparr>sv_sid = UDS_SID_REQ_XFER_EXIT, sv_min_session_mask = 0, sv_fn = Some uds_h_request_transfer_exit\<rparr>"
  by (simp_all add: uds_find_service_def s_bench_services_def)

text \<open>The static state inside a download of \<open>n\<close> bytes after \<open>got\<close> of them.\<close>

definition xfer_at :: "nat \<Rightarrow> nat \<Rightarrow> u8 \<Rightarrow> uds_globals \<Rightarrow> bool" where
  "xfer_at n got bsc g \<longleftrightarrow> g_xfer_active g \<and> g_sec_level g = 1 \<and> g_xfer_size g = word_of_nat n \<and>
     g_xfer_received g = word_of_nat got \<and> g_xfer_bsc g = bsc"

lemma xfer_at_age [simp]: "xfer_at n got bsc (age_lock el g) = xfer_at n got bsc g"
  by (simp add: xfer_at_def)

subsection \<open>Each kind of request\<close>

lemma positive_state: "\<exists>c' e'. positive out (c, g, e) = (UDS_POSITIVE, c', g, e') \<and> cx_session c' = cx_session c"
  by (simp add: positive_def)

lemma serve_download:
  assumes "uds_ok P cap s" "arrives lk" "4 \<le> cap" "g_sec_level (ud_g s) = 1" "\<not> g_xfer_active (ud_g s)"
    and "0 < n" "n < 2 ^ 32"
  shows "uds_ok P cap (serve P lk el (download_request (word_of_nat n)) s) \<and>
    xfer_at n 0 1 (ud_g (serve P lk el (download_request (word_of_nat n)) s))"
proof -
  let ?req = "download_request (word_of_nat n)"
  define g where "g = (age_lock el (ud_g s))\<lparr>g_xfer_active := True, g_xfer_size := word_of_nat n, g_xfer_received := 0, g_xfer_bsc := 1\<rparr>"
  have len: "length ?req = 11" by (simp add: download_request_def put_be32_def)
  have r: "?req ! 0 = UDS_SID_REQ_DOWNLOAD" "?req ! 2 = 0x44" "take 4 (drop 7 ?req) = put_be32 (word_of_nat n)"
    by (simp_all add: download_request_def put_be32_def)
  have nz: "(word_of_nat n :: u32) \<noteq> 0" using assms(6,7) by (auto simp: word_of_nat_eq_0_iff dest!: dvd_imp_le)
  have call: "\<exists>disp c' e'. uds_h_request_download (c, age_lock el (ud_g s), e) = (disp, c', g, e') \<and> cx_session c' = cx_session c"
    if "cx_req c = ?req" "cx_resp_cap c = cap" for c and e :: 'a
  proof -
    have "uds_h_request_download (c, age_lock el (ud_g s), e) =
        positive ([UDS_SID_REQ_DOWNLOAD + UDS_POS_RESP_OFFSET, 0x20] @ uds_put_be16 (ucast UDS_MAX_BLOCK_LEN)) (c, g, e)"
      using assms(3-5) nz r that len
      by (simp add: uds_h_request_download.simps be_number_put g_def Let_def)
    then show ?thesis using positive_state by metis
  qed
  have np: "\<not> g_pending_reset g" using assms(1) by (simp add: g_def uds_ok_def)
  have "uds_ok P cap (serve P lk el ?req s) \<and> ud_g (serve P lk el ?req s) = g"
    by (rule serve_handler [OF assms(1,2) _ _ _ _ _ call np]) (use len r find_download_services(1) in auto)
  then show ?thesis using assms(4) by (simp add: g_def xfer_at_def)
qed

lemma serve_block:
  assumes "uds_ok P cap s" "arrives lk" "2 \<le> cap" "xfer_at n got bsc (ud_g s)"
    and "dat \<noteq> []" "length dat \<le> 1024" "got + length dat \<le> n" "n < 2 ^ 32"
  defines "req \<equiv> [UDS_SID_TRANSFER_DATA, bsc] @ dat"
  shows "uds_ok P cap (serve P lk el req s) \<and> xfer_at n (got + length dat) (bsc + 1) (ud_g (serve P lk el req s))"
proof -
  define g where "g = (age_lock el (ud_g s))\<lparr>g_xfer_received := word_of_nat (got + length dat), g_xfer_bsc := bsc + 1\<rparr>"
  have r: "req ! 0 = UDS_SID_TRANSFER_DATA" "req ! 1 = bsc" "length req = 2 + length dat" by (simp_all add: req_def)
  have w: "ucast (word_of_nat (length dat) :: u16) = (word_of_nat (length dat) :: u32)" using assms(6) by (simp add: u16_to_u32)
  have sum: "word_of_nat got + word_of_nat (length dat) = (word_of_nat (got + length dat) :: u32)" by simp
  have le: "(word_of_nat (got + length dat) :: u32) \<le> word_of_nat n"
    using assms(7,8) by (simp add: word_le_nat_alt unat_of_nat del: of_nat_add)
  have call: "\<exists>disp c' e'. uds_h_transfer_data (c, age_lock el (ud_g s), e) = (disp, c', g, e') \<and> cx_session c' = cx_session c"
    if "cx_req c = req" "cx_resp_cap c = cap" for c and e :: 'a
  proof -
    have "uds_h_transfer_data (c, age_lock el (ud_g s), e) =
        positive [UDS_SID_TRANSFER_DATA + UDS_POS_RESP_OFFSET, bsc] (c, g, e)"
      using assms(3,4,6) r that w le [unfolded not_less [symmetric]] sum
      by (simp add: uds_h_transfer_data.simps xfer_at_def g_def Let_def del: of_nat_add)
    then show ?thesis using positive_state by metis
  qed
  have np: "\<not> g_pending_reset g" using assms(1) by (simp add: g_def uds_ok_def)
  have "uds_ok P cap (serve P lk el req s) \<and> ud_g (serve P lk el req s) = g"
    by (rule serve_handler [OF assms(1,2) _ _ _ _ _ call np]) (use r assms(6) find_download_services(2) in auto)
  then show ?thesis using assms(4) by (simp add: g_def xfer_at_def)
qed

text \<open>A block that arrives again right after it was accepted is acknowledged and not counted.\<close>

lemma serve_block_again:
  assumes "uds_ok P cap s" "arrives lk" "2 \<le> cap" "xfer_at n got (bsc + 1) (ud_g s)"
    and "length dat \<le> 1024" "0 < got" "got < 2 ^ 32"
  defines "req \<equiv> [UDS_SID_TRANSFER_DATA, bsc] @ dat"
  shows "uds_ok P cap (serve P lk el req s) \<and> xfer_at n got (bsc + 1) (ud_g (serve P lk el req s))"
proof -
  define g where "g = age_lock el (ud_g s)"
  have r: "req ! 0 = UDS_SID_TRANSFER_DATA" "req ! 1 = bsc" "length req = 2 + length dat" by (simp_all add: req_def)
  have nz: "0 < (word_of_nat got :: u32)" using assms(6,7) by (simp add: word_less_nat_alt unat_of_nat)
  have call: "\<exists>disp c' e'. uds_h_transfer_data (c, age_lock el (ud_g s), e) = (disp, c', g, e') \<and> cx_session c' = cx_session c"
    if "cx_req c = req" "cx_resp_cap c = cap" for c and e :: 'a
  proof -
    have "uds_h_transfer_data (c, age_lock el (ud_g s), e) =
        positive [UDS_SID_TRANSFER_DATA + UDS_POS_RESP_OFFSET, bsc] (c, g, e)"
      using assms(3,4) r that nz by (simp add: uds_h_transfer_data.simps xfer_at_def g_def Let_def)
    then show ?thesis using positive_state by metis
  qed
  have np: "\<not> g_pending_reset g" using assms(1) by (simp add: g_def uds_ok_def)
  have "uds_ok P cap (serve P lk el req s) \<and> ud_g (serve P lk el req s) = g"
    by (rule serve_handler [OF assms(1,2) _ _ _ _ _ call np]) (use r assms(5) find_download_services(2) in auto)
  then show ?thesis using assms(4) by (simp add: g_def)
qed

lemma serve_exit:
  assumes "uds_ok P cap s" "arrives lk" "1 \<le> cap" "xfer_at n got bsc (ud_g s)"
  shows "\<not> g_xfer_active (ud_g (serve P lk el [UDS_SID_REQ_XFER_EXIT] s)) \<and>
    g_sec_level (ud_g (serve P lk el [UDS_SID_REQ_XFER_EXIT] s)) = 1"
proof -
  define g where "g = close_xfer (age_lock el (ud_g s))"
  have call: "\<exists>disp c' e'. uds_h_request_transfer_exit (c, age_lock el (ud_g s), e) = (disp, c', g, e') \<and> cx_session c' = cx_session c"
    if "cx_req c = [UDS_SID_REQ_XFER_EXIT]" "cx_resp_cap c = cap" for c and e :: 'a
  proof -
    have "uds_h_request_transfer_exit (c, age_lock el (ud_g s), e) = positive [UDS_SID_REQ_XFER_EXIT + UDS_POS_RESP_OFFSET] (c, g, e)"
      using assms(3,4) that by (simp add: uds_h_request_transfer_exit.simps xfer_at_def g_def)
    then show ?thesis using positive_state by metis
  qed
  have np: "\<not> g_pending_reset g" using assms(1) by (simp add: g_def uds_ok_def close_xfer_def)
  have "uds_ok P cap (serve P lk el [UDS_SID_REQ_XFER_EXIT] s) \<and> ud_g (serve P lk el [UDS_SID_REQ_XFER_EXIT] s) = g"
    by (rule serve_handler [OF assms(1,2) _ _ _ _ _ call np]) (use find_download_services(3) in auto)
  then show ?thesis using assms(4) by (simp add: g_def xfer_at_def close_xfer_def)
qed

lemma serve_repeats:
  assumes "arrives lk" "2 \<le> cap" "length dat \<le> 1024" "0 < got" "got < 2 ^ 32"
  shows "uds_ok P cap s \<Longrightarrow> xfer_at n got (bsc + 1) (ud_g s) \<Longrightarrow>
    uds_ok P cap (fold (serve P lk el) (replicate again ([UDS_SID_TRANSFER_DATA, bsc] @ dat)) s) \<and>
    xfer_at n got (bsc + 1) (ud_g (fold (serve P lk el) (replicate again ([UDS_SID_TRANSFER_DATA, bsc] @ dat)) s))"
proof (induction again arbitrary: s)
  case (Suc again)
  note A = serve_block_again [OF Suc.prems(1) assms(1,2) Suc.prems(2) assms(3-5), of el]
  show ?case using Suc.IH [OF conjunct1 [OF A] conjunct2 [OF A]] by simp
qed simp

lemma serve_blocks:
  assumes "arrives lk" "2 \<le> cap" "n < 2 ^ 32"
  shows "uds_ok P cap s \<Longrightarrow> xfer_at n got bsc (ud_g s) \<Longrightarrow> got + block_bytes blocks \<le> n \<Longrightarrow>
    \<forall>b \<in> set blocks. fst b \<noteq> [] \<and> length (fst b) \<le> 1024 \<Longrightarrow>
    uds_ok P cap (fold (serve P lk el) (block_requests bsc blocks) s) \<and>
    xfer_at n (got + block_bytes blocks) (bsc + word_of_nat (length blocks))
      (ud_g (fold (serve P lk el) (block_requests bsc blocks) s))"
proof (induction blocks arbitrary: s got bsc)
  case Nil
  then show ?case by (simp add: block_bytes_def)
next
  case (Cons b blocks)
  obtain dat again where b: "b = (dat, again)" by fastforce
  have dat: "dat \<noteq> []" "length dat \<le> 1024" using Cons.prems(4) b by simp_all
  have sum: "block_bytes (b # blocks) = length dat + block_bytes blocks" by (simp add: block_bytes_def b)
  let ?req = "[UDS_SID_TRANSFER_DATA, bsc] @ dat"
  define s1 where "s1 = serve P lk el ?req s"
  have s1: "uds_ok P cap s1" "xfer_at n (got + length dat) (bsc + 1) (ud_g s1)"
    using serve_block [OF Cons.prems(1) assms(1,2) Cons.prems(2) dat _ assms(3), of el] Cons.prems(3) sum
    by (simp_all add: s1_def)
  define s2 where "s2 = fold (serve P lk el) (replicate again ?req) s1"
  have pos: "0 < got + length dat" "got + length dat < 2 ^ 32" using dat(1) Cons.prems(3) sum assms(3) by simp_all
  have s2: "uds_ok P cap s2" "xfer_at n (got + length dat) (bsc + 1) (ud_g s2)"
    using serve_repeats [OF assms(1,2) dat(2) pos s1, of el again] by (simp_all add: s2_def)
  have step: "fold (serve P lk el) (block_requests bsc (b # blocks)) s =
      fold (serve P lk el) (block_requests (bsc + 1) blocks) s2"
    by (simp add: b s1_def s2_def)
  have "got + length dat + block_bytes blocks \<le> n" using Cons.prems(3) sum by simp
  from Cons.IH [OF s2 this] Cons.prems(4) show ?case unfolding step by (simp add: sum add.assoc)
qed

subsection \<open>Properties\<close>


text \<open>Two blocks, the first sent three times, on the unlocked demonstration server.\<close>

lemma demo_link_arrives: "arrives demo_uds_link"
  by (simp add: arrives_def demo_uds_link_def uds_received_def)

abbreviation demo_unlocked :: "unit uds" where
  "demo_unlocked \<equiv> uds_history demo_uds_plat (demo_requests [[0x27, 1], demo_key] @ [Poll 1])
     (bench_start demo_uds_plat (demo_uds_link []) (replicate 8 0) ())"

lemma demo_unlocked_state:
  "let g = ud_g demo_unlocked in g_sec_level g = 1 \<and> \<not> g_xfer_active g"
  by code_simp


text \<open>Two limits of the byte count. Near a declared size of 2^32 the 32-bit sum wraps: a block that
  exceeds the size is accepted and the count restarts. And an empty first block is accepted, but its
  repetition is refused.\<close>

definition demo_transfer_state :: "u32 \<Rightarrow> u32 \<Rightarrow> u8 \<Rightarrow> uds_globals" where
  "demo_transfer_state n got bsc = uds_globals_init\<lparr>g_sec_level := 1, g_xfer_active := True, g_xfer_size := n,
     g_xfer_received := got, g_xfer_bsc := bsc\<rparr>"

definition demo_transfer_ctx :: "u8 list \<Rightarrow> uds_ctx" where
  "demo_transfer_ctx req = \<lparr>cx_req = req, cx_resp = replicate 8 0, cx_resp_cap = 8, cx_resp_len = 0,
     cx_nrc = NRC_GENERAL_REJECT, cx_functional = False, cx_session = 1\<rparr>"

lemma transfer_bound_wraps:
  "case uds_h_transfer_data (demo_transfer_ctx ([0x36, 1] @ replicate 32 0), demo_transfer_state 0xFFFFFFFF 0xFFFFFFF0 1, ()) of
     (disp, c, g, e) \<Rightarrow> disp = UDS_POSITIVE \<and> g_xfer_received g = 0x10"
  by code_simp

lemma empty_block_not_repeatable:
  "case uds_h_transfer_data (demo_transfer_ctx [0x36, 1], demo_transfer_state 16 0 1, ()) of
     (disp, c, g, e) \<Rightarrow> disp = UDS_POSITIVE \<and>
       fst (uds_h_transfer_data (demo_transfer_ctx [0x36, 1], g, ())) = UDS_NEGATIVE"
  by code_simp

end
