(* ===== verification/App_Main.thy ===== *)
theory App_Main
  imports Uds_Session Can_Tx Pcan_Time
begin

text \<open>
  The rest of \<open>main/main.c\<close>: the choice of the operating mode at boot, the start of each mode, and the
  bench task, which runs the ISO-TP link and the diagnostic server on the CAN controller of
  \<open>Twai_Hal\<close>. GPIO, NVS, the allocators and the task scheduler are parameters: what they return is the
  record \<open>boot\<close>, and the tasks created are the result. The constants are those of \<open>main/config.h\<close>;
  times are handed to the driver in milliseconds, the tick of \<open>sdkconfig.defaults\<close>.
\<close>

subsection \<open>Configuration\<close>

definition CFG_STATUS_LED_GPIO :: int where [simp]: "CFG_STATUS_LED_GPIO = 2"
definition CFG_RB_RX_DEPTH :: nat where [simp]: "CFG_RB_RX_DEPTH = 1024"
definition CFG_RB_TX_DEPTH :: nat where [simp]: "CFG_RB_TX_DEPTH = 512"
definition CFG_RB_USE_PSRAM :: bool where [simp]: "CFG_RB_USE_PSRAM = True"
definition CFG_MODE_PCAN :: u8 where [simp]: "CFG_MODE_PCAN = 0"
definition CFG_MODE_BENCH :: u8 where [simp]: "CFG_MODE_BENCH = 1"
definition CFG_DEFAULT_MODE :: u8 where [simp]: "CFG_DEFAULT_MODE = CFG_MODE_PCAN"
definition CFG_ENABLE_BENCH_MODE :: bool where [simp]: "CFG_ENABLE_BENCH_MODE = True"
definition CFG_MODE_SELECT_GPIO :: int where [simp]: "CFG_MODE_SELECT_GPIO = 9"
definition CFG_MODE_SELECT_ACTIVE_LOW :: bool where [simp]: "CFG_MODE_SELECT_ACTIVE_LOW = True"
definition CFG_BENCH_RX_ID :: u32 where [simp]: "CFG_BENCH_RX_ID = 0x7E0"
definition CFG_BENCH_TX_ID :: u32 where [simp]: "CFG_BENCH_TX_ID = 0x7E8"
definition CFG_BENCH_FUNC_ID :: u32 where [simp]: "CFG_BENCH_FUNC_ID = 0x7DF"
definition CFG_BENCH_BITRATE :: u32 where [simp]: "CFG_BENCH_BITRATE = 500000"
definition BENCH_POLL_MS :: u32 where [simp]: "BENCH_POLL_MS = 1"

datatype app_task = TwaiRxTask | UsbTxTask | CanTxTask | CtrlTask | BenchTask

text \<open>Priority, stack and core of each task.\<close>

fun task_layout :: "app_task \<Rightarrow> nat \<times> nat \<times> nat" where
  "task_layout TwaiRxTask = (12, 4096, 1)"
| "task_layout UsbTxTask = (10, 4096, 0)"
| "task_layout CanTxTask = (9, 4096, 1)"
| "task_layout CtrlTask = (8, 4096, 1)"
| "task_layout BenchTask = (9, 6144, 1)"

subsection \<open>Boot\<close>

text \<open>\<open>nvs_mode = None\<close> when the namespace or the key is missing.\<close>

record boot =
  bo_gpio_config :: esp_err
  bo_gpio_level :: int
  bo_nvs_mode :: "u8 option"
  bo_cmd_init :: bool
  bo_rb_init :: "nat \<Rightarrow> bool \<Rightarrow> bool"
  bo_queues :: bool
  bo_usb_install :: esp_err

definition status_led_init :: "bool option \<Rightarrow> bool option" where
  "status_led_init pin = (if CFG_STATUS_LED_GPIO < 0 then pin else Some False)"

definition status_led_set :: "bool \<Rightarrow> bool option \<Rightarrow> bool option" where
  "status_led_set on pin = (if CFG_STATUS_LED_GPIO < 0 then pin else Some on)"

definition mode_gpio_asserted :: "boot \<Rightarrow> bool" where
  "mode_gpio_asserted b \<longleftrightarrow> CFG_MODE_SELECT_GPIO \<ge> 0 \<and> bo_gpio_config b = ESP_OK \<and>
     (if CFG_MODE_SELECT_ACTIVE_LOW then bo_gpio_level b = 0 else bo_gpio_level b \<noteq> 0)"

definition app_mode_select :: "boot \<Rightarrow> u8" where
  "app_mode_select b =
     (if mode_gpio_asserted b then CFG_MODE_BENCH
      else case bo_nvs_mode b of
        Some m \<Rightarrow> if m = CFG_MODE_BENCH then CFG_MODE_BENCH else if m = CFG_MODE_PCAN then CFG_MODE_PCAN
                  else CFG_DEFAULT_MODE
      | None \<Rightarrow> CFG_DEFAULT_MODE)"

definition start_pcan_mode :: "boot \<Rightarrow> app_task list" where
  "start_pcan_mode b =
     (if \<not> bo_cmd_init b then []
      else if \<not> bo_rb_init b CFG_RB_RX_DEPTH CFG_RB_USE_PSRAM then []
      else if \<not> bo_rb_init b CFG_RB_TX_DEPTH CFG_RB_USE_PSRAM then []
      else if \<not> bo_queues b then []
      else if bo_usb_install b \<noteq> ESP_OK then []
      else [TwaiRxTask, UsbTxTask, CanTxTask, CtrlTask])"

definition start_bench_mode :: "app_task list" where
  "start_bench_mode = [BenchTask]"

definition app_main :: "boot \<Rightarrow> app_task list" where
  "app_main b =
     (if app_mode_select b = CFG_MODE_BENCH \<and> CFG_ENABLE_BENCH_MODE then start_bench_mode else start_pcan_mode b)"

text \<open>The bench task runs only when the strap or, without the strap, the stored mode asks for it, and
  never beside a task of the other mode; and PCAN mode starts all of its tasks or none.\<close>

lemma app_main_exclusive:
  "BenchTask \<in> set (app_main b) \<longleftrightarrow> mode_gpio_asserted b \<or> bo_nvs_mode b = Some CFG_MODE_BENCH"
  "app_main b \<in> {[], [BenchTask], [TwaiRxTask, UsbTxTask, CanTxTask, CtrlTask]}"
  by (auto simp: app_main_def app_mode_select_def start_bench_mode_def start_pcan_mode_def split: option.splits)

subsection \<open>The bench task\<close>

text \<open>The controller's driver, the clock and the random numbers work on the driver's environment.\<close>

record 'd bench_plat =
  bp_drv :: "'d twai_drv"
  bp_now16 :: "'d \<Rightarrow> u16 \<times> 'd"
  bp_now_us :: "'d \<Rightarrow> u64 \<times> 'd"
  bp_random :: "'d \<Rightarrow> u32 \<times> 'd"
  bp_delay :: "u32 \<Rightarrow> 'd \<Rightarrow> 'd"

definition bench_frame :: "u32 \<Rightarrow> u8 list \<Rightarrow> pcan_frame" where
  "bench_frame cid dat =
     (let dlc = (if length dat > unat PCAN_FRAME_MAX_DLC then PCAN_FRAME_MAX_DLC else word_of_nat (length dat))
      in \<lparr>fr_id = cid, fr_ts16 = 0, fr_dlc = dlc, fr_flags = 0,
          fr_data = memcpy_at (replicate 8 0) 0 (take (unat dlc) dat), fr_writer_id = 0\<rparr>)"

definition bench_can_tx :: "'d bench_plat \<Rightarrow> 'd can can_tx" where
  "bench_can_tx bp cid dat c =
     (let (e, c) = pcan_twai_transmit (bp_drv bp) (bench_frame cid dat) TWAI_CALL_TIMEOUT_MS c in (e = ESP_OK, c))"

definition bench_millis :: "'d bench_plat \<Rightarrow> 'd can \<Rightarrow> u32 \<times> 'd can" where
  "bench_millis bp = (\<lambda>(h, d). let (us, d) = bp_now_us bp d in (ucast (us div 1000), (h, d)))"

definition bench_uds_plat :: "'d bench_plat \<Rightarrow> 'd can uds_plat" where
  "bench_uds_plat bp =
     \<lparr>up_can_tx = bench_can_tx bp, up_millis = bench_millis bp,
      up_random = (\<lambda>(h, d). let (r, d) = bp_random bp d in (r, (h, d))),
      up_delay = (\<lambda>ms (h, d). (h, bp_delay bp ms d))\<rparr>"

definition bench_cfg :: isotp_cfg where
  "bench_cfg = zero_cfg\<lparr>cfg_bs := 0, cfg_stmin := 0, pad_byte := 0xCC\<rparr>"

text \<open>The set-up; \<open>None\<close> when the controller does not start and the task deletes itself.\<close>

definition bench_task_start :: "'d bench_plat \<Rightarrow> 'd can \<Rightarrow> ('d can uds \<times> u32) option" where
  "bench_task_start bp c =
     (let (e, c) = pcan_twai_start (bp_drv bp) CFG_BENCH_BITRATE TWAI_HAL_MODE_NORMAL c
      in if e \<noteq> ESP_OK then None
         else
           let link = isotp_init CFG_BENCH_TX_ID CFG_BENCH_RX_ID CFG_BENCH_FUNC_ID (Some bench_cfg);
               (last_ms, c') = bench_millis bp c
           in Some (bench_start (bench_uds_plat bp) link (replicate ISOTP_MAX_MSG 0) c\<lparr>ud_env := c'\<rparr>, last_ms))"

text \<open>One round: a frame from the controller unless it is extended, the link's timers, the server.\<close>

definition bench_take_frame :: "'d bench_plat \<Rightarrow> isotp_link \<Rightarrow> 'd can \<Rightarrow> isotp_link \<times> 'd can" where
  "bench_take_frame bp l = (\<lambda>(h, d).
     let (now16, d) = bp_now16 bp d;
         (re, f, c) = pcan_twai_receive (bp_drv bp) now16 BENCH_POLL_MS (h, d)
     in case f of
          Some f \<Rightarrow>
            if re = ESP_OK \<and> fr_flags f AND PCAN_FRAME_FLAG_EXT = 0 then
              let (now, c) = bench_millis bp c
              in isotp_on_can_frame (bench_can_tx bp) now l (fr_id f) (take (unat (fr_dlc f)) (fr_data f)) c
            else (l, c)
        | None \<Rightarrow> (l, c))"

definition bench_link_round :: "'d bench_plat \<Rightarrow> isotp_link \<Rightarrow> 'd can \<Rightarrow> isotp_link \<times> 'd can" where
  "bench_link_round bp l c =
     (let (l, c) = bench_take_frame bp l c; (now, c) = bench_millis bp c
      in isotp_poll (bench_can_tx bp) now l c)"

definition bench_pass :: "'d bench_plat \<Rightarrow> 'd can uds \<times> u32 \<Rightarrow> 'd can uds \<times> u32" where
  "bench_pass bp = (\<lambda>(s, last_ms).
     if ud_restarted s then (s, last_ms)
     else
       let (l, c) = bench_link_round bp (us_link (ud_srv s)) (ud_env s);
           (now_ms, c) = bench_millis bp c;
           s = s\<lparr>ud_srv := (ud_srv s)\<lparr>us_link := l\<rparr>, ud_env := c\<rparr>
       in (uds_server_poll (bench_uds_plat bp) (now_ms - last_ms) s, now_ms))"

fun bench_run :: "nat \<Rightarrow> 'd bench_plat \<Rightarrow> 'd can uds \<times> u32 \<Rightarrow> 'd can uds \<times> u32" where
  "bench_run 0 bp st = st"
| "bench_run (Suc n) bp st = bench_run n bp (bench_pass bp st)"

subsection \<open>The bench task and the server's histories\<close>

lemma uds_history_append: "uds_history P (xs @ ys) s = uds_history P ys (uds_history P xs s)"
  by (simp add: uds_history_def)

lemma bench_pass_history: "\<exists>evs. fst (bench_pass bp st) = uds_history (bench_uds_plat bp) evs (fst st)"
proof -
  obtain s last_ms where st: "st = (s, last_ms)" by fastforce
  show ?thesis
  proof (cases "ud_restarted s")
    case True
    then show ?thesis using st by (intro exI [of _ "[]"]) (simp add: bench_pass_def uds_history_def)
  next
    case False
    obtain l c where lc: "bench_link_round bp (us_link (ud_srv s)) (ud_env s) = (l, c)" by (rule prod.exhaust)
    obtain now c' where n: "bench_millis bp c = (now, c')" by (rule prod.exhaust)
    show ?thesis using st False lc n
      by (intro exI [of _ "[Traffic l c', Poll (now - last_ms)]"]) (simp add: bench_pass_def uds_history_def)
  qed
qed

lemma bench_run_history: "\<exists>evs. fst (bench_run n bp st) = uds_history (bench_uds_plat bp) evs (fst st)"
proof (induction n arbitrary: st)
  case 0
  then show ?case by (intro exI [of _ "[]"]) (simp add: uds_history_def)
next
  case (Suc n)
  from Suc.IH [of "bench_pass bp st"] obtain evs where
    "fst (bench_run n bp (bench_pass bp st)) = uds_history (bench_uds_plat bp) evs (fst (bench_pass bp st))" by blast
  moreover obtain evs' where "fst (bench_pass bp st) = uds_history (bench_uds_plat bp) evs' (fst st)"
    using bench_pass_history by blast
  ultimately have "fst (bench_run (Suc n) bp st) = uds_history (bench_uds_plat bp) (evs' @ evs) (fst st)"
    by (simp add: uds_history_append)
  then show ?case by blast
qed


definition demo_bench_plat :: "demo_drv bench_plat" where
  "demo_bench_plat = \<lparr>bp_drv = demo_twai, bp_now16 = (\<lambda>d. (0, d)), bp_now_us = (\<lambda>d. (5000, d)),
     bp_random = (\<lambda>d. (7, d)), bp_delay = (\<lambda>ms d. d)\<rparr>"

abbreviation demo_can_off :: "demo_drv can" where
  "demo_can_off \<equiv> (hal_init, TWAI_UNINSTALLED, [], [])"

lemma demo_can_starts: "fst (pcan_twai_start demo_twai CFG_BENCH_BITRATE TWAI_HAL_MODE_NORMAL demo_can_off) = ESP_OK"
  by code_simp


end
